(* ===== verification/Prelude.thy ===== *)
theory Prelude
  imports Main "HOL-Library.Word" "HOL-Library.AList" "HOL-Library.Multiset"
    "HOL-Library.Char_ord" "HOL-Library.List_Lexorder" "HOL-Library.Product_Lexorder"
begin

text \<open>
  What the components of the development share: names for the machine integers of the Rust
  source, the concurrent maps of the node (\<open>DashMap\<close>, \<open>HashMap\<close>) as association
  lists behind the interface \<open>dict\<close>, little-endian byte strings, ceiling division and
  saturating arithmetic, and the generic lemmas on them.

  The release profile of the crate sets \<open>overflow-checks = false\<close>, so \<open>+\<close>, \<open>-\<close> and
  \<open>*\<close> on integers wrap around, which is what the operations of \<open>'a word\<close> do.
\<close>

named_theorems dict_simps \<open>lookups after updates of the association-list maps\<close>
named_theorems frame_simps \<open>fields an operation leaves unchanged\<close>

section \<open>Machine integers\<close>

type_synonym u8 = "8 word"
type_synonym u32 = "32 word"
type_synonym u64 = "64 word"
type_synonym i64 = "64 word"
type_synonym usize = "64 word"

text \<open>\<open>u64::div_ceil\<close>, \<open>u64::saturating_sub\<close> and \<open>u64::saturating_mul\<close>.\<close>

definition div_ceil :: "'a::len word \<Rightarrow> 'a word \<Rightarrow> 'a word" where
  "div_ceil a b = (if a mod b = 0 then a div b else a div b + 1)"

definition saturating_sub :: "'a::len word \<Rightarrow> 'a word \<Rightarrow> 'a word" where
  "saturating_sub a b = (if a < b then 0 else a - b)"

definition saturating_mul :: "'a::len word \<Rightarrow> 'a word \<Rightarrow> 'a word" where
  "saturating_mul a b = (if unat a * unat b < 2 ^ LENGTH('a) then a * b else - 1)"

lemma unat_saturating_sub [simp]: "unat (saturating_sub a b) = unat a - unat b"
  by (auto simp: saturating_sub_def unat_sub word_le_nat_alt word_less_nat_alt)

lemma saturating_sub_le: "saturating_sub a b \<le> a"
  by (simp add: word_le_nat_alt)

lemma unat_div_ceil:
  assumes "1 < unat b"
  shows "unat (div_ceil a b) = (unat a + (unat b - 1)) div unat b"
proof -
  define n m where "n = unat a" and "m = unat b"
  have m: "1 < m" and n: "n < 2 ^ LENGTH('a)" using assms by (simp_all add: n_def m_def)
  have "n div m < n \<or> n = 0" using m by (cases "n = 0") auto
  then have room: "n div m + 1 < 2 ^ LENGTH('a) \<or> n = 0" using n by linarith
  show ?thesis
  proof (cases "n mod m = 0")
    case True
    then obtain k where k: "n = m * k" by auto
    have "(m * k + r) div m = k" if "r < m" for r using that by simp
    from this [of "m - 1"] have "(m * k + (m - 1)) div m = k" using m by linarith
    moreover have "n div m = k" using k m by simp
    moreover have "a mod b = 0" using True by (simp add: word_unat_eq_iff unat_mod n_def m_def)
    ultimately show ?thesis using k by (simp add: div_ceil_def unat_div n_def m_def)
  next
    case False
    have "(n + (m - 1)) div m = n div m + 1"
    proof -
      have "n + (m - 1) = m * (n div m) + (n mod m + (m - 1))"
        by (metis add.assoc mult_div_mod_eq)
      then have "(n + (m - 1)) div m = n div m + (n mod m + (m - 1)) div m"
        using m by (metis add.commute div_mult_self4 not_one_less_zero)
      moreover have "(n mod m + (m - 1)) div m = 1"
      proof -
        have "n mod m < m" using m by simp
        then have eq: "n mod m + (m - 1) = m + (n mod m - 1)" and lt: "n mod m - 1 < m"
          using False by linarith+
        have "(m + r) div m = 1" if "r < m" for r
          using that by (intro div_nat_eqI) auto
        from this [OF lt] show ?thesis by (simp only: eq)
      qed
      ultimately show ?thesis by simp
    qed
    moreover have "a mod b \<noteq> 0" using False by (simp add: word_unat_eq_iff unat_mod n_def m_def)
    moreover have "n \<noteq> 0" using False by (cases n) auto
    ultimately show ?thesis using room
      by (simp add: div_ceil_def unat_word_ariths unat_div n_def m_def)
  qed
qed

text \<open>Sums of words: the iterator's \<open>sum()\<close> wraps; it is exact below the width.\<close>

lemma unat_sum_list_mod:
  "unat (sum_list ws) = sum_list (map unat ws) mod 2 ^ LENGTH('a)" for ws :: "'a::len word list"
  by (induction ws) (auto simp: unat_word_ariths mod_simps)

lemma unat_sum_list:
  "sum_list (map unat ws) < 2 ^ LENGTH('a) \<Longrightarrow> unat (sum_list ws) = sum_list (map unat ws)"
  for ws :: "'a::len word list"
  by (simp add: unat_sum_list_mod)

section \<open>Byte strings\<close>

text \<open>\<open>to_le_bytes\<close> of an integer of \<open>n\<close> bytes, and its inverse \<open>from_le_bytes\<close>.\<close>

definition le_bytes :: "nat \<Rightarrow> 'a::len word \<Rightarrow> u8 list" where
  "le_bytes n w = map (\<lambda>i. ucast (drop_bit (8 * i) w)) [0..<n]"

lemma length_le_bytes [simp]: "length (le_bytes n w) = n"
  by (simp add: le_bytes_def)

lemma le_bytes_inject:
  assumes eq: "le_bytes n v = le_bytes n w" and n: "LENGTH('a) \<le> 8 * n"
  shows "v = (w :: 'a::len word)"
proof (rule bit_word_eqI)
  fix k assume k: "k < LENGTH('a)"
  let ?i = "k div 8"
  have i: "?i < n" using k n by auto
  have "le_bytes n v ! ?i = le_bytes n w ! ?i" using eq by simp
  then have "ucast (drop_bit (8 * ?i) v) = (ucast (drop_bit (8 * ?i) w) :: u8)"
    using i by (simp add: le_bytes_def)
  then have "bit (ucast (drop_bit (8 * ?i) v) :: u8) (k mod 8)
      = bit (ucast (drop_bit (8 * ?i) w) :: u8) (k mod 8)" by simp
  then show "bit v k = bit w k" by (simp add: bit_simps)
qed

lemma append_eq_split: "length a = length c \<Longrightarrow> a @ b = c @ d \<longleftrightarrow> a = c \<and> b = d"
  by simp

lemma suffix_eq_split: "length b = length d \<Longrightarrow> a @ b = c @ d \<longleftrightarrow> a = c \<and> b = d"
  by simp

lemma le_bytes_eq: "LENGTH('a) \<le> 8 * n \<Longrightarrow> le_bytes n v = le_bytes n w \<longleftrightarrow> v = w" for v w :: "'a::len word"
  by (auto dest: le_bytes_inject)

primrec of_le :: "u8 list \<Rightarrow> 'a::len word" where
  "of_le [] = 0"
| "of_le (b # bs) = or (ucast b) (push_bit 8 (of_le bs))"

lemma le_bytes_Suc: "le_bytes (Suc n) w = ucast w # le_bytes n (drop_bit 8 w)"
  by (simp add: le_bytes_def map_upt_Suc add.commute del: upt_Suc)

lemma of_le_bytes_take: "of_le (le_bytes n w) = take_bit (8 * n) w"
proof (induction n arbitrary: w)
  case 0
  show ?case by (simp add: le_bytes_def)
next
  case (Suc n)
  show ?case
    by (rule bit_eqI) (auto simp: le_bytes_Suc Suc.IH bit_simps)
qed

lemma of_le_bytes: "LENGTH('a) \<le> 8 * n \<Longrightarrow> of_le (le_bytes n w) = w" for w :: "'a::len word"
  by (simp add: of_le_bytes_take take_bit_word_eq_self)

text \<open>Strings are byte strings; \<open>as_bytes\<close> is the identity up to the type of a byte.\<close>

definition as_bytes :: "string \<Rightarrow> u8 list" where
  "as_bytes s = map (\<lambda>c. of_nat (of_char c)) s"

lemma length_as_bytes [simp]: "length (as_bytes s) = length s"
  by (simp add: as_bytes_def)

lemma as_bytes_inject [simp]: "as_bytes s = as_bytes t \<longleftrightarrow> s = t"
proof -
  have "inj (\<lambda>c. of_nat (of_char c) :: u8)"
  proof (rule injI)
    fix c d :: char
    assume "(of_nat (of_char c) :: u8) = of_nat (of_char d)"
    then have "(of_char c :: nat) mod 2 ^ 8 = of_char d mod 2 ^ 8"
      by (simp only: word_unat_eq_iff unat_of_nat) simp
    then show "c = d" by (simp add: of_char_mod_256 flip: numeral_eq_Suc)
  qed
  then show ?thesis by (simp add: as_bytes_def inj_map_eq_map)
qed

text \<open>\<open>{}\<close> of an unsigned integer in \<open>format!\<close>: decimal digits, no leading zeros.\<close>

fun show_nat :: "nat \<Rightarrow> string" where
  "show_nat n = (if n < 10 then [char_of (48 + n)]
     else show_nat (n div 10) @ [char_of (48 + n mod 10)])"

declare show_nat.simps [simp del]

text \<open>\<open>char::is_ascii_hexdigit\<close>.\<close>

definition is_ascii_hexdigit :: "char \<Rightarrow> bool" where
  "is_ascii_hexdigit c = (let n = (of_char c :: nat) in
     48 \<le> n \<and> n \<le> 57 \<or> 65 \<le> n \<and> n \<le> 70 \<or> 97 \<le> n \<and> n \<le> 102)"

section \<open>Keyed maps\<close>

text \<open>
  The interface of a keyed map, as the components use \<open>DashMap\<close>, \<open>HashMap\<close> and the
  trees of the sled database: what a lookup returns after each update, and which keys an
  iteration visits.
\<close>

locale dict =
  fixes empty :: "'m"
    and get :: "'m \<Rightarrow> 'k \<Rightarrow> 'v option"
    and put :: "'k \<Rightarrow> 'v \<Rightarrow> 'm \<Rightarrow> 'm"
    and remove :: "'k \<Rightarrow> 'm \<Rightarrow> 'm"
    and keys :: "'m \<Rightarrow> 'k list"
    and invar :: "'m \<Rightarrow> bool"
  assumes get_empty: "get empty k = None"
    and get_put: "get (put k v m) = (get m)(k \<mapsto> v)"
    and get_remove: "get (remove k m) = (get m)(k := None)"
    and set_keys: "set (keys m) = dom (get m)"
    and invar_empty: "invar empty"
    and invar_put: "invar m \<Longrightarrow> invar (put k v m)"
    and invar_remove: "invar m \<Longrightarrow> invar (remove k m)"
    and invar_keys: "invar m \<Longrightarrow> distinct (keys m)"
begin

lemma get_fold_remove: "get (fold remove ks m) k = (if k \<in> set ks then None else get m k)"
  by (induction ks arbitrary: m) (auto simp: get_remove)

lemma invar_fold_remove: "invar m \<Longrightarrow> invar (fold remove ks m)"
  by (induction ks arbitrary: m) (auto simp: invar_remove)

lemma put_remove_restores: "get m k = Some v \<Longrightarrow> get (put k v (remove k m)) = get m"
  by (auto simp: get_put get_remove)

lemma card_keys_remove:
  assumes "invar m"
  shows "length (keys (remove k m)) = length (keys m) - (if get m k = None then 0 else 1)"
proof -
  have "length (keys (remove k m)) = card (dom (get m) - {k})"
    using assms
    by (metis distinct_card dom_fun_upd get_remove invar_keys invar_remove set_keys)
  also have "\<dots> = card (dom (get m)) - (if k \<in> dom (get m) then 1 else 0)"
    by (simp add: card_Diff_singleton_if)
  also have "card (dom (get m)) = length (keys m)"
    using assms by (metis distinct_card invar_keys set_keys)
  finally show ?thesis by (auto simp: domIff)
qed

lemma card_keys_put:
  assumes "invar m"
  shows "length (keys (put k v m)) = length (keys m) + (if get m k = None then 1 else 0)"
proof -
  have fin: "finite (dom (get m))" by (metis List.finite_set set_keys)
  have "length (keys (put k v m)) = card (insert k (dom (get m)))"
    using assms by (metis distinct_card dom_fun_upd get_put invar_keys invar_put
      option.distinct(1) set_keys)
  also have "\<dots> = card (dom (get m)) + (if k \<in> dom (get m) then 0 else 1)"
    using fin by (simp add: card_insert_if)
  also have "card (dom (get m)) = length (keys m)"
    using assms by (metis distinct_card invar_keys set_keys)
  finally show ?thesis by (auto simp: domIff)
qed

end

text \<open>
  The maps of the model are association lists with distinct keys: the list order is the order
  in which an iteration visits the entries, which the source leaves to the hash function.
\<close>

type_synonym ('k, 'v) dmap = "('k \<times> 'v) list"

abbreviation dget :: "('k, 'v) dmap \<Rightarrow> 'k \<Rightarrow> 'v option" where
  "dget \<equiv> map_of"

abbreviation dput :: "'k \<Rightarrow> 'v \<Rightarrow> ('k, 'v) dmap \<Rightarrow> ('k, 'v) dmap" where
  "dput \<equiv> AList.update"

abbreviation dremove :: "'k \<Rightarrow> ('k, 'v) dmap \<Rightarrow> ('k, 'v) dmap" where
  "dremove \<equiv> AList.delete"

definition dhas :: "('k, 'v) dmap \<Rightarrow> 'k \<Rightarrow> bool" where
  "dhas m k = (dget m k \<noteq> None)"

definition dkeys :: "('k, 'v) dmap \<Rightarrow> 'k list" where
  "dkeys m = map fst m"

definition dinv :: "('k, 'v) dmap \<Rightarrow> bool" where
  "dinv m = distinct (map fst m)"

interpretation al: dict "[] :: ('k \<times> 'v) list" dget dput dremove dkeys dinv
proof
  fix k :: 'k and v :: 'v and m :: "('k \<times> 'v) list"
  show "dget (dput k v m) = (dget m)(k \<mapsto> v)" by (rule update_conv')
  show "dget (dremove k m) = (dget m)(k := None)" by (rule delete_conv')
  show "dinv m \<Longrightarrow> dinv (dput k v m)" by (simp add: dinv_def distinct_update)
  show "dinv m \<Longrightarrow> dinv (dremove k m)" by (simp add: dinv_def distinct_delete)
  show "set (dkeys m) = dom (dget m)" by (simp add: dkeys_def dom_map_of_conv_image_fst)
qed (simp_all add: dinv_def dkeys_def)

lemmas dict_laws [simp, dict_simps] = al.get_put al.get_remove
lemmas dict_inv [simp, intro] = al.invar_empty al.invar_put al.invar_remove

lemma dhas_put [simp]: "dhas (dput k v m) k' \<longleftrightarrow> k' = k \<or> dhas m k'"
  by (auto simp: dhas_def)

lemma dhas_remove [simp]: "dhas (dremove k m) k' \<longleftrightarrow> k' \<noteq> k \<and> dhas m k'"
  by (auto simp: dhas_def)

lemma dhas_Nil [simp]: "\<not> dhas [] k"
  by (simp add: dhas_def)

lemma dhas_iff: "dhas m k \<longleftrightarrow> k \<in> fst ` set m"
  by (simp add: dhas_def map_of_eq_None_iff)

lemma in_set_dhas: "(k, v) \<in> set m \<Longrightarrow> dhas m k"
  by (force simp: dhas_iff)

lemma set_dremove_subset: "set (dremove k m) \<subseteq> set m"
  by (auto simp: AList.delete_eq)

lemma dget_in_set: "dget m k = Some v \<Longrightarrow> (k, v) \<in> set m"
  by (rule map_of_SomeD)

lemma in_set_dget: "dinv m \<Longrightarrow> (k, v) \<in> set m \<longleftrightarrow> dget m k = Some v"
  by (auto simp: dinv_def dest: map_of_SomeD)

lemma dinv_filter [simp, intro]: "dinv m \<Longrightarrow> dinv (filter P m)"
  by (auto simp: dinv_def distinct_map_filter)

lemma dget_filter:
  assumes m: "dinv m"
  shows "dget (filter P m) k =
     (case dget m k of None \<Rightarrow> None | Some v \<Rightarrow> if P (k, v) then Some v else None)"
proof -
  have *: "dget (filter P m) k = Some v \<longleftrightarrow> dget m k = Some v \<and> P (k, v)" for v
    using in_set_dget [OF m, of k v] in_set_dget [OF dinv_filter [OF m], of k v P] by simp
  show ?thesis
  proof (cases "dget (filter P m) k")
    case None
    then show ?thesis using * by (auto split: option.splits)
  next
    case (Some v)
    with * have "dget m k = Some v \<and> P (k, v)" by blast
    with Some show ?thesis by simp
  qed
qed

text \<open>Updating every value in place (\<open>iter_mut\<close>, \<open>retain\<close> with a mutation).\<close>

definition dmap_values :: "('k \<Rightarrow> 'v \<Rightarrow> 'v) \<Rightarrow> ('k, 'v) dmap \<Rightarrow> ('k, 'v) dmap" where
  "dmap_values f m = map (\<lambda>(k, v). (k, f k v)) m"

lemma dget_map_values [simp]: "dget (dmap_values f m) k = map_option (f k) (dget m k)"
  by (induction m) (auto simp: dmap_values_def)

lemma dinv_map_values [simp]: "dinv (dmap_values f m) = dinv m"
  by (auto simp: dinv_def dmap_values_def comp_def case_prod_unfold)

text \<open>\<open>filter_map\<close> of an iterator.\<close>

lemma set_map_filter: "set (List.map_filter f xs) = {y. \<exists>x \<in> set xs. f x = Some y}"
  by (induction xs) (auto simp: map_filter_simps split: option.splits)

text \<open>Sorting by an injective key forgets the order of the list.\<close>

lemma filter_eq_replicate: "filter (\<lambda>x. k = x) xs = replicate (count (mset xs) k) k"
  by (induction xs) auto

lemma sort_key_perm:
  assumes m: "mset xs = mset ys" and inj: "inj_on f (set xs)"
  shows "sort_key f xs = sort_key f ys"
proof (rule properties_for_sort_key)
  have set: "set ys = set xs" using m by (metis set_mset_mset)
  have same: "filter (\<lambda>x. f k = f x) zs = filter (\<lambda>x. k = x) zs" if "k \<in> set xs" "set zs = set xs" for k zs
    using that inj by (intro filter_cong) (auto dest: inj_onD)
  fix k assume "k \<in> set (sort_key f ys)"
  then have "k \<in> set xs" using set by simp
  then show "filter (\<lambda>x. f k = f x) (sort_key f ys) = filter (\<lambda>x. f k = f x) xs"
    using set m by (simp add: same filter_eq_replicate)
qed (use m in simp_all)

end
