(* ===== verification/Core_Types.thy ===== *)
theory Core_Types
  imports Prelude
begin

text \<open>
  The data model of \<open>src/types.rs\<close> and the protocol constants of \<open>src/constants.rs\<close>:
  outpoints, outputs, transactions and their masternode payloads, the states of an output and of
  a transaction, masternode tiers and collateral locks. Hashing, serialisation, hexadecimal
  strings and Ed25519 come from other crates; they are the fields of the record \<open>extern\<close>, which
  every operation that needs them takes as its first argument.
\<close>

section \<open>Constants\<close>

definition SATOSHIS_PER_TIME :: u64 where "SATOSHIS_PER_TIME = 100000000"
definition BLOCK_REWARD_SATOSHIS :: u64 where "BLOCK_REWARD_SATOSHIS = 100 * SATOSHIS_PER_TIME"
definition PRODUCER_REWARD_SATOSHIS :: u64 where "PRODUCER_REWARD_SATOSHIS = 30 * SATOSHIS_PER_TIME"
definition TREASURY_POOL_SATOSHIS :: u64 where "TREASURY_POOL_SATOSHIS = 5 * SATOSHIS_PER_TIME"
definition GOLD_POOL_SATOSHIS :: u64 where "GOLD_POOL_SATOSHIS = 25 * SATOSHIS_PER_TIME"
definition SILVER_POOL_SATOSHIS :: u64 where "SILVER_POOL_SATOSHIS = 18 * SATOSHIS_PER_TIME"
definition BRONZE_POOL_SATOSHIS :: u64 where "BRONZE_POOL_SATOSHIS = 14 * SATOSHIS_PER_TIME"
definition FREE_POOL_SATOSHIS :: u64 where "FREE_POOL_SATOSHIS = 8 * SATOSHIS_PER_TIME"
definition TOTAL_POOL_SATOSHIS :: u64 where
  "TOTAL_POOL_SATOSHIS =
     GOLD_POOL_SATOSHIS + SILVER_POOL_SATOSHIS + BRONZE_POOL_SATOSHIS + FREE_POOL_SATOSHIS"
definition MAX_FREE_TIER_RECIPIENTS :: nat where "MAX_FREE_TIER_RECIPIENTS = 25"
definition MAX_BLOCK_SIZE :: nat where "MAX_BLOCK_SIZE = 4000000"
definition TIMESTAMP_TOLERANCE_SECS :: i64 where "TIMESTAMP_TOLERANCE_SECS = 5"
definition FREE_TIER_SYBIL_FORK_HEIGHT :: u64 where "FREE_TIER_SYBIL_FORK_HEIGHT = 1950"

lemmas pool_defs = SATOSHIS_PER_TIME_def BLOCK_REWARD_SATOSHIS_def PRODUCER_REWARD_SATOSHIS_def
  TREASURY_POOL_SATOSHIS_def GOLD_POOL_SATOSHIS_def SILVER_POOL_SATOSHIS_def
  BRONZE_POOL_SATOSHIS_def FREE_POOL_SATOSHIS_def TOTAL_POOL_SATOSHIS_def

section \<open>Transactions\<close>

type_synonym hash256 = "u8 list"
type_synonym pubkey = "u8 list"

text \<open>A \<open>[u8; 32]\<close> has 32 bytes; \<open>[0u8; 32]\<close> is the zero hash.\<close>

definition hash256_ok :: "hash256 \<Rightarrow> bool" where
  "hash256_ok h = (length h = 32)"

definition zero_hash :: hash256 where
  "zero_hash = replicate 32 0"

record OutPoint =
  op_txid :: hash256
  op_vout :: u32

record UTXO =
  u_outpoint :: OutPoint
  u_value :: u64
  u_script_pubkey :: "u8 list"
  u_address :: string
  u_masternode_key :: "string option"

record TxInput =
  in_previous_output :: OutPoint
  in_script_sig :: "u8 list"
  in_sequence :: u32

record TxOutput =
  out_value :: u64
  out_script_pubkey :: "u8 list"

datatype SpecialTransactionData =
    MasternodeRegistration (reg_node_address: string) (reg_wallet_address: string)
      (reg_reward_address: string) (reg_collateral_outpoint: string) (reg_pubkey: string)
      (reg_signature: string)
  | MasternodeDeregistration (dereg_node_address: string) (dereg_slot_id: u32)
      (dereg_pubkey: string) (dereg_signature: string)
  | MasternodePayoutUpdate (upd_node_address: string) (upd_new_reward_address: string)
      (upd_pubkey: string) (upd_signature: string)

record Transaction =
  tx_version :: u32
  tx_inputs :: "TxInput list"
  tx_outputs :: "TxOutput list"
  tx_lock_time :: u32
  tx_timestamp :: i64
  tx_special_data :: "SpecialTransactionData option"
  tx_encrypted_memo :: "u8 list option"

text \<open>
  The functions of other crates: \<open>sha2\<close>, \<open>blake3\<close>, \<open>hex\<close>, \<open>serde_json\<close> and \<open>bincode\<close>
  on a transaction, \<open>bincode\<close> on a list of outputs, \<open>ed25519_dalek\<close> (is a byte string a public
  key, a signature, does a key accept a signature of a message, with \<open>verify\<close> and with
  \<open>verify_strict\<close>, and the signature a secret key makes).
\<close>

record extern =
  sha256 :: "u8 list \<Rightarrow> hash256"
  hex_encode :: "u8 list \<Rightarrow> string"
  hex_decode :: "string \<Rightarrow> u8 list option"
  tx_json :: "Transaction \<Rightarrow> u8 list"
  tx_bincode :: "Transaction \<Rightarrow> u8 list option"
  outputs_bincode :: "TxOutput list \<Rightarrow> u8 list option"
  ed_key_ok :: "pubkey \<Rightarrow> bool"
  ed_sig_ok :: "u8 list \<Rightarrow> bool"
  ed_verify :: "pubkey \<Rightarrow> u8 list \<Rightarrow> u8 list \<Rightarrow> bool"
  ed_verify_strict :: "pubkey \<Rightarrow> u8 list \<Rightarrow> u8 list \<Rightarrow> bool"
  ed_sign :: "u8 list \<Rightarrow> u8 list \<Rightarrow> u8 list"
  sha512 :: "u8 list \<Rightarrow> u8 list"
  blake3 :: "u8 list \<Rightarrow> hash256"

definition txid :: "extern \<Rightarrow> Transaction \<Rightarrow> hash256" where
  "txid X tx = sha256 X (tx_json X (tx\<lparr>tx_encrypted_memo := None\<rparr>))"

definition fee_amount :: "Transaction \<Rightarrow> u64" where
  "fee_amount tx = 0"

definition is_masternode_reg :: "Transaction \<Rightarrow> bool" where
  "is_masternode_reg tx = (case tx_special_data tx of
     Some (MasternodeRegistration _ _ _ _ _ _) \<Rightarrow> True | _ \<Rightarrow> False)"

definition is_masternode_dereg :: "Transaction \<Rightarrow> bool" where
  "is_masternode_dereg tx = (case tx_special_data tx of
     Some (MasternodeDeregistration _ _ _ _) \<Rightarrow> True | _ \<Rightarrow> False)"

definition is_masternode_update :: "Transaction \<Rightarrow> bool" where
  "is_masternode_update tx = (case tx_special_data tx of
     Some (MasternodePayoutUpdate _ _ _ _) \<Rightarrow> True | _ \<Rightarrow> False)"

definition is_special :: "Transaction \<Rightarrow> bool" where
  "is_special tx = (tx_special_data tx \<noteq> None)"

lemma txid_memo [simp]: "txid X (tx\<lparr>tx_encrypted_memo := m\<rparr>) = txid X tx"
  by (simp add: txid_def)

lemma special_kinds:
  "is_special tx \<longleftrightarrow> is_masternode_reg tx \<or> is_masternode_dereg tx \<or> is_masternode_update tx"
  by (auto simp: is_special_def is_masternode_reg_def is_masternode_dereg_def
      is_masternode_update_def split: option.splits SpecialTransactionData.splits)

section \<open>Masternode payloads\<close>

definition pubkey_hex64 :: "string \<Rightarrow> bool" where
  "pubkey_hex64 p = (length p = 64 \<and> list_all is_ascii_hexdigit p)"

fun validate_fields :: "SpecialTransactionData \<Rightarrow> string + unit" where
  "validate_fields (MasternodeRegistration node wallet reward coll pk sg) =
     (if node = [] then Inl ''MasternodeRegistration: node_address is empty''
      else if CHR '':'' \<notin> set node then
        Inl ''MasternodeRegistration: node_address missing port (expected IP:port)''
      else if wallet = [] then Inl ''MasternodeRegistration: wallet_address is empty''
      else if \<not> pubkey_hex64 pk then Inl ''MasternodeRegistration: pubkey must be 64 hex chars''
      else if sg = [] then Inl ''MasternodeRegistration: signature is empty''
      else Inr ())"
| "validate_fields (MasternodeDeregistration node slot pk sg) =
     (if node = [] then Inl ''MasternodeDeregistration: node_address is empty''
      else if \<not> pubkey_hex64 pk then Inl ''MasternodeDeregistration: pubkey must be 64 hex chars''
      else if sg = [] then Inl ''MasternodeDeregistration: signature is empty''
      else Inr ())"
| "validate_fields (MasternodePayoutUpdate node addr pk sg) =
     (if node = [] then Inl ''MasternodePayoutUpdate: node_address is empty''
      else if addr = [] then Inl ''MasternodePayoutUpdate: new_reward_address is empty''
      else if \<not> pubkey_hex64 pk then Inl ''MasternodePayoutUpdate: pubkey must be 64 hex chars''
      else if sg = [] then Inl ''MasternodePayoutUpdate: signature is empty''
      else Inr ())"

text \<open>
  The steps the three branches of \<open>verify_signature\<close> share: decode the key and the
  signature, then check the signature of the message.
\<close>

definition check_hex_signature ::
    "extern \<Rightarrow> string \<Rightarrow> string \<Rightarrow> string \<Rightarrow> string \<Rightarrow> string + unit" where
  "check_hex_signature X pk sg msg bad =
     (case hex_decode X pk of
        None \<Rightarrow> Inl ''invalid pubkey hex''
      | Some pkb \<Rightarrow>
          if length pkb \<noteq> 32 then Inl ''pubkey must be 32 bytes''
          else if \<not> ed_key_ok X pkb then Inl ''invalid Ed25519 pubkey''
          else (case hex_decode X sg of
              None \<Rightarrow> Inl ''invalid sig hex''
            | Some sgb \<Rightarrow>
                if length sgb \<noteq> 64 then Inl ''sig must be 64 bytes''
                else if ed_verify X pkb (as_bytes msg) sgb then Inr ()
                else Inl bad))"

fun signed_message :: "SpecialTransactionData \<Rightarrow> string" where
  "signed_message (MasternodeRegistration node wallet reward coll pk sg) =
     ''MNREG:'' @ node @ '':'' @ wallet @ '':'' @ pk @ '':'' @
       (if coll = [] then ''none'' else coll)"
| "signed_message (MasternodeDeregistration node slot pk sg) =
     ''MNDEREG:'' @ node @ '':'' @ show_nat (unat slot)"
| "signed_message (MasternodePayoutUpdate node addr pk sg) =
     ''MNPAYOUT:'' @ node @ '':'' @ addr"

fun verify_signature :: "extern \<Rightarrow> SpecialTransactionData \<Rightarrow> string + unit" where
  "verify_signature X (MasternodeRegistration node wallet reward coll pk sg) =
     check_hex_signature X pk sg
       (signed_message (MasternodeRegistration node wallet reward coll pk sg))
       ''MasternodeRegistration signature invalid''"
| "verify_signature X (MasternodeDeregistration node slot pk sg) =
     check_hex_signature X pk sg (signed_message (MasternodeDeregistration node slot pk sg))
       ''MasternodeDeregistration signature invalid''"
| "verify_signature X (MasternodePayoutUpdate node addr pk sg) =
     check_hex_signature X pk sg (signed_message (MasternodePayoutUpdate node addr pk sg))
       ''MasternodePayoutUpdate signature invalid''"

section \<open>States of outputs and transactions\<close>

datatype UTXOState =
    Unspent
  | Locked hash256 i64 \<comment> \<open>txid, locked\_at\<close>
  | SpentPending hash256 u32 u32 i64 \<comment> \<open>txid, votes, total\_nodes, spent\_at\<close>
  | SpentFinalized hash256 i64 u32 \<comment> \<open>txid, finalized\_at, votes\<close>
  | Archived hash256 u64 i64 \<comment> \<open>txid, block\_height, archived\_at\<close>

datatype TransactionStatus =
    Seen
  | Voting u32 u32 i64
  | FallbackResolution i64 u32 u32
  | Finalized i64 u64
  | Rejected i64 string
  | TxArchived u64 i64

fun is_terminal :: "TransactionStatus \<Rightarrow> bool" where
  "is_terminal (Finalized _ _) = True"
| "is_terminal (Rejected _ _) = True"
| "is_terminal (TxArchived _ _) = True"
| "is_terminal _ = False"

fun is_pending :: "TransactionStatus \<Rightarrow> bool" where
  "is_pending Seen = True"
| "is_pending (Voting _ _ _) = True"
| "is_pending (FallbackResolution _ _ _) = True"
| "is_pending _ = False"

lemma terminal_iff_not_pending: "is_terminal s \<longleftrightarrow> \<not> is_pending s"
  by (cases s) auto

section \<open>Masternodes and collateral\<close>

datatype MasternodeTier = Free | Bronze | Silver | Gold

fun can_vote_governance :: "MasternodeTier \<Rightarrow> bool" where
  "can_vote_governance Free = False"
| "can_vote_governance _ = True"

fun collateral :: "MasternodeTier \<Rightarrow> u64" where
  "collateral Free = 0"
| "collateral Bronze = 1000 * 100000000"
| "collateral Silver = 10000 * 100000000"
| "collateral Gold = 100000 * 100000000"

definition from_collateral_value :: "u64 \<Rightarrow> MasternodeTier option" where
  "from_collateral_value v =
     (if v \<ge> collateral Gold then Some Gold
      else if v \<ge> collateral Silver then Some Silver
      else if v \<ge> collateral Bronze then Some Bronze
      else None)"

fun reward_weight :: "MasternodeTier \<Rightarrow> u64" where
  "reward_weight Free = 1"
| "reward_weight Bronze = 5"
| "reward_weight Silver = 20"
| "reward_weight Gold = 60"

fun pool_allocation :: "MasternodeTier \<Rightarrow> u64" where
  "pool_allocation Gold = GOLD_POOL_SATOSHIS"
| "pool_allocation Silver = SILVER_POOL_SATOSHIS"
| "pool_allocation Bronze = BRONZE_POOL_SATOSHIS"
| "pool_allocation Free = FREE_POOL_SATOSHIS"

fun voting_power :: "MasternodeTier \<Rightarrow> u64" where
  "voting_power Free = 0"
| "voting_power Bronze = 1"
| "voting_power Silver = 10"
| "voting_power Gold = 100"

fun sampling_weight :: "MasternodeTier \<Rightarrow> u64" where
  "sampling_weight Free = 1"
| "sampling_weight Bronze = 10"
| "sampling_weight Silver = 100"
| "sampling_weight Gold = 1000"

record Masternode =
  mn_address :: string
  mn_wallet_address :: string
  mn_reward_address :: string
  mn_collateral :: u64
  mn_collateral_outpoint :: "OutPoint option"
  mn_locked_at :: u64
  mn_unlock_height :: "u64 option"
  mn_public_key :: pubkey
  mn_tier :: MasternodeTier
  mn_registered_at :: u64
  mn_slot_id :: u32

definition new_legacy ::
    "string \<Rightarrow> string \<Rightarrow> u64 \<Rightarrow> pubkey \<Rightarrow> MasternodeTier \<Rightarrow> u64 \<Rightarrow> Masternode" where
  "new_legacy addr wallet coll pk t reg =
     \<lparr>mn_address = addr, mn_wallet_address = wallet, mn_reward_address = [], mn_collateral = coll,
      mn_collateral_outpoint = None, mn_locked_at = reg, mn_unlock_height = None,
      mn_public_key = pk, mn_tier = t, mn_registered_at = reg, mn_slot_id = - 1\<rparr>"

definition new_with_collateral ::
    "string \<Rightarrow> string \<Rightarrow> u64 \<Rightarrow> OutPoint \<Rightarrow> pubkey \<Rightarrow> MasternodeTier \<Rightarrow> u64 \<Rightarrow> Masternode"
where
  "new_with_collateral addr wallet coll out pk t reg =
     \<lparr>mn_address = addr, mn_wallet_address = wallet, mn_reward_address = [], mn_collateral = coll,
      mn_collateral_outpoint = Some out, mn_locked_at = reg, mn_unlock_height = None,
      mn_public_key = pk, mn_tier = t, mn_registered_at = reg, mn_slot_id = - 1\<rparr>"

definition has_locked_collateral :: "Masternode \<Rightarrow> bool" where
  "has_locked_collateral mn = (mn_collateral_outpoint mn \<noteq> None)"

definition sort_masternodes_canonical :: "Masternode list \<Rightarrow> Masternode list" where
  "sort_masternodes_canonical mns = sort_key mn_address mns"

record LockedCollateral =
  lc_outpoint :: OutPoint
  lc_masternode_address :: string
  lc_lock_height :: u64
  lc_locked_at :: u64
  lc_unlock_height :: "u64 option"
  lc_amount :: u64

definition locked_collateral_new ::
    "u64 \<Rightarrow> OutPoint \<Rightarrow> string \<Rightarrow> u64 \<Rightarrow> u64 \<Rightarrow> LockedCollateral" where
  "locked_collateral_new now out addr height amount =
     \<lparr>lc_outpoint = out, lc_masternode_address = addr, lc_lock_height = height,
      lc_locked_at = now, lc_unlock_height = None, lc_amount = amount\<rparr>"

definition is_unlockable :: "LockedCollateral \<Rightarrow> u64 \<Rightarrow> bool" where
  "is_unlockable lc current_height =
     (case lc_unlock_height lc of Some h \<Rightarrow> current_height \<ge> h | None \<Rightarrow> False)"

end
