(* ===== verification/Storage.thy ===== *)
theory Storage
  imports Core_Types
begin

text \<open>
  The storage backends of \<open>src/storage.rs\<close>. The trait \<open>UtxoStorage\<close> is a record of its
  methods; \<open>InMemoryUtxoStorage\<close> and \<open>SledUtxoStorage\<close> are its two implementations. The
  contract the UTXO manager relies on is the locale \<open>utxo_storage\<close>. The in-memory backend is
  an interpretation of it, the sled backend satisfies it for every codec that decodes what it
  encodes. Block compression is modelled over the two functions of the \<open>zstd\<close> crate.
\<close>

section \<open>Block compression\<close>

definition COMPRESSED_MAGIC :: "u8 list" where
  "COMPRESSED_MAGIC = [0x5A, 0x53, 0x54, 0x44]"

definition compress_block :: "(u8 list \<Rightarrow> u8 list option) \<Rightarrow> u8 list \<Rightarrow> u8 list" where
  "compress_block zstd_encode data =
     COMPRESSED_MAGIC @ (case zstd_encode data of Some c \<Rightarrow> c | None \<Rightarrow> data)"

definition decompress_block ::
    "(u8 list \<Rightarrow> u8 list option) \<Rightarrow> u8 list \<Rightarrow> string + u8 list" where
  "decompress_block zstd_decode data =
     (if length data > 4 \<and> take 4 data = COMPRESSED_MAGIC then
        (case zstd_decode (drop 4 data) of
           Some d \<Rightarrow> Inr d | None \<Rightarrow> Inl ''Decompression failed'')
      else Inr data)"

definition should_compress :: "u8 list \<Rightarrow> u8 list \<Rightarrow> bool" where
  "should_compress original compressed = (length compressed < length original * 9 div 10)"

section \<open>The storage interface\<close>

datatype StorageError = Serialization | Database | TaskJoin | StorageNotFound OutPoint

record 's UtxoStorage =
  st_get :: "'s \<Rightarrow> OutPoint \<Rightarrow> UTXO option"
  st_add :: "'s \<Rightarrow> UTXO \<Rightarrow> StorageError + 's"
  st_remove :: "'s \<Rightarrow> OutPoint \<Rightarrow> StorageError + 's"
  st_list :: "'s \<Rightarrow> UTXO list"
  st_batch :: "'s \<Rightarrow> UTXO list \<Rightarrow> OutPoint list \<Rightarrow> StorageError + 's"
  st_clear :: "'s \<Rightarrow> StorageError + 's"

definition put_utxo :: "UTXO \<Rightarrow> (OutPoint \<rightharpoonup> UTXO) \<Rightarrow> (OutPoint \<rightharpoonup> UTXO)" where
  "put_utxo u m = m(u_outpoint u \<mapsto> u)"

definition drop_utxo :: "OutPoint \<Rightarrow> (OutPoint \<rightharpoonup> UTXO) \<Rightarrow> (OutPoint \<rightharpoonup> UTXO)" where
  "drop_utxo out m = m(out := None)"

locale utxo_storage =
  fixes ops :: "'s UtxoStorage"
    and ok :: "'s \<Rightarrow> bool"
    and storable :: "UTXO \<Rightarrow> bool"
  assumes get_key: "ok s \<Longrightarrow> st_get ops s out = Some u \<Longrightarrow> u_outpoint u = out"
    and add: "ok s \<Longrightarrow> storable u \<Longrightarrow>
      \<exists>s'. st_add ops s u = Inr s' \<and> ok s' \<and> st_get ops s' = put_utxo u (st_get ops s)"
    and remove: "ok s \<Longrightarrow>
      \<exists>s'. st_remove ops s out = Inr s' \<and> ok s' \<and> st_get ops s' = drop_utxo out (st_get ops s)"
    and list: "ok s \<Longrightarrow> set (st_list ops s) = ran (st_get ops s)"
    and list_distinct: "ok s \<Longrightarrow> distinct (map u_outpoint (st_list ops s))"
    and clear: "\<exists>s'. ok s \<longrightarrow> st_clear ops s = Inr s' \<and> ok s' \<and> st_get ops s' = Map.empty"
    and batch: "ok s \<Longrightarrow> list_all storable us \<Longrightarrow> u_outpoint ` set us \<inter> set outs = {} \<Longrightarrow>
      \<exists>s'. st_batch ops s us outs = Inr s' \<and> ok s' \<and>
        st_get ops s' = fold drop_utxo outs (fold put_utxo us (st_get ops s))"
begin

lemma add_E:
  assumes "ok s" and "storable u"
  obtains s' where "st_add ops s u = Inr s'" and "ok s'"
    and "st_get ops s' = put_utxo u (st_get ops s)"
  using add [OF assms] by blast

lemma remove_E:
  assumes "ok s"
  obtains s' where "st_remove ops s out = Inr s'" and "ok s'"
    and "st_get ops s' = drop_utxo out (st_get ops s)"
  using remove [OF assms] by blast

text \<open>Writing an output back after removing it restores the store.\<close>

lemma remove_then_add:
  assumes s: "ok s" and u: "storable u" and hit: "st_get ops s (u_outpoint u) = Some u"
  shows "\<exists>s1 s2. st_remove ops s (u_outpoint u) = Inr s1 \<and> st_add ops s1 u = Inr s2
    \<and> st_get ops s2 = st_get ops s"
proof -
  obtain s1 where s1: "st_remove ops s (u_outpoint u) = Inr s1" "ok s1"
    "st_get ops s1 = drop_utxo (u_outpoint u) (st_get ops s)"
    using s by (rule remove_E)
  obtain s2 where s2: "st_add ops s1 u = Inr s2"
    "st_get ops s2 = put_utxo u (st_get ops s1)"
    using s1(2) u by (rule add_E)
  have "st_get ops s2 = st_get ops s"
    using s1(3) s2(2) hit by (auto simp: put_utxo_def drop_utxo_def)
  with s1(1) s2(1) show ?thesis by blast
qed

end

section \<open>The in-memory backend\<close>

type_synonym mem_store = "(OutPoint, UTXO) dmap"

definition mem_get_utxo :: "mem_store \<Rightarrow> OutPoint \<Rightarrow> UTXO option" where
  "mem_get_utxo s out = dget s out"

definition mem_add_utxo :: "mem_store \<Rightarrow> UTXO \<Rightarrow> StorageError + mem_store" where
  "mem_add_utxo s u = Inr (dput (u_outpoint u) u s)"

definition mem_remove_utxo :: "mem_store \<Rightarrow> OutPoint \<Rightarrow> StorageError + mem_store" where
  "mem_remove_utxo s out = Inr (dremove out s)"

definition mem_list_utxos :: "mem_store \<Rightarrow> UTXO list" where
  "mem_list_utxos s = map snd s"

definition mem_batch_update ::
    "mem_store \<Rightarrow> UTXO list \<Rightarrow> OutPoint list \<Rightarrow> StorageError + mem_store" where
  "mem_batch_update s us outs = Inr (fold dremove outs (fold (\<lambda>u. dput (u_outpoint u) u) us s))"

definition mem_clear_all :: "mem_store \<Rightarrow> StorageError + mem_store" where
  "mem_clear_all s = Inr []"

definition InMemoryUtxoStorage :: "mem_store UtxoStorage" where
  "InMemoryUtxoStorage =
     \<lparr>st_get = mem_get_utxo, st_add = mem_add_utxo, st_remove = mem_remove_utxo,
      st_list = mem_list_utxos, st_batch = mem_batch_update, st_clear = mem_clear_all\<rparr>"

lemma mem_get_eq: "mem_get_utxo = dget"
  by (rule ext)+ (simp add: mem_get_utxo_def)

lemmas mem_defs = InMemoryUtxoStorage_def mem_get_eq mem_add_utxo_def mem_remove_utxo_def
  mem_list_utxos_def mem_batch_update_def mem_clear_all_def

text \<open>The map is keyed by the outpoint of the stored output.\<close>

definition mem_ok :: "mem_store \<Rightarrow> bool" where
  "mem_ok s = (dinv s \<and> list_all (\<lambda>(out, u). u_outpoint u = out) s)"

lemma mem_ok_get: "mem_ok s \<Longrightarrow> dget s out = Some u \<Longrightarrow> u_outpoint u = out"
  by (force simp: mem_ok_def list_all_iff dest: dget_in_set)

lemma mem_okI:
  assumes "dinv s" and "\<And>out u. dget s out = Some u \<Longrightarrow> u_outpoint u = out"
  shows "mem_ok s"
  using assms by (auto simp: mem_ok_def list_all_iff in_set_dget)

lemma mem_ok_dinv: "mem_ok s \<Longrightarrow> dinv s"
  by (simp add: mem_ok_def)

lemma mem_ok_put: "mem_ok s \<Longrightarrow> mem_ok (dput (u_outpoint u) u s)"
  by (rule mem_okI) (auto simp: mem_ok_dinv mem_ok_get split: if_splits)

lemma mem_ok_remove: "mem_ok s \<Longrightarrow> mem_ok (dremove out s)"
  by (rule mem_okI) (auto simp: mem_ok_dinv mem_ok_get split: if_splits)

lemma mem_fold_put:
  "mem_ok s \<Longrightarrow> mem_ok (fold (\<lambda>u. dput (u_outpoint u) u) us s) \<and>
     dget (fold (\<lambda>u. dput (u_outpoint u) u) us s) = fold put_utxo us (dget s)"
  by (induction us arbitrary: s) (auto simp: mem_ok_put put_utxo_def)

lemma mem_fold_remove:
  "mem_ok s \<Longrightarrow> mem_ok (fold dremove outs s) \<and>
     dget (fold dremove outs s) = fold drop_utxo outs (dget s)"
  by (induction outs arbitrary: s) (auto simp: mem_ok_remove drop_utxo_def)

interpretation mem: utxo_storage InMemoryUtxoStorage mem_ok "\<lambda>_. True"
proof
  fix s :: mem_store and u out us outs
  assume s: "mem_ok s"
  show "st_get InMemoryUtxoStorage s out = Some u \<Longrightarrow> u_outpoint u = out"
    using s by (auto simp: mem_defs intro: mem_ok_get)
  show "\<exists>s'. st_add InMemoryUtxoStorage s u = Inr s' \<and> mem_ok s' \<and>
      st_get InMemoryUtxoStorage s' = put_utxo u (st_get InMemoryUtxoStorage s)"
    using s mem_ok_put [of s u] by (auto simp: mem_defs put_utxo_def)
  show "\<exists>s'. st_remove InMemoryUtxoStorage s out = Inr s' \<and> mem_ok s' \<and>
      st_get InMemoryUtxoStorage s' = drop_utxo out (st_get InMemoryUtxoStorage s)"
    using s mem_ok_remove [of s out] by (auto simp: mem_defs drop_utxo_def)
  show "set (st_list InMemoryUtxoStorage s) = ran (st_get InMemoryUtxoStorage s)"
    using s by (force simp: mem_defs mem_ok_def ran_def in_set_dget [symmetric])
  have "map u_outpoint (st_list InMemoryUtxoStorage s) = map fst s"
    using s by (auto simp: mem_defs mem_ok_def list_all_iff)
  then show "distinct (map u_outpoint (st_list InMemoryUtxoStorage s))"
    using mem_ok_dinv [OF s] by (simp add: dinv_def)
  show "\<exists>s'. st_batch InMemoryUtxoStorage s us outs = Inr s' \<and> mem_ok s' \<and>
      st_get InMemoryUtxoStorage s' =
        fold drop_utxo outs (fold put_utxo us (st_get InMemoryUtxoStorage s))"
    using mem_fold_put [OF s, of us] mem_fold_remove [of "fold (\<lambda>u. dput (u_outpoint u) u) us s" outs]
    by (auto simp: mem_defs)
next
  fix s :: mem_store
  show "\<exists>s'. mem_ok s \<longrightarrow> st_clear InMemoryUtxoStorage s = Inr s' \<and> mem_ok s' \<and>
      st_get InMemoryUtxoStorage s' = Map.empty"
    by (auto simp: mem_defs mem_ok_def)
qed

section \<open>The sled backend\<close>

text \<open>
  A sled database maps byte strings to byte strings; \<open>db_io_ok\<close> says whether its operations
  currently succeed. \<open>bincode\<close> is the record \<open>utxo_codec\<close>. A \<open>sled::Batch\<close> keeps one
  write per key, the last one, and applies them at once.
\<close>

record sled_db =
  db_tree :: "(u8 list, u8 list) dmap"
  db_io_ok :: bool

record utxo_codec =
  ser_outpoint :: "OutPoint \<Rightarrow> u8 list option"
  ser_utxo :: "UTXO \<Rightarrow> u8 list option"
  de_utxo :: "u8 list \<Rightarrow> UTXO option"

definition sled_get_utxo :: "utxo_codec \<Rightarrow> sled_db \<Rightarrow> OutPoint \<Rightarrow> UTXO option" where
  "sled_get_utxo C db out =
     (case ser_outpoint C out of
        None \<Rightarrow> None
      | Some k \<Rightarrow> if db_io_ok db then Option.bind (dget (db_tree db) k) (de_utxo C) else None)"

definition sled_add_utxo :: "utxo_codec \<Rightarrow> sled_db \<Rightarrow> UTXO \<Rightarrow> StorageError + sled_db" where
  "sled_add_utxo C db u =
     (case (ser_outpoint C (u_outpoint u), ser_utxo C u) of
        (Some k, Some v) \<Rightarrow>
          if db_io_ok db then Inr (db\<lparr>db_tree := dput k v (db_tree db)\<rparr>) else Inl Database
      | _ \<Rightarrow> Inl Serialization)"

definition sled_remove_utxo :: "utxo_codec \<Rightarrow> sled_db \<Rightarrow> OutPoint \<Rightarrow> StorageError + sled_db" where
  "sled_remove_utxo C db out =
     (case ser_outpoint C out of
        None \<Rightarrow> Inl Serialization
      | Some k \<Rightarrow>
          if db_io_ok db then Inr (db\<lparr>db_tree := dremove k (db_tree db)\<rparr>) else Inl Database)"

definition sled_list_utxos :: "utxo_codec \<Rightarrow> sled_db \<Rightarrow> UTXO list" where
  "sled_list_utxos C db = (if db_io_ok db then List.map_filter (de_utxo C \<circ> snd) (db_tree db) else [])"

text \<open>The writes of a batch: \<open>None\<close> removes the key, \<open>Some v\<close> inserts \<open>v\<close>.\<close>

fun batch_removes ::
    "utxo_codec \<Rightarrow> OutPoint list \<Rightarrow> (u8 list, u8 list option) dmap
      \<Rightarrow> StorageError + (u8 list, u8 list option) dmap" where
  "batch_removes C [] b = Inr b"
| "batch_removes C (out # outs) b =
     (case ser_outpoint C out of
        None \<Rightarrow> Inl Serialization
      | Some k \<Rightarrow> batch_removes C outs (dput k None b))"

fun batch_adds ::
    "utxo_codec \<Rightarrow> UTXO list \<Rightarrow> (u8 list, u8 list option) dmap
      \<Rightarrow> StorageError + (u8 list, u8 list option) dmap" where
  "batch_adds C [] b = Inr b"
| "batch_adds C (u # us) b =
     (case (ser_outpoint C (u_outpoint u), ser_utxo C u) of
        (Some k, Some v) \<Rightarrow> batch_adds C us (dput k (Some v) b)
      | _ \<Rightarrow> Inl Serialization)"

definition apply_write :: "u8 list \<times> u8 list option \<Rightarrow> (u8 list, u8 list) dmap
    \<Rightarrow> (u8 list, u8 list) dmap" where
  "apply_write w t = (case w of (k, None) \<Rightarrow> dremove k t | (k, Some v) \<Rightarrow> dput k v t)"

definition sled_batch_update ::
    "utxo_codec \<Rightarrow> sled_db \<Rightarrow> UTXO list \<Rightarrow> OutPoint list \<Rightarrow> StorageError + sled_db" where
  "sled_batch_update C db us outs =
     (case batch_removes C outs [] of
        Inl e \<Rightarrow> Inl e
      | Inr b \<Rightarrow> (case batch_adds C us b of
            Inl e \<Rightarrow> Inl e
          | Inr b' \<Rightarrow>
              if db_io_ok db then Inr (db\<lparr>db_tree := fold apply_write b' (db_tree db)\<rparr>)
              else Inl Database))"

definition sled_clear_all :: "sled_db \<Rightarrow> StorageError + sled_db" where
  "sled_clear_all db = (if db_io_ok db then Inr (db\<lparr>db_tree := []\<rparr>) else Inl Database)"

definition SledUtxoStorage :: "utxo_codec \<Rightarrow> sled_db UtxoStorage" where
  "SledUtxoStorage C =
     \<lparr>st_get = sled_get_utxo C, st_add = sled_add_utxo C, st_remove = sled_remove_utxo C,
      st_list = sled_list_utxos C, st_batch = sled_batch_update C, st_clear = sled_clear_all\<rparr>"

lemmas sled_defs = SledUtxoStorage_def sled_get_utxo_def sled_add_utxo_def sled_remove_utxo_def
  sled_list_utxos_def sled_batch_update_def sled_clear_all_def

text \<open>
  What the backend relies on of \<open>bincode\<close>: every outpoint has an encoding of its own, and a
  storable output is decoded from its encoding.
\<close>

definition codec_ok :: "utxo_codec \<Rightarrow> (UTXO \<Rightarrow> bool) \<Rightarrow> bool" where
  "codec_ok C storable \<longleftrightarrow>
     (\<forall>out. ser_outpoint C out \<noteq> None) \<and>
     (\<forall>o1 o2. ser_outpoint C o1 = ser_outpoint C o2 \<longrightarrow> o1 = o2) \<and>
     (\<forall>u. storable u \<longrightarrow> (\<exists>v. ser_utxo C u = Some v \<and> de_utxo C v = Some u))"

definition sled_ok :: "utxo_codec \<Rightarrow> sled_db \<Rightarrow> bool" where
  "sled_ok C db \<longleftrightarrow> db_io_ok db \<and> dinv (db_tree db) \<and>
     (\<forall>k v. dget (db_tree db) k = Some v \<longrightarrow>
        (\<exists>u. de_utxo C v = Some u \<and> ser_outpoint C (u_outpoint u) = Some k))"

text \<open>The bytes of an outpoint's key, and the database as a map from outpoints.\<close>

definition sled_key :: "utxo_codec \<Rightarrow> OutPoint \<Rightarrow> u8 list" where
  "sled_key C out = the (ser_outpoint C out)"

lemma codec_key: "codec_ok C storable \<Longrightarrow> ser_outpoint C out = Some (sled_key C out)"
  by (auto simp: codec_ok_def sled_key_def)

lemma codec_key_inject: "codec_ok C storable \<Longrightarrow> sled_key C o1 = sled_key C o2 \<longleftrightarrow> o1 = o2"
  by (metis codec_key codec_ok_def)

lemma codec_utxo:
  assumes "codec_ok C storable" and "storable u"
  obtains v where "ser_utxo C u = Some v" and "de_utxo C v = Some u"
  using assms by (auto simp: codec_ok_def)

lemma sled_get_eq:
  "codec_ok C storable \<Longrightarrow> db_io_ok db \<Longrightarrow>
     sled_get_utxo C db = (\<lambda>out. Option.bind (dget (db_tree db) (sled_key C out)) (de_utxo C))"
  by (rule ext) (simp add: sled_get_utxo_def codec_key)

lemma apply_write_simps [simp]:
  "apply_write (k, None) t = dremove k t" "apply_write (k, Some v) t = dput k v t"
  by (simp_all add: apply_write_def)

lemma dget_apply_writes:
  "dinv b \<Longrightarrow> dget (fold apply_write b t) k = (case dget b k of None \<Rightarrow> dget t k | Some w \<Rightarrow> w)"
proof (induction b arbitrary: t)
  case (Cons x b)
  obtain k' w where x: "x = (k', w)" by (cases x)
  from Cons.prems x have b: "dinv b" and k': "dget b k' = None"
    by (auto simp: dinv_def map_of_eq_None_iff)
  show ?case
    by (cases w) (auto simp: x Cons.IH [OF b] k' split: option.splits)
qed simp

lemma dinv_apply_writes: "dinv t \<Longrightarrow> dinv (fold apply_write b t)"
proof (induction b arbitrary: t)
  case (Cons x b)
  obtain k w where "x = (k, w)" by (cases x)
  with Cons show ?case by (cases w) auto
qed simp

lemma fold_drop_utxo: "fold drop_utxo outs m out = (if out \<in> set outs then None else m out)"
  by (induction outs arbitrary: m) (auto simp: drop_utxo_def)

lemma drop_put_commute:
  assumes "u_outpoint ` set us \<inter> set outs = {}"
  shows "fold drop_utxo outs (fold put_utxo us m) = fold put_utxo us (fold drop_utxo outs m)"
  using assms
proof (induction us arbitrary: m)
  case (Cons u us)
  have "fold drop_utxo outs (put_utxo u m) = put_utxo u (fold drop_utxo outs m)"
    using Cons.prems by (intro ext) (auto simp: fold_drop_utxo put_utxo_def)
  with Cons show ?case by simp
qed simp

lemma batch_removes_ok:
  "codec_ok C storable \<Longrightarrow> dinv b \<Longrightarrow>
     \<exists>b'. batch_removes C outs b = Inr b' \<and> dinv b' \<and>
       dget b' = fold (\<lambda>out m. m(sled_key C out \<mapsto> None)) outs (dget b)"
proof (induction outs arbitrary: b)
  case (Cons out outs)
  from Cons.IH [of "dput (sled_key C out) None b"] Cons.prems show ?case
    by (simp add: codec_key)
qed simp

lemma batch_adds_ok:
  assumes C: "codec_ok C storable"
  shows "list_all storable us \<Longrightarrow> dinv b \<Longrightarrow>
     \<exists>b'. batch_adds C us b = Inr b' \<and> dinv b' \<and>
       dget b' = fold (\<lambda>u m. m(sled_key C (u_outpoint u) \<mapsto> ser_utxo C u)) us (dget b)"
proof (induction us arbitrary: b)
  case (Cons u us)
  obtain v where v: "ser_utxo C u = Some v" using codec_utxo [OF C] Cons.prems by auto
  then have "batch_adds C (u # us) b
      = batch_adds C us (dput (sled_key C (u_outpoint u)) (ser_utxo C u) b)"
    by (simp add: codec_key [OF C])
  with Cons.IH [of "dput (sled_key C (u_outpoint u)) (ser_utxo C u) b"] Cons.prems
  show ?case by simp
qed simp

text \<open>A write map read back through the codec, over a database.\<close>

definition read_over ::
    "utxo_codec \<Rightarrow> (u8 list \<rightharpoonup> u8 list option) \<Rightarrow> (OutPoint \<rightharpoonup> UTXO) \<Rightarrow> (OutPoint \<rightharpoonup> UTXO)" where
  "read_over C w m = (\<lambda>out. case w (sled_key C out) of
     None \<Rightarrow> m out | Some None \<Rightarrow> None | Some (Some v) \<Rightarrow> de_utxo C v)"

lemma read_over_remove:
  "codec_ok C storable \<Longrightarrow>
     read_over C (w(sled_key C out \<mapsto> None)) m = drop_utxo out (read_over C w m)"
  by (rule ext) (auto simp: read_over_def drop_utxo_def codec_key_inject)

lemma read_over_add:
  assumes C: "codec_ok C storable" and u: "storable u"
  shows "read_over C (w(sled_key C (u_outpoint u) \<mapsto> ser_utxo C u)) m
    = put_utxo u (read_over C w m)"
proof -
  obtain v where "ser_utxo C u = Some v" "de_utxo C v = Some u" using C u by (rule codec_utxo)
  then show ?thesis
    by (intro ext) (auto simp: read_over_def put_utxo_def codec_key_inject [OF C])
qed

lemma read_over_removes:
  "codec_ok C storable \<Longrightarrow>
     read_over C (fold (\<lambda>out m. m(sled_key C out \<mapsto> None)) outs w) m =
       fold drop_utxo outs (read_over C w m)"
  by (induction outs arbitrary: w) (simp_all add: read_over_remove)

lemma read_over_adds:
  "codec_ok C storable \<Longrightarrow> list_all storable us \<Longrightarrow>
     read_over C (fold (\<lambda>u m. m(sled_key C (u_outpoint u) \<mapsto> ser_utxo C u)) us w) m =
       fold put_utxo us (read_over C w m)"
  by (induction us arbitrary: w) (simp_all add: read_over_add)

lemma sled_batch_get:
  assumes C: "codec_ok C storable" and db: "db_io_ok db" and us: "list_all storable us"
    and disj: "u_outpoint ` set us \<inter> set outs = {}"
  shows "\<exists>t. sled_batch_update C db us outs = Inr (db\<lparr>db_tree := t\<rparr>)
    \<and> (dinv (db_tree db) \<longrightarrow> dinv t)
    \<and> sled_get_utxo C (db\<lparr>db_tree := t\<rparr>) =
        fold drop_utxo outs (fold put_utxo us (sled_get_utxo C db))"
proof -
  obtain b1 where b1: "batch_removes C outs [] = Inr b1" "dinv b1"
    "dget b1 = fold (\<lambda>out m. m(sled_key C out \<mapsto> None)) outs (dget [])"
    using batch_removes_ok [OF C, of "[]" outs] by auto
  obtain b2 where b2: "batch_adds C us b1 = Inr b2" "dinv b2"
    "dget b2 = fold (\<lambda>u m. m(sled_key C (u_outpoint u) \<mapsto> ser_utxo C u)) us (dget b1)"
    using batch_adds_ok [OF C us b1(2)] by auto
  let ?t = "fold apply_write b2 (db_tree db)"
  have "sled_get_utxo C (db\<lparr>db_tree := ?t\<rparr>) = read_over C (dget b2) (sled_get_utxo C db)"
    by (rule ext) (auto simp: sled_get_eq [OF C] db read_over_def dget_apply_writes [OF b2(2)]
        split: option.splits)
  also have "\<dots> = fold put_utxo us (fold drop_utxo outs (sled_get_utxo C db))"
    unfolding b2(3) b1(3) read_over_adds [OF C us] read_over_removes [OF C]
    by (simp add: read_over_def)
  also have "\<dots> = fold drop_utxo outs (fold put_utxo us (sled_get_utxo C db))"
    by (rule drop_put_commute [OF disj, symmetric])
  finally show ?thesis
    using b1(1) b2(1) db by (auto simp: sled_batch_update_def dinv_apply_writes)
qed

text \<open>
  Which databases a run of the node can reach: every entry is the encoding of an output under
  the key of its outpoint.
\<close>

lemma sled_okI:
  assumes "codec_ok C storable" and "db_io_ok db" and "dinv (db_tree db)"
    and "\<And>k v. dget (db_tree db) k = Some v \<Longrightarrow>
      \<exists>u. de_utxo C v = Some u \<and> sled_key C (u_outpoint u) = k"
  shows "sled_ok C db"
  using assms unfolding sled_ok_def by (metis codec_key)

lemma sled_okD:
  assumes "codec_ok C storable" and "sled_ok C db" and "dget (db_tree db) k = Some v"
  obtains u where "de_utxo C v = Some u" and "sled_key C (u_outpoint u) = k"
  using assms unfolding sled_ok_def sled_key_def by (metis option.sel)

lemma sled_ok_add:
  assumes C: "codec_ok C storable" and db: "sled_ok C db" and u: "storable u"
  shows "\<exists>db'. sled_add_utxo C db u = Inr db' \<and> sled_ok C db' \<and>
    sled_get_utxo C db' = put_utxo u (sled_get_utxo C db)"
proof -
  obtain v where v: "ser_utxo C u = Some v" "de_utxo C v = Some u" using C u by (rule codec_utxo)
  let ?k = "sled_key C (u_outpoint u)"
  let ?db = "db\<lparr>db_tree := dput ?k v (db_tree db)\<rparr>"
  have io: "db_io_ok db" and t: "dinv (db_tree db)" using db by (simp_all add: sled_ok_def)
  have "sled_ok C ?db"
    by (rule sled_okI [OF C]) (auto simp: io t v elim: sled_okD [OF C db] split: if_splits)
  moreover have "sled_get_utxo C ?db = put_utxo u (sled_get_utxo C db)"
    by (rule ext) (auto simp: sled_get_eq [OF C] io put_utxo_def v codec_key_inject [OF C])
  moreover have "sled_add_utxo C db u = Inr ?db"
    by (simp add: sled_add_utxo_def codec_key [OF C] v io)
  ultimately show ?thesis by blast
qed

lemma sled_ok_remove:
  assumes C: "codec_ok C storable" and db: "sled_ok C db"
  shows "\<exists>db'. sled_remove_utxo C db out = Inr db' \<and> sled_ok C db' \<and>
    sled_get_utxo C db' = drop_utxo out (sled_get_utxo C db)"
proof -
  let ?db = "db\<lparr>db_tree := dremove (sled_key C out) (db_tree db)\<rparr>"
  have io: "db_io_ok db" and t: "dinv (db_tree db)" using db by (simp_all add: sled_ok_def)
  have "sled_ok C ?db"
    by (rule sled_okI [OF C]) (auto simp: io t elim: sled_okD [OF C db] split: if_splits)
  moreover have "sled_get_utxo C ?db = drop_utxo out (sled_get_utxo C db)"
    by (rule ext) (auto simp: sled_get_eq [OF C] io drop_utxo_def codec_key_inject [OF C])
  moreover have "sled_remove_utxo C db out = Inr ?db"
    by (simp add: sled_remove_utxo_def codec_key [OF C] io)
  ultimately show ?thesis by blast
qed

lemma sled_list_keys:
  assumes C: "codec_ok C storable" and db: "sled_ok C db"
  shows "map (sled_key C \<circ> u_outpoint) (sled_list_utxos C db) = map fst (db_tree db)"
proof -
  have io: "db_io_ok db" and t: "dinv (db_tree db)" using db by (simp_all add: sled_ok_def)
  have "\<exists>u. de_utxo C v = Some u \<and> sled_key C (u_outpoint u) = k"
    if "(k, v) \<in> set (db_tree db)" for k v
    using that in_set_dget [OF t] sled_okD [OF C db] by metis
  then have "map (sled_key C \<circ> u_outpoint) (List.map_filter (de_utxo C \<circ> snd) xs) = map fst xs"
    if "set xs \<subseteq> set (db_tree db)" for xs
    using that by (induction xs) (force simp: map_filter_simps)+
  then show ?thesis by (simp add: sled_list_utxos_def io)
qed

lemma sled_list_set:
  assumes C: "codec_ok C storable" and db: "sled_ok C db"
  shows "set (sled_list_utxos C db) = ran (sled_get_utxo C db)"
proof -
  have io: "db_io_ok db" and t: "dinv (db_tree db)" using db by (simp_all add: sled_ok_def)
  have "u \<in> set (sled_list_utxos C db) \<longleftrightarrow>
      (\<exists>k v. dget (db_tree db) k = Some v \<and> de_utxo C v = Some u)" for u
    using in_set_dget [OF t] by (force simp: sled_list_utxos_def io map_filter_def)
  moreover have "u \<in> ran (sled_get_utxo C db) \<longleftrightarrow>
      (\<exists>k v. dget (db_tree db) k = Some v \<and> de_utxo C v = Some u)" for u
  proof
    assume "u \<in> ran (sled_get_utxo C db)"
    then show "\<exists>k v. dget (db_tree db) k = Some v \<and> de_utxo C v = Some u"
      by (auto simp: ran_def sled_get_eq [OF C] io bind_eq_Some_conv)
  next
    assume "\<exists>k v. dget (db_tree db) k = Some v \<and> de_utxo C v = Some u"
    then obtain k v where kv: "dget (db_tree db) k = Some v" "de_utxo C v = Some u" by blast
    with sled_okD [OF C db kv(1)] have "sled_key C (u_outpoint u) = k" by auto
    with kv have "sled_get_utxo C db (u_outpoint u) = Some u"
      by (simp add: sled_get_eq [OF C] io)
    then show "u \<in> ran (sled_get_utxo C db)" by (auto simp: ran_def)
  qed
  ultimately show ?thesis by blast
qed

lemma batch_writes_decode:
  assumes C: "codec_ok C storable" and us: "list_all storable us"
    and w: "\<forall>k v. w k = Some (Some v) \<longrightarrow> (\<exists>u. de_utxo C v = Some u \<and> sled_key C (u_outpoint u) = k)"
  shows "fold (\<lambda>u m. m(sled_key C (u_outpoint u) \<mapsto> ser_utxo C u)) us w k = Some (Some v) \<Longrightarrow>
    \<exists>u. de_utxo C v = Some u \<and> sled_key C (u_outpoint u) = k"
  using us w
proof (induction us arbitrary: w)
  case (Cons u us)
  obtain v' where v': "ser_utxo C u = Some v'" "de_utxo C v' = Some u"
    using codec_utxo [OF C] Cons.prems(2) by auto
  let ?w = "w(sled_key C (u_outpoint u) \<mapsto> ser_utxo C u)"
  have w': "\<forall>k v. ?w k = Some (Some v) \<longrightarrow>
      (\<exists>u. de_utxo C v = Some u \<and> sled_key C (u_outpoint u) = k)"
    using Cons.prems(3) v' by auto
  show ?case by (rule Cons.IH [OF _ _ w']) (use Cons.prems in auto)
qed simp

lemma fold_remove_writes:
  "fold (\<lambda>out m. m(sled_key C out \<mapsto> None)) outs w k = Some (Some v) \<Longrightarrow> w k = Some (Some v)"
proof (induction outs arbitrary: w)
  case (Cons out outs)
  from Cons.IH [of "w(sled_key C out \<mapsto> None)"] Cons.prems show ?case
    by (simp split: if_splits)
qed simp

lemma sled_ok_batch:
  assumes C: "codec_ok C storable" and db: "sled_ok C db" and us: "list_all storable us"
    and upd: "sled_batch_update C db us outs = Inr db'"
  shows "sled_ok C db'"
proof -
  have io: "db_io_ok db" and t: "dinv (db_tree db)" using db by (simp_all add: sled_ok_def)
  obtain b1 where b1: "batch_removes C outs [] = Inr b1" "dinv b1"
    "dget b1 = fold (\<lambda>out m. m(sled_key C out \<mapsto> None)) outs (dget [])"
    using batch_removes_ok [OF C, of "[]" outs] by auto
  obtain b2 where b2: "batch_adds C us b1 = Inr b2" "dinv b2"
    "dget b2 = fold (\<lambda>u m. m(sled_key C (u_outpoint u) \<mapsto> ser_utxo C u)) us (dget b1)"
    using batch_adds_ok [OF C us b1(2)] by auto
  have db': "db' = db\<lparr>db_tree := fold apply_write b2 (db_tree db)\<rparr>"
    using upd b1(1) b2(1) io by (simp add: sled_batch_update_def)
  have w1: "dget b1 k \<noteq> Some (Some v)" for k v
    using fold_remove_writes [of C outs "dget []" k v] by (auto simp: b1(3))
  have w2: "\<exists>u. de_utxo C v = Some u \<and> sled_key C (u_outpoint u) = k"
    if "dget b2 k = Some (Some v)" for k v
    using batch_writes_decode [OF C us, of "dget b1" k v] w1 that by (auto simp: b2(3))
  show ?thesis
    unfolding db'
    by (rule sled_okI [OF C])
      (auto simp: io t dinv_apply_writes dget_apply_writes [OF b2(2)]
        intro: w2 elim: sled_okD [OF C db] split: option.splits)
qed

lemma sled_storage:
  assumes C: "codec_ok C storable"
  shows "utxo_storage (SledUtxoStorage C) (sled_ok C) storable"
proof
  fix db out u us outs
  assume db: "sled_ok C db"
  then have io: "db_io_ok db" by (simp add: sled_ok_def)
  let ?S = "SledUtxoStorage C"
  have sel: "st_get ?S = sled_get_utxo C" "st_add ?S = sled_add_utxo C"
    "st_remove ?S = sled_remove_utxo C" "st_list ?S = sled_list_utxos C"
    "st_batch ?S = sled_batch_update C" by (simp_all add: SledUtxoStorage_def)
  show "u_outpoint u = out" if get: "st_get ?S db out = Some u"
  proof -
    from get obtain v where v: "dget (db_tree db) (sled_key C out) = Some v" "de_utxo C v = Some u"
      unfolding sel by (auto simp: sled_get_eq [OF C] io bind_eq_Some_conv)
    obtain u' where "de_utxo C v = Some u'" "sled_key C (u_outpoint u') = sled_key C out"
      using C db v(1) by (rule sled_okD)
    with v(2) show ?thesis by (simp add: codec_key_inject [OF C])
  qed
  show "storable u \<Longrightarrow> \<exists>s'. st_add ?S db u = Inr s' \<and> sled_ok C s' \<and>
      st_get ?S s' = put_utxo u (st_get ?S db)"
    unfolding sel by (rule sled_ok_add [OF C db])
  show "\<exists>s'. st_remove ?S db out = Inr s' \<and> sled_ok C s' \<and>
      st_get ?S s' = drop_utxo out (st_get ?S db)"
    unfolding sel by (rule sled_ok_remove [OF C db])
  show "set (st_list ?S db) = ran (st_get ?S db)"
    unfolding sel by (rule sled_list_set [OF C db])
  have "distinct (map (sled_key C) (map u_outpoint (sled_list_utxos C db)))"
    using sled_list_keys [OF C db] db by (simp add: sled_ok_def dinv_def)
  then show "distinct (map u_outpoint (st_list ?S db))"
    unfolding sel by (simp only: distinct_map)
  show "list_all storable us \<Longrightarrow> u_outpoint ` set us \<inter> set outs = {} \<Longrightarrow>
      \<exists>s'. st_batch ?S db us outs = Inr s' \<and> sled_ok C s' \<and>
        st_get ?S s' = fold drop_utxo outs (fold put_utxo us (st_get ?S db))"
    unfolding sel using sled_batch_get [OF C io, of us outs] sled_ok_batch [OF C db, of us outs]
    by blast
next
  fix db
  show "\<exists>s'. sled_ok C db \<longrightarrow> st_clear (SledUtxoStorage C) db = Inr s' \<and> sled_ok C s' \<and>
      st_get (SledUtxoStorage C) s' = Map.empty"
    by (rule exI [of _ "db\<lparr>db_tree := []\<rparr>"])
      (auto simp: SledUtxoStorage_def sled_clear_all_def sled_ok_def sled_get_eq [OF C])
qed

section \<open>Both backends implement one store\<close>

text \<open>
  Calls of the trait as a sequence of commands, what each command does to the abstract store (a
  map from outpoints to outputs), and that every backend with the contract runs a sequence of
  calls exactly as the abstract store does.
\<close>

datatype storage_cmd =
  AddUtxo UTXO | RemoveUtxo OutPoint | BatchUpdate "UTXO list" "OutPoint list" | ClearAll

fun exec_cmd :: "'s UtxoStorage \<Rightarrow> storage_cmd \<Rightarrow> 's \<Rightarrow> StorageError + 's" where
  "exec_cmd ops (AddUtxo u) s = st_add ops s u"
| "exec_cmd ops (RemoveUtxo out) s = st_remove ops s out"
| "exec_cmd ops (BatchUpdate us outs) s = st_batch ops s us outs"
| "exec_cmd ops ClearAll s = st_clear ops s"

fun run_cmds :: "'s UtxoStorage \<Rightarrow> storage_cmd list \<Rightarrow> 's \<Rightarrow> StorageError + 's" where
  "run_cmds ops [] s = Inr s"
| "run_cmds ops (c # cs) s = (case exec_cmd ops c s of Inl e \<Rightarrow> Inl e | Inr s' \<Rightarrow> run_cmds ops cs s')"

fun spec_cmd :: "storage_cmd \<Rightarrow> (OutPoint \<rightharpoonup> UTXO) \<Rightarrow> (OutPoint \<rightharpoonup> UTXO)" where
  "spec_cmd (AddUtxo u) m = put_utxo u m"
| "spec_cmd (RemoveUtxo out) m = drop_utxo out m"
| "spec_cmd (BatchUpdate us outs) m = fold drop_utxo outs (fold put_utxo us m)"
| "spec_cmd ClearAll m = Map.empty"

fun cmd_ok :: "(UTXO \<Rightarrow> bool) \<Rightarrow> storage_cmd \<Rightarrow> bool" where
  "cmd_ok storable (AddUtxo u) = storable u"
| "cmd_ok storable (BatchUpdate us outs) =
     (list_all storable us \<and> list_all (\<lambda>u. u_outpoint u \<notin> set outs) us)"
| "cmd_ok storable _ = True"

context utxo_storage
begin

lemma exec_cmd_spec:
  assumes s: "ok s" and c: "cmd_ok storable c"
  shows "\<exists>s'. exec_cmd ops c s = Inr s' \<and> ok s' \<and> st_get ops s' = spec_cmd c (st_get ops s)"
proof (cases c)
  case (AddUtxo u)
  with add [OF s] c show ?thesis by simp
next
  case (RemoveUtxo out)
  with remove [OF s] show ?thesis by simp
next
  case (BatchUpdate us outs)
  with c have "list_all storable us" "u_outpoint ` set us \<inter> set outs = {}"
    by (auto simp: list_all_iff)
  from batch [OF s this] BatchUpdate show ?thesis by simp
next
  case ClearAll
  with clear [of s] s show ?thesis by auto
qed

lemma run_cmds_spec:
  "ok s \<Longrightarrow> list_all (cmd_ok storable) cs \<Longrightarrow>
     \<exists>s'. run_cmds ops cs s = Inr s' \<and> ok s' \<and> st_get ops s' = fold spec_cmd cs (st_get ops s)"
proof (induction cs arbitrary: s)
  case (Cons c cs)
  obtain s1 where s1: "exec_cmd ops c s = Inr s1" "ok s1"
    "st_get ops s1 = spec_cmd c (st_get ops s)"
    using exec_cmd_spec [of s c] Cons.prems by auto
  with Cons.IH [of s1] Cons.prems show ?case by simp
qed simp

end

definition sled_open :: sled_db where
  "sled_open = \<lparr>db_tree = [], db_io_ok = True\<rparr>"

text \<open>
  C33. The two storage backends are interchangeable: from a fresh store, any sequence of trait
  calls whose batches do not both add and remove one outpoint succeeds on the in-memory and on
  the sled backend, and both then answer every lookup as the abstract store does.
\<close>

theorem storage_backends_agree:
  assumes C: "codec_ok C storable" and cs: "list_all (cmd_ok storable) cs"
  shows "\<exists>m db. run_cmds InMemoryUtxoStorage cs [] = Inr m
    \<and> run_cmds (SledUtxoStorage C) cs sled_open = Inr db
    \<and> mem_get_utxo m = fold spec_cmd cs Map.empty
    \<and> sled_get_utxo C db = fold spec_cmd cs Map.empty"
proof -
  have cs': "list_all (cmd_ok (\<lambda>_. True)) cs"
    using cs by (auto simp: list_all_iff elim!: cmd_ok.elims)
  have 0: "mem_ok []" "sled_ok C sled_open" "sled_get_utxo C sled_open = Map.empty"
    by (auto simp: mem_ok_def sled_ok_def sled_open_def sled_get_eq [OF C])
  obtain m where "run_cmds InMemoryUtxoStorage cs [] = Inr m"
    "mem_get_utxo m = fold spec_cmd cs Map.empty"
    using mem.run_cmds_spec [OF 0(1) cs'] by (auto simp: InMemoryUtxoStorage_def mem_get_eq)
  moreover obtain db where "run_cmds (SledUtxoStorage C) cs sled_open = Inr db"
    "sled_get_utxo C db = fold spec_cmd cs Map.empty"
    using utxo_storage.run_cmds_spec [OF sled_storage [OF C] 0(2) cs] 0(3)
    by (auto simp: SledUtxoStorage_def)
  ultimately show ?thesis by blast
qed

section \<open>A codec with the layout bincode documents\<close>

text \<open>
  Fixed-width little-endian integers, fixed arrays as they are, a 64-bit length before the bytes
  of a vector or string, a tag byte before an optional value. The codec shows that the hypotheses
  on \<open>bincode\<close> can hold.
\<close>

definition split_at :: "nat \<Rightarrow> u8 list \<Rightarrow> (u8 list \<times> u8 list) option" where
  "split_at n bs = (if n \<le> length bs then Some (take n bs, drop n bs) else None)"

definition enc_vec :: "u8 list \<Rightarrow> u8 list" where
  "enc_vec v = le_bytes 8 (of_nat (length v) :: u64) @ v"

definition dec_vec :: "u8 list \<Rightarrow> (u8 list \<times> u8 list) option" where
  "dec_vec bs = Option.bind (split_at 8 bs) (\<lambda>(n, r). split_at (unat (of_le n :: u64)) r)"

definition of_bytes :: "u8 list \<Rightarrow> string" where
  "of_bytes bs = map (\<lambda>b. char_of (unat b)) bs"

definition enc_outpoint :: "OutPoint \<Rightarrow> u8 list" where
  "enc_outpoint out = op_txid out @ le_bytes 4 (op_vout out)"

definition enc_utxo :: "UTXO \<Rightarrow> u8 list" where
  "enc_utxo u = enc_outpoint (u_outpoint u) @ le_bytes 8 (u_value u) @ enc_vec (u_script_pubkey u)
     @ enc_vec (as_bytes (u_address u))
     @ (case u_masternode_key u of None \<Rightarrow> [0] | Some k \<Rightarrow> 1 # enc_vec (as_bytes k))"

definition dec_utxo :: "u8 list \<Rightarrow> UTXO option" where
  "dec_utxo b0 =
     Option.bind (split_at 32 b0) (\<lambda>(t, b1). Option.bind (split_at 4 b1) (\<lambda>(n, b2).
     Option.bind (split_at 8 b2) (\<lambda>(v, b3). Option.bind (dec_vec b3) (\<lambda>(sp, b4).
     Option.bind (dec_vec b4) (\<lambda>(a, b5). Option.bind (split_at 1 b5) (\<lambda>(tag, b6).
     Option.bind (if tag = [0] then Some None else map_option (\<lambda>(k, _). Some k) (dec_vec b6))
       (\<lambda>key. Some \<lparr>u_outpoint = \<lparr>op_txid = t, op_vout = of_le n\<rparr>, u_value = of_le v,
           u_script_pubkey = sp, u_address = of_bytes a,
           u_masternode_key = map_option of_bytes key\<rparr>)))))))"

definition bincode_codec :: utxo_codec where
  "bincode_codec = \<lparr>ser_outpoint = (\<lambda>out. Some (enc_outpoint out)),
     ser_utxo = (\<lambda>u. Some (enc_utxo u)), de_utxo = dec_utxo\<rparr>"

definition utxo_fits :: "UTXO \<Rightarrow> bool" where
  "utxo_fits u = (hash256_ok (op_txid (u_outpoint u)) \<and> length (u_script_pubkey u) < 2 ^ 64
     \<and> length (u_address u) < 2 ^ 64
     \<and> (case u_masternode_key u of None \<Rightarrow> True | Some k \<Rightarrow> length k < 2 ^ 64))"

lemma split_at_append [simp]: "length a = n \<Longrightarrow> split_at n (a @ b) = Some (a, b)"
  by (simp add: split_at_def)

lemma split_at_tag [simp]: "split_at (Suc 0) (b # bs) = Some ([b], bs)"
  by (simp add: split_at_def)

lemma dec_enc_vec [simp]: "length v < 2 ^ 64 \<Longrightarrow> dec_vec (enc_vec v @ r) = Some (v, r)"
  by (simp add: dec_vec_def enc_vec_def of_le_bytes unat_of_nat)

lemma of_as_bytes [simp]: "of_bytes (as_bytes s) = s"
proof -
  have "char_of (unat (of_nat (of_char c) :: u8)) = c" for c :: char
    by (simp add: unat_of_nat)
  then show ?thesis by (simp add: of_bytes_def as_bytes_def comp_def)
qed

lemma dec_enc_utxo: "utxo_fits u \<Longrightarrow> dec_utxo (enc_utxo u) = Some u"
  by (cases u; cases "u_outpoint u"; cases "u_masternode_key u")
    (auto simp: dec_utxo_def enc_utxo_def enc_outpoint_def utxo_fits_def hash256_ok_def
      of_le_bytes dec_enc_vec [where r = "[]", simplified])

lemma bincode_codec_ok: "codec_ok bincode_codec utxo_fits"
proof -
  have "enc_outpoint o1 = enc_outpoint o2 \<Longrightarrow> o1 = o2" for o1 o2
    by (auto simp: enc_outpoint_def dest: le_bytes_inject intro: OutPoint.equality)
  then show ?thesis by (auto simp: codec_ok_def bincode_codec_def dec_enc_utxo)
qed

theorem storage_backends_agree_witness:
  "let u = \<lparr>u_outpoint = \<lparr>op_txid = zero_hash, op_vout = 1\<rparr>, u_value = 7, u_script_pubkey = [1],
       u_address = ''TIME1'', u_masternode_key = None\<rparr>;
     cs = [AddUtxo u, RemoveUtxo (u_outpoint u), BatchUpdate [u] [], ClearAll, AddUtxo u]
   in \<exists>m db. run_cmds InMemoryUtxoStorage cs [] = Inr m
    \<and> run_cmds (SledUtxoStorage bincode_codec) cs sled_open = Inr db
    \<and> mem_get_utxo m = fold spec_cmd cs Map.empty
    \<and> sled_get_utxo bincode_codec db = fold spec_cmd cs Map.empty"
  unfolding Let_def
  by (rule storage_backends_agree [OF bincode_codec_ok])
    (simp add: utxo_fits_def hash256_ok_def zero_hash_def)

text \<open>
  On a batch that adds and removes one outpoint the backends differ: the in-memory one adds first and
  removes last, the sled one removes first and adds last.
\<close>

lemma overlapping_batch_differs:
  "let u = \<lparr>u_outpoint = \<lparr>op_txid = zero_hash, op_vout = 1\<rparr>, u_value = 7, u_script_pubkey = [1],
       u_address = ''TIME1'', u_masternode_key = None\<rparr>
   in (\<exists>m. mem_batch_update [] [u] [u_outpoint u] = Inr m \<and> mem_get_utxo m (u_outpoint u) = None)
    \<and> (\<exists>db. sled_batch_update bincode_codec sled_open [u] [u_outpoint u] = Inr db
         \<and> sled_get_utxo bincode_codec db (u_outpoint u) = Some u)"
  by (simp add: mem_defs sled_defs bincode_codec_def sled_open_def dec_enc_utxo utxo_fits_def hash256_ok_def
      zero_hash_def Let_def)

end
