(* ===== verification/Utxo_Manager.thy ===== *)
theory Utxo_Manager
  imports Storage
begin

text \<open>
  The UTXO state manager of \<open>src/utxo_manager.rs\<close>: which outputs exist, in which state each is
  (unspent, locked by a transaction, spent), which are locked as masternode collateral, and the
  tombstones that keep a spent output from being added again. The state is a record with the
  fields of \<open>UTXOStateManager\<close>; an operation returns its result and the state it leaves,
  also on its error paths. The storage backend is the record of trait methods \<open>ops\<close>, the
  clock is the argument \<open>now\<close>. Log messages and counters that only feed them are left out.
\<close>

section \<open>State\<close>

definition LOCK_TIMEOUT_SECS :: int where
  "LOCK_TIMEOUT_SECS = 600"

text \<open>\<open>AlreadyLocked\<close> carries the txid whose hexadecimal form the source puts in the message.\<close>

datatype UtxoError =
    NotFound
  | AlreadyLocked hash256
  | AlreadySpent
  | LockExpired
  | LockMismatch
  | StorageFailed StorageError
  | LockedAsCollateral

text \<open>
  The sled tree \<open>collateral_locks\<close>: one entry per persisted lock under the key of its outpoint,
  and one entry for the node's own configured outpoint.
\<close>

datatype collateral_key = LocalCollateralKey | LockKey OutPoint
datatype collateral_value = LocalOutpoint OutPoint | LockEntry LockedCollateral

type_synonym collateral_tree = "(collateral_key, collateral_value) dmap"

record 's UTXOStateManager =
  storage :: 's
  utxo_states :: "(OutPoint, UTXOState) dmap"
  locked_collaterals :: "(OutPoint, LockedCollateral) dmap"
  collateral_db :: "collateral_tree option"
  address_index :: "(string, OutPoint list) dmap"
  pubkey_cache :: "(string, pubkey) dmap"
  spent_tombstones :: "OutPoint set"
  spent_db :: "OutPoint set option"
  creation_heights :: "(OutPoint, u64) dmap"

type_synonym 's mgr = "'s UTXOStateManager"
type_synonym 's mgr_result = "(UtxoError + unit) \<times> 's mgr"

definition new_with_storage :: "'s \<Rightarrow> 's mgr" where
  "new_with_storage s =
     \<lparr>storage = s, utxo_states = [], locked_collaterals = [], collateral_db = None,
      address_index = [], pubkey_cache = [], spent_tombstones = {}, spent_db = None,
      creation_heights = []\<rparr>"

definition utxo_manager_new :: "mem_store mgr" where
  "utxo_manager_new = new_with_storage []"

definition enable_collateral_persistence ::
    "StorageError + collateral_tree \<Rightarrow> 's mgr \<Rightarrow> 's mgr_result" where
  "enable_collateral_persistence opened m =
     (case opened of
        Inl e \<Rightarrow> (Inl (StorageFailed e), m)
      | Inr tree \<Rightarrow> (Inr (), m\<lparr>collateral_db := Some tree\<rparr>))"

definition enable_spent_persistence ::
    "StorageError + OutPoint set \<Rightarrow> 's mgr \<Rightarrow> 's mgr_result" where
  "enable_spent_persistence opened m =
     (case opened of
        Inl e \<Rightarrow> (Inl (StorageFailed e), m)
      | Inr tree \<Rightarrow> (Inr (), m\<lparr>spent_tombstones := spent_tombstones m \<union> tree,
                              spent_db := Some tree\<rparr>))"

definition is_tombstoned :: "'s mgr \<Rightarrow> OutPoint \<Rightarrow> bool" where
  "is_tombstoned m out = (out \<in> spent_tombstones m)"

definition record_spent :: "OutPoint \<Rightarrow> 's mgr \<Rightarrow> 's mgr" where
  "record_spent out m = m\<lparr>spent_tombstones := insert out (spent_tombstones m),
     spent_db := map_option (insert out) (spent_db m)\<rparr>"

definition register_pubkey :: "string \<Rightarrow> pubkey \<Rightarrow> 's mgr \<Rightarrow> 's mgr" where
  "register_pubkey addr pk m = m\<lparr>pubkey_cache := dput addr pk (pubkey_cache m)\<rparr>"

definition find_pubkey_for_address :: "'s mgr \<Rightarrow> string \<Rightarrow> pubkey option" where
  "find_pubkey_for_address m addr = dget (pubkey_cache m) addr"

definition get_pubkey_by_address_hash :: "extern \<Rightarrow> 's mgr \<Rightarrow> hash256 \<Rightarrow> pubkey option" where
  "get_pubkey_by_address_hash X m h =
     map_option snd (List.find (\<lambda>(addr, _). sha256 X (as_bytes addr) = h) (pubkey_cache m))"

section \<open>Collateral locks\<close>

definition is_collateral_locked :: "'s mgr \<Rightarrow> OutPoint \<Rightarrow> bool" where
  "is_collateral_locked m out = dhas (locked_collaterals m) out"

definition get_locked_collateral :: "'s mgr \<Rightarrow> OutPoint \<Rightarrow> LockedCollateral option" where
  "get_locked_collateral m out = dget (locked_collaterals m) out"

definition persist_remove :: "OutPoint \<Rightarrow> collateral_tree option \<Rightarrow> collateral_tree option" where
  "persist_remove out = map_option (dremove (LockKey out))"

definition lock_collateral_inner ::
    "u64 \<Rightarrow> OutPoint \<Rightarrow> string \<Rightarrow> u64 \<Rightarrow> u64 \<Rightarrow> bool \<Rightarrow> 's mgr \<Rightarrow> 's mgr_result" where
  "lock_collateral_inner now out addr height amount persist m =
     (case dget (utxo_states m) out of
        None \<Rightarrow> (Inl NotFound, m)
      | Some Unspent \<Rightarrow>
          if dhas (locked_collaterals m) out then (Inl LockedAsCollateral, m)
          else let lc = locked_collateral_new now out addr height amount
               in (Inr (), m\<lparr>locked_collaterals := dput out lc (locked_collaterals m),
                    collateral_db := (if persist
                      then map_option (dput (LockKey out) (LockEntry lc)) (collateral_db m)
                      else collateral_db m)\<rparr>)
      | Some _ \<Rightarrow> (Inl AlreadySpent, m))"

definition lock_collateral ::
    "u64 \<Rightarrow> OutPoint \<Rightarrow> string \<Rightarrow> u64 \<Rightarrow> u64 \<Rightarrow> 's mgr \<Rightarrow> 's mgr_result" where
  "lock_collateral now out addr height amount m =
     lock_collateral_inner now out addr height amount False m"

definition lock_local_collateral ::
    "u64 \<Rightarrow> OutPoint \<Rightarrow> string \<Rightarrow> u64 \<Rightarrow> u64 \<Rightarrow> 's mgr \<Rightarrow> 's mgr_result" where
  "lock_local_collateral now out addr height amount m =
     lock_collateral_inner now out addr height amount True m"

definition unlock_collateral :: "OutPoint \<Rightarrow> 's mgr \<Rightarrow> 's mgr_result" where
  "unlock_collateral out m =
     (if dhas (locked_collaterals m) out
      then (Inr (), m\<lparr>locked_collaterals := dremove out (locked_collaterals m),
                      collateral_db := persist_remove out (collateral_db m)\<rparr>)
      else (Inl NotFound, m))"

definition unlock_all_collaterals :: "'s mgr \<Rightarrow> nat \<times> 's mgr" where
  "unlock_all_collaterals m =
     (let outs = dkeys (locked_collaterals m)
      in (length outs, fold (\<lambda>out m. snd (unlock_collateral out m)) outs m))"

definition list_locked_collaterals :: "'s mgr \<Rightarrow> LockedCollateral list \<times> 's mgr" where
  "list_locked_collaterals m =
     (let entries = locked_collaterals m;
          stale = filter (\<lambda>out. \<not> dhas (utxo_states m) out) (dkeys entries)
      in (map snd (filter (\<lambda>(out, _). dhas (utxo_states m) out) entries),
          m\<lparr>locked_collaterals := fold dremove stale entries,
            collateral_db := fold persist_remove stale (collateral_db m)\<rparr>))"

definition list_collaterals_for_masternode :: "'s mgr \<Rightarrow> string \<Rightarrow> LockedCollateral list" where
  "list_collaterals_for_masternode m addr =
     filter (\<lambda>lc. lc_masternode_address lc = addr) (map snd (locked_collaterals m))"

text \<open>One stale lock of \<open>purge_stale_collateral_locks\<close>.\<close>

definition purge_one :: "OutPoint \<Rightarrow> 's mgr \<Rightarrow> 's mgr" where
  "purge_one out m =
     (if dhas (locked_collaterals m) out then
        m\<lparr>locked_collaterals := dremove out (locked_collaterals m),
          collateral_db := persist_remove out (collateral_db m),
          utxo_states := (case dget (utxo_states m) out of
              Some (Locked _ _) \<Rightarrow> dput out Unspent (utxo_states m)
            | _ \<Rightarrow> utxo_states m)\<rparr>
      else m)"

definition purge_stale_collateral_locks :: "'s mgr \<Rightarrow> nat \<times> 's mgr" where
  "purge_stale_collateral_locks m =
     (let stale = filter (\<lambda>out. dget (utxo_states m) out \<noteq> Some Unspent)
                    (dkeys (locked_collaterals m))
      in (length stale, fold purge_one stale m))"

text \<open>One registry entry of \<open>rebuild_collateral_locks\<close>, with the count of restored locks.\<close>

fun rebuild_one :: "u64 \<Rightarrow> OutPoint \<times> string \<times> u64 \<times> u64 \<Rightarrow> nat \<times> 's mgr \<Rightarrow> nat \<times> 's mgr" where
  "rebuild_one now (out, addr, height, amount) (restored, m) =
     (if dhas (locked_collaterals m) out then (restored, m)
      else if dget (utxo_states m) out = Some Unspent then
        (Suc restored, m\<lparr>locked_collaterals :=
           dput out (locked_collateral_new now out addr height amount) (locked_collaterals m)\<rparr>)
      else (restored, m))"

definition rebuild_collateral_locks ::
    "u64 \<Rightarrow> (OutPoint \<times> string \<times> u64 \<times> u64) list \<Rightarrow> 's mgr \<Rightarrow> nat \<times> 's mgr" where
  "rebuild_collateral_locks now entries m =
     (let (restored, m') = fold (rebuild_one now) entries (0, m)
      in (restored, snd (purge_stale_collateral_locks m')))"

text \<open>One persisted entry of \<open>load_persisted_collateral_locks\<close>.\<close>

fun load_one :: "collateral_key \<times> collateral_value \<Rightarrow> nat \<times> 's mgr \<Rightarrow> nat \<times> 's mgr" where
  "load_one (key, LocalOutpoint _) (loaded, m) = (loaded, m)"
| "load_one (key, LockEntry lc) (loaded, m) =
     (if dget (utxo_states m) (lc_outpoint lc) = Some Unspent
      then (Suc loaded, m\<lparr>locked_collaterals :=
              dput (lc_outpoint lc) lc (locked_collaterals m)\<rparr>)
      else (loaded, m\<lparr>collateral_db := map_option (dremove key) (collateral_db m)\<rparr>))"

definition load_persisted_collateral_locks :: "'s mgr \<Rightarrow> nat \<times> 's mgr" where
  "load_persisted_collateral_locks m =
     (case collateral_db m of
        None \<Rightarrow> (0, m)
      | Some tree \<Rightarrow> fold load_one tree (0, m))"

definition save_local_collateral_outpoint :: "OutPoint option \<Rightarrow> 's mgr \<Rightarrow> 's mgr" where
  "save_local_collateral_outpoint o_out m =
     m\<lparr>collateral_db := map_option (\<lambda>tree. case o_out of
          Some out \<Rightarrow> dput LocalCollateralKey (LocalOutpoint out) tree
        | None \<Rightarrow> dremove LocalCollateralKey tree) (collateral_db m)\<rparr>"

definition load_local_collateral_outpoint :: "'s mgr \<Rightarrow> OutPoint option" where
  "load_local_collateral_outpoint m =
     (case collateral_db m of
        None \<Rightarrow> None
      | Some tree \<Rightarrow> (case dget tree LocalCollateralKey of
            Some (LocalOutpoint out) \<Rightarrow> Some out
          | _ \<Rightarrow> None))"

definition release_stale_local_collateral :: "OutPoint \<Rightarrow> 's mgr \<Rightarrow> bool \<times> 's mgr" where
  "release_stale_local_collateral old m =
     (if dhas (locked_collaterals m) old
      then (case unlock_collateral old m of (Inr _, m') \<Rightarrow> (True, m') | (Inl _, m') \<Rightarrow> (False, m'))
      else (False, m))"

section \<open>The address index\<close>

definition index_insert ::
    "string \<Rightarrow> OutPoint \<Rightarrow> (string, OutPoint list) dmap \<Rightarrow> (string, OutPoint list) dmap" where
  "index_insert addr out idx =
     dput addr (List.insert out (case dget idx addr of None \<Rightarrow> [] | Some outs \<Rightarrow> outs)) idx"

definition index_remove ::
    "string \<Rightarrow> OutPoint \<Rightarrow> (string, OutPoint list) dmap \<Rightarrow> (string, OutPoint list) dmap" where
  "index_remove addr out idx =
     (case dget idx addr of
        None \<Rightarrow> idx
      | Some outs \<Rightarrow> (let outs' = removeAll out outs
          in if outs' = [] then dremove addr idx else dput addr outs' idx))"

definition remove_from_address_index :: "string \<Rightarrow> OutPoint \<Rightarrow> 's mgr \<Rightarrow> 's mgr" where
  "remove_from_address_index addr out m =
     m\<lparr>address_index := index_remove addr out (address_index m)\<rparr>"

text \<open>The step \<open>if let Some(utxo) = self.storage.get_utxo(..)\<close> of five operations.\<close>

definition unindex_stored :: "'s UtxoStorage \<Rightarrow> OutPoint \<Rightarrow> 's mgr \<Rightarrow> 's mgr" where
  "unindex_stored ops out m =
     (case st_get ops (storage m) out of
        Some u \<Rightarrow> remove_from_address_index (u_address u) out m
      | None \<Rightarrow> m)"

definition list_utxos_by_address :: "'s UtxoStorage \<Rightarrow> 's mgr \<Rightarrow> string \<Rightarrow> UTXO list" where
  "list_utxos_by_address ops m addr =
     (case dget (address_index m) addr of
        None \<Rightarrow> []
      | Some outs \<Rightarrow> List.map_filter (st_get ops (storage m)) outs)"

section \<open>Adding, spending and restoring outputs\<close>

definition is_lock_expired :: "i64 \<Rightarrow> i64 \<Rightarrow> bool" where
  "is_lock_expired now locked_at \<longleftrightarrow> LOCK_TIMEOUT_SECS < sint (now - locked_at)"

text \<open>One stored output of \<open>initialize_states\<close>.\<close>

definition init_one :: "'s UtxoStorage \<Rightarrow> UTXO \<Rightarrow> 's mgr \<Rightarrow> 's mgr" where
  "init_one ops u m =
     (let out = u_outpoint u
      in if out \<in> spent_tombstones m
         then (case st_remove ops (storage m) out of
                 Inl _ \<Rightarrow> m
               | Inr s \<Rightarrow> m\<lparr>storage := s\<rparr>)
         else m\<lparr>utxo_states := (if dhas (utxo_states m) out then utxo_states m
                               else dput out Unspent (utxo_states m)),
                address_index := index_insert (u_address u) out (address_index m)\<rparr>)"

definition initialize_states :: "'s UtxoStorage \<Rightarrow> 's mgr \<Rightarrow> (UtxoError + nat) \<times> 's mgr" where
  "initialize_states ops m =
     (let utxos = st_list ops (storage m)
      in (Inr (length utxos), fold (init_one ops) utxos m))"

definition clear_all :: "'s UtxoStorage \<Rightarrow> 's mgr \<Rightarrow> 's mgr_result" where
  "clear_all ops m =
     (case st_clear ops (storage m) of
        Inl e \<Rightarrow> (Inl (StorageFailed e), m)
      | Inr s \<Rightarrow> (Inr (), m\<lparr>storage := s, utxo_states := [], locked_collaterals := [],
          address_index := [], collateral_db := map_option (\<lambda>_. []) (collateral_db m),
          spent_tombstones := {}, spent_db := map_option (\<lambda>_. {}) (spent_db m),
          creation_heights := []\<rparr>))"

text \<open>The common end of \<open>add_utxo\<close> and \<open>restore_utxo\<close>.\<close>

definition store_unspent :: "'s UtxoStorage \<Rightarrow> UTXO \<Rightarrow> 's mgr \<Rightarrow> 's mgr_result" where
  "store_unspent ops u m =
     (case st_add ops (storage m) u of
        Inl e \<Rightarrow> (Inl (StorageFailed e), m)
      | Inr s \<Rightarrow> (Inr (), m\<lparr>storage := s,
          utxo_states := dput (u_outpoint u) Unspent (utxo_states m),
          address_index := index_insert (u_address u) (u_outpoint u) (address_index m)\<rparr>))"

definition add_utxo :: "'s UtxoStorage \<Rightarrow> UTXO \<Rightarrow> 's mgr \<Rightarrow> 's mgr_result" where
  "add_utxo ops u m =
     (if u_outpoint u \<in> spent_tombstones m then (Inl AlreadySpent, m)
      else (case dget (utxo_states m) (u_outpoint u) of
          Some Unspent \<Rightarrow> (Inr (), m)
        | Some _ \<Rightarrow> (Inl AlreadySpent, m)
        | None \<Rightarrow> store_unspent ops u m))"

definition remove_utxo :: "'s UtxoStorage \<Rightarrow> OutPoint \<Rightarrow> 's mgr \<Rightarrow> 's mgr_result" where
  "remove_utxo ops out m =
     (let m1 = unindex_stored ops out m
      in case st_remove ops (storage m1) out of
           Inl e \<Rightarrow> (Inl (StorageFailed e), m1)
         | Inr s \<Rightarrow>
             (let m2 = m1\<lparr>storage := s, utxo_states := dremove out (utxo_states m1)\<rparr>
              in (Inr (), if dhas (locked_collaterals m2) out
                          then m2\<lparr>locked_collaterals := dremove out (locked_collaterals m2),
                                  collateral_db := persist_remove out (collateral_db m2)\<rparr>
                          else m2)))"

definition get_utxo :: "'s UtxoStorage \<Rightarrow> 's mgr \<Rightarrow> OutPoint \<Rightarrow> UtxoError + UTXO" where
  "get_utxo ops m out =
     (case st_get ops (storage m) out of None \<Rightarrow> Inl NotFound | Some u \<Rightarrow> Inr u)"

definition release_collateral :: "OutPoint \<Rightarrow> 's mgr \<Rightarrow> 's mgr" where
  "release_collateral out m =
     (if is_collateral_locked m out then snd (unlock_collateral out m) else m)"

definition spend_utxo :: "'s UtxoStorage \<Rightarrow> i64 \<Rightarrow> OutPoint \<Rightarrow> 's mgr \<Rightarrow> 's mgr_result" where
  "spend_utxo ops now out m =
     (let m1 = unindex_stored ops out (release_collateral out m)
      in case st_remove ops (storage m1) out of
           Inl e \<Rightarrow> (Inl (StorageFailed e), m1)
         | Inr s \<Rightarrow> (Inr (), record_spent out (m1\<lparr>storage := s,
             utxo_states := dput out (SpentFinalized zero_hash now 0) (utxo_states m1)\<rparr>)))"

definition lift_tombstone :: "OutPoint \<Rightarrow> 's mgr \<Rightarrow> 's mgr" where
  "lift_tombstone out m = m\<lparr>spent_tombstones := spent_tombstones m - {out},
     spent_db := map_option (\<lambda>t. t - {out}) (spent_db m)\<rparr>"

definition restore_utxo :: "'s UtxoStorage \<Rightarrow> UTXO \<Rightarrow> 's mgr \<Rightarrow> 's mgr_result" where
  "restore_utxo ops u m =
     (if dget (utxo_states m) (u_outpoint u) = Some Unspent
         \<and> st_get ops (storage m) (u_outpoint u) \<noteq> None
      then (Inr (), m\<lparr>address_index :=
              index_insert (u_address u) (u_outpoint u) (address_index m)\<rparr>)
      else store_unspent ops u (lift_tombstone (u_outpoint u) m))"

section \<open>Transaction locks\<close>

definition set_state :: "OutPoint \<Rightarrow> UTXOState \<Rightarrow> 's mgr \<Rightarrow> 's mgr" where
  "set_state out st m = m\<lparr>utxo_states := dput out st (utxo_states m)\<rparr>"

definition lock_utxo :: "i64 \<Rightarrow> OutPoint \<Rightarrow> hash256 \<Rightarrow> 's mgr \<Rightarrow> 's mgr_result" where
  "lock_utxo now out tx m =
     (if is_collateral_locked m out then (Inl LockedAsCollateral, m)
      else (case dget (utxo_states m) out of
          Some Unspent \<Rightarrow> (Inr (), set_state out (Locked tx now) m)
        | Some (Locked existing locked_at) \<Rightarrow>
            if existing = tx then (Inr (), m)
            else if is_lock_expired now locked_at then (Inr (), set_state out (Locked tx now) m)
            else (Inl (AlreadyLocked existing), m)
        | Some _ \<Rightarrow> (Inl AlreadySpent, m)
        | None \<Rightarrow> (Inl NotFound, m)))"

definition unlock_utxo :: "OutPoint \<Rightarrow> hash256 \<Rightarrow> 's mgr \<Rightarrow> 's mgr_result" where
  "unlock_utxo out tx m =
     (case dget (utxo_states m) out of
        Some (Locked owner _) \<Rightarrow>
          if owner = tx then (Inr (), set_state out Unspent m) else (Inl LockMismatch, m)
      | Some Unspent \<Rightarrow> (Inr (), m)
      | Some _ \<Rightarrow> (Inl AlreadySpent, m)
      | None \<Rightarrow> (Inl NotFound, m))"

definition archive_spend ::
    "'s UtxoStorage \<Rightarrow> i64 \<Rightarrow> OutPoint \<Rightarrow> hash256 \<Rightarrow> u64 \<Rightarrow> 's mgr \<Rightarrow> 's mgr_result" where
  "archive_spend ops now out tx height m =
     (case st_remove ops (storage m) out of
        Inl e \<Rightarrow> (Inl (StorageFailed e), m)
      | Inr s \<Rightarrow> (Inr (), set_state out (Archived tx height now) (m\<lparr>storage := s\<rparr>)))"

definition commit_spend ::
    "'s UtxoStorage \<Rightarrow> i64 \<Rightarrow> OutPoint \<Rightarrow> hash256 \<Rightarrow> u64 \<Rightarrow> 's mgr \<Rightarrow> 's mgr_result" where
  "commit_spend ops now out tx height m =
     (case dget (utxo_states m) out of
        Some (Locked owner _) \<Rightarrow>
          if owner \<noteq> tx then (Inl LockMismatch, m) else archive_spend ops now out tx height m
      | Some Unspent \<Rightarrow> archive_spend ops now out tx height m
      | Some _ \<Rightarrow> (Inl AlreadySpent, m)
      | None \<Rightarrow> (Inl NotFound, m))"

fun lock_utxos_loop ::
    "i64 \<Rightarrow> hash256 \<Rightarrow> OutPoint list \<Rightarrow> OutPoint list \<Rightarrow> 's mgr \<Rightarrow> 's mgr_result" where
  "lock_utxos_loop now tx locked [] m = (Inr (), m)"
| "lock_utxos_loop now tx locked (out # outs) m =
     (case lock_utxo now out tx m of
        (Inr _, m') \<Rightarrow> lock_utxos_loop now tx (locked @ [out]) outs m'
      | (Inl e, m') \<Rightarrow> (Inl e, fold (\<lambda>lo m. snd (unlock_utxo lo tx m)) locked m'))"

definition lock_utxos_atomic ::
    "i64 \<Rightarrow> OutPoint list \<Rightarrow> hash256 \<Rightarrow> 's mgr \<Rightarrow> 's mgr_result" where
  "lock_utxos_atomic now outs tx m = lock_utxos_loop now tx [] outs m"

fun expired_lock :: "i64 \<Rightarrow> UTXOState \<Rightarrow> bool" where
  "expired_lock now (Locked _ locked_at) = is_lock_expired now locked_at"
| "expired_lock now _ = False"

definition cleanup_expired_locks :: "i64 \<Rightarrow> 's mgr \<Rightarrow> nat \<times> 's mgr" where
  "cleanup_expired_locks now m =
     (length (filter (expired_lock now \<circ> snd) (utxo_states m)),
      m\<lparr>utxo_states := dmap_values (\<lambda>_ st. if expired_lock now st then Unspent else st)
                        (utxo_states m)\<rparr>)"

definition get_state :: "'s mgr \<Rightarrow> OutPoint \<Rightarrow> UTXOState option" where
  "get_state m out = dget (utxo_states m) out"

definition update_state :: "OutPoint \<Rightarrow> UTXOState \<Rightarrow> 's mgr \<Rightarrow> 's mgr" where
  "update_state out st m = set_state out st m"

text \<open>The guard of \<open>mark_timevote_finalized\<close>: does it return before changing anything?\<close>

definition refuses_finalize :: "'s mgr \<Rightarrow> OutPoint \<Rightarrow> hash256 \<Rightarrow> bool" where
  "refuses_finalize m out tx =
     (case get_state m out of
        Some (SpentFinalized _ _ _) \<Rightarrow> True
      | Some (SpentPending existing _ _ _) \<Rightarrow> existing \<noteq> tx
      | Some (Archived existing _ _) \<Rightarrow> existing \<noteq> tx
      | Some (Locked existing _) \<Rightarrow> existing \<noteq> tx
      | Some Unspent \<Rightarrow> False
      | None \<Rightarrow> is_tombstoned m out)"

definition mark_timevote_finalized ::
    "'s UtxoStorage \<Rightarrow> i64 \<Rightarrow> OutPoint \<Rightarrow> hash256 \<Rightarrow> 's mgr \<Rightarrow> 's mgr" where
  "mark_timevote_finalized ops now out tx m =
     (if refuses_finalize m out tx then m
      else let m1 = unindex_stored ops out m;
               m2 = (case st_remove ops (storage m1) out of
                       Inl _ \<Rightarrow> m1
                     | Inr s \<Rightarrow> m1\<lparr>storage := s\<rparr>)
           in record_spent out (set_state out (SpentFinalized tx now 0) m2))"

definition force_unlock :: "OutPoint \<Rightarrow> 's mgr \<Rightarrow> bool \<times> 's mgr" where
  "force_unlock out m =
     (if is_collateral_locked m out then (False, m)
      else if dhas (utxo_states m) out then (True, set_state out Unspent m)
      else (False, m))"

definition get_finalized_transactions :: "'s mgr \<Rightarrow> Transaction list" where
  "get_finalized_transactions m = []"

definition list_all_utxos :: "'s UtxoStorage \<Rightarrow> 's mgr \<Rightarrow> UTXO list" where
  "list_all_utxos ops m = st_list ops (storage m)"

definition record_utxo_height :: "OutPoint \<Rightarrow> u64 \<Rightarrow> 's mgr \<Rightarrow> 's mgr" where
  "record_utxo_height out height m =
     m\<lparr>creation_heights := dput out height (creation_heights m)\<rparr>"

section \<open>Queries and reconciliation\<close>

record SupplyStats =
  total_unspent_satoshis :: u64
  locked_collateral_satoshis :: u64
  circulating_satoshis :: u64
  dormant_satoshis :: u64
  dormant_utxo_count :: nat
  adjusted_circulating_satoshis :: u64
  unknown_age_satoshis :: u64

text \<open>The five running totals of the loop: unspent, collateral, dormant, its count, unknown age.\<close>

type_synonym supply_acc = "u64 \<times> u64 \<times> u64 \<times> nat \<times> u64"

fun supply_step :: "'s mgr \<Rightarrow> u64 \<Rightarrow> u64 \<Rightarrow> UTXO \<Rightarrow> supply_acc \<Rightarrow> supply_acc" where
  "supply_step m height after u (tot, coll, dorm, cnt, unk) =
     (if dget (utxo_states m) (u_outpoint u) \<noteq> Some Unspent then (tot, coll, dorm, cnt, unk)
      else if dhas (locked_collaterals m) (u_outpoint u)
      then (tot + u_value u, coll + u_value u, dorm, cnt, unk)
      else (case dget (creation_heights m) (u_outpoint u) of
          Some h \<Rightarrow> if after < saturating_sub height h
                    then (tot + u_value u, coll, dorm + u_value u, Suc cnt, unk)
                    else (tot + u_value u, coll, dorm, cnt, unk)
        | None \<Rightarrow> (tot + u_value u, coll, dorm, cnt, unk + u_value u)))"

definition get_supply_stats :: "'s UtxoStorage \<Rightarrow> u64 \<Rightarrow> u64 \<Rightarrow> 's mgr \<Rightarrow> SupplyStats" where
  "get_supply_stats ops height after m =
     (case fold (supply_step m height after) (st_list ops (storage m)) (0, 0, 0, 0, 0) of
        (tot, coll, dorm, cnt, unk) \<Rightarrow>
          (let circulating = saturating_sub tot coll
           in \<lparr>total_unspent_satoshis = tot, locked_collateral_satoshis = coll,
               circulating_satoshis = circulating, dormant_satoshis = dorm,
               dormant_utxo_count = cnt,
               adjusted_circulating_satoshis = saturating_sub circulating dorm,
               unknown_age_satoshis = unk\<rparr>))"

definition get_locked_utxos :: "'s mgr \<Rightarrow> (OutPoint \<times> hash256 \<times> i64) list" where
  "get_locked_utxos m = List.map_filter
     (\<lambda>(out, st). case st of Locked tx locked_at \<Rightarrow> Some (out, tx, locked_at) | _ \<Rightarrow> None)
     (utxo_states m)"

definition is_spendable :: "i64 \<Rightarrow> 's mgr \<Rightarrow> OutPoint \<Rightarrow> hash256 option \<Rightarrow> bool" where
  "is_spendable now m out by_txid \<longleftrightarrow>
     \<not> is_collateral_locked m out \<and>
     (case dget (utxo_states m) out of
        Some Unspent \<Rightarrow> True
      | Some (Locked tx locked_at) \<Rightarrow> by_txid = Some tx \<or> is_lock_expired now locked_at
      | _ \<Rightarrow> False)"

fun state_ord :: "UTXOState \<Rightarrow> u8" where
  "state_ord Unspent = 0"
| "state_ord (Locked _ _) = 1"
| "state_ord (SpentPending _ _ _ _) = 2"
| "state_ord (SpentFinalized _ _ _) = 3"
| "state_ord (Archived _ _ _) = 4"

definition state_disc :: "UTXOState option \<Rightarrow> u8" where
  "state_disc st = (case st of None \<Rightarrow> 0 | Some s \<Rightarrow> state_ord s)"

definition utxo_hash_bytes :: "'s mgr \<Rightarrow> UTXO \<Rightarrow> u8 list" where
  "utxo_hash_bytes m u =
     op_txid (u_outpoint u) @ le_bytes 4 (op_vout (u_outpoint u)) @ le_bytes 8 (u_value u)
     @ u_script_pubkey u @ [state_disc (dget (utxo_states m) (u_outpoint u))]"

definition calculate_utxo_set_hash :: "extern \<Rightarrow> 's UtxoStorage \<Rightarrow> 's mgr \<Rightarrow> hash256" where
  "calculate_utxo_set_hash X ops m =
     sha256 X (concat (map (utxo_hash_bytes m)
       (sort_key (\<lambda>u. (op_txid (u_outpoint u), op_vout (u_outpoint u))) (list_all_utxos ops m))))"

fun apply_update :: "OutPoint \<times> UTXOState \<Rightarrow> 's mgr \<Rightarrow> 's mgr" where
  "apply_update (out, remote) m =
     (case dget (utxo_states m) out of
        None \<Rightarrow> m
      | Some st \<Rightarrow> if state_ord st < state_ord remote then set_state out remote m else m)"

definition apply_state_updates :: "(OutPoint \<times> UTXOState) list \<Rightarrow> 's mgr \<Rightarrow> 's mgr" where
  "apply_state_updates updates m = fold apply_update updates m"

definition get_utxo_diff ::
    "'s UtxoStorage \<Rightarrow> 's mgr \<Rightarrow> UTXO list \<Rightarrow> OutPoint list \<times> UTXO list" where
  "get_utxo_diff ops m remote =
     (let key = (\<lambda>u. (u_outpoint u, u_value u));
          local_set = remdups (map key (list_all_utxos ops m));
          remote_set = remdups (map key remote)
      in (map fst (filter (\<lambda>k. k \<notin> set remote_set) local_set),
          filter (\<lambda>u. key u \<notin> set local_set) remote))"

definition reconcile_remove :: "'s UtxoStorage \<Rightarrow> OutPoint \<Rightarrow> 's mgr \<Rightarrow> 's mgr" where
  "reconcile_remove ops out m =
     (let m1 = unindex_stored ops out (release_collateral out m);
          m2 = (case st_remove ops (storage m1) out of
                  Inl _ \<Rightarrow> m1
                | Inr s \<Rightarrow> m1\<lparr>storage := s\<rparr>)
      in m2\<lparr>utxo_states := dremove out (utxo_states m2)\<rparr>)"

definition reconcile_utxo_state ::
    "'s UtxoStorage \<Rightarrow> OutPoint list \<Rightarrow> UTXO list \<Rightarrow> 's mgr \<Rightarrow> 's mgr_result" where
  "reconcile_utxo_state ops to_remove to_add m =
     (Inr (), fold (\<lambda>u m. snd (add_utxo ops u m)) to_add
                (fold (reconcile_remove ops) to_remove m))"

section \<open>Start-up and sequences of calls\<close>

text \<open>
  The start-up of \<open>main.rs\<close>: a manager over the stored outputs, the two trees opened, the
  states rebuilt from the store and the persisted collateral locks loaded.
\<close>

definition startup ::
    "'s UtxoStorage \<Rightarrow> StorageError + collateral_tree \<Rightarrow> StorageError + OutPoint set \<Rightarrow> 's \<Rightarrow> 's mgr"
  where
  "startup ops opened_locks opened_spent s =
     (let m1 = snd (enable_collateral_persistence opened_locks (new_with_storage s));
          m2 = snd (enable_spent_persistence opened_spent m1);
          m3 = snd (initialize_states ops m2)
      in snd (load_persisted_collateral_locks m3))"

text \<open>
  The calls that change the manager, and a restart of the node: what is in memory is lost, the
  store and the two trees are not.
\<close>

datatype mgr_call =
    CallAdd UTXO
  | CallRemove OutPoint
  | CallSpend OutPoint
  | CallRestore UTXO
  | CallLock OutPoint hash256
  | CallUnlock OutPoint hash256
  | CallCommit OutPoint hash256 u64
  | CallLockAll "OutPoint list" hash256
  | CallCleanup
  | CallUpdate OutPoint UTXOState
  | CallFinalize OutPoint hash256
  | CallForceUnlock OutPoint
  | CallHeight OutPoint u64
  | CallPubkey string pubkey
  | CallApply "(OutPoint \<times> UTXOState) list"
  | CallReconcile "OutPoint list" "UTXO list"
  | CallLockCollateral OutPoint string u64 u64 bool
  | CallUnlockCollateral OutPoint
  | CallUnlockAllCollaterals
  | CallListCollaterals
  | CallRebuild "(OutPoint \<times> string \<times> u64 \<times> u64) list"
  | CallPurge
  | CallSaveLocal "OutPoint option"
  | CallReleaseLocal OutPoint
  | CallClear
  | CallRestart

fun exec_call :: "'s UtxoStorage \<Rightarrow> i64 \<Rightarrow> mgr_call \<Rightarrow> 's mgr \<Rightarrow> 's mgr" where
  "exec_call ops now (CallAdd u) m = snd (add_utxo ops u m)"
| "exec_call ops now (CallRemove out) m = snd (remove_utxo ops out m)"
| "exec_call ops now (CallSpend out) m = snd (spend_utxo ops now out m)"
| "exec_call ops now (CallRestore u) m = snd (restore_utxo ops u m)"
| "exec_call ops now (CallLock out tx) m = snd (lock_utxo now out tx m)"
| "exec_call ops now (CallUnlock out tx) m = snd (unlock_utxo out tx m)"
| "exec_call ops now (CallCommit out tx height) m = snd (commit_spend ops now out tx height m)"
| "exec_call ops now (CallLockAll outs tx) m = snd (lock_utxos_atomic now outs tx m)"
| "exec_call ops now CallCleanup m = snd (cleanup_expired_locks now m)"
| "exec_call ops now (CallUpdate out st) m = update_state out st m"
| "exec_call ops now (CallFinalize out tx) m = mark_timevote_finalized ops now out tx m"
| "exec_call ops now (CallForceUnlock out) m = snd (force_unlock out m)"
| "exec_call ops now (CallHeight out height) m = record_utxo_height out height m"
| "exec_call ops now (CallPubkey addr pk) m = register_pubkey addr pk m"
| "exec_call ops now (CallApply updates) m = apply_state_updates updates m"
| "exec_call ops now (CallReconcile outs us) m = snd (reconcile_utxo_state ops outs us m)"
| "exec_call ops now (CallLockCollateral out addr height amount persist) m =
     snd (lock_collateral_inner now out addr height amount persist m)"
| "exec_call ops now (CallUnlockCollateral out) m = snd (unlock_collateral out m)"
| "exec_call ops now CallUnlockAllCollaterals m = snd (unlock_all_collaterals m)"
| "exec_call ops now CallListCollaterals m = snd (list_locked_collaterals m)"
| "exec_call ops now (CallRebuild entries) m = snd (rebuild_collateral_locks now entries m)"
| "exec_call ops now CallPurge m = snd (purge_stale_collateral_locks m)"
| "exec_call ops now (CallSaveLocal o_out) m = save_local_collateral_outpoint o_out m"
| "exec_call ops now (CallReleaseLocal out) m = snd (release_stale_local_collateral out m)"
| "exec_call ops now CallClear m = snd (clear_all ops m)"
| "exec_call ops now CallRestart m =
     startup ops (Inr (case collateral_db m of None \<Rightarrow> [] | Some t \<Rightarrow> t))
       (Inr (case spent_db m of None \<Rightarrow> {} | Some t \<Rightarrow> t)) (storage m)"

fun run_calls :: "'s UtxoStorage \<Rightarrow> (i64 \<times> mgr_call) list \<Rightarrow> 's mgr \<Rightarrow> 's mgr" where
  "run_calls ops [] m = m"
| "run_calls ops ((now, c) # cs) m = run_calls ops cs (exec_call ops now c m)"

text \<open>The outputs a call hands to the manager, and the calls that lift a tombstone.\<close>

fun call_utxos :: "mgr_call \<Rightarrow> UTXO list" where
  "call_utxos (CallAdd u) = [u]"
| "call_utxos (CallRestore u) = [u]"
| "call_utxos (CallReconcile _ us) = us"
| "call_utxos _ = []"

fun revives :: "OutPoint \<Rightarrow> mgr_call \<Rightarrow> bool" where
  "revives out (CallRestore u) = (u_outpoint u = out)"
| "revives out CallClear = True"
| "revives out _ = False"

section \<open>Frames\<close>

text \<open>
  Most operations touch few fields. The collection \<open>frame_simps\<close> says for each operation which
  fields it leaves alone, so that an invariant over those fields is kept without looking inside.
\<close>

lemma fold_frame: "(\<And>x m. f (g x m) = f m) \<Longrightarrow> f (fold g xs m) = f m"
  by (induction xs arbitrary: m) simp_all

lemma fold_pair_frame: "(\<And>x a. f (snd (g x a)) = f (snd a)) \<Longrightarrow> f (snd (fold g xs a)) = f (snd a)"
  by (induction xs arbitrary: a) simp_all

text \<open>What only the collateral fields, the caches and the states can change.\<close>

definition ledger :: "'s mgr \<Rightarrow> 's \<times> OutPoint set \<times> OutPoint set option \<times> (string, OutPoint list) dmap" where
  "ledger m = (storage m, spent_tombstones m, spent_db m, address_index m)"

lemma ledger_upd [simp]:
  "ledger (m\<lparr>utxo_states := a\<rparr>) = ledger m"
  "ledger (m\<lparr>locked_collaterals := b\<rparr>) = ledger m"
  "ledger (m\<lparr>collateral_db := c\<rparr>) = ledger m"
  "ledger (m\<lparr>pubkey_cache := d\<rparr>) = ledger m"
  "ledger (m\<lparr>creation_heights := e\<rparr>) = ledger m"
  by (simp_all add: ledger_def)

lemma states_set_state [simp]: "utxo_states (set_state out st m) = dput out st (utxo_states m)"
  and ledger_set_state [simp]: "ledger (set_state out st m) = ledger m"
  and collaterals_set_state [simp]: "locked_collaterals (set_state out st m) = locked_collaterals m"
  by (simp_all add: set_state_def)

lemma ledger_lock_utxo [frame_simps]: "ledger (snd (lock_utxo now out tx m)) = ledger m"
  by (simp add: lock_utxo_def split: option.split UTXOState.split)

lemma ledger_unlock_utxo [frame_simps]: "ledger (snd (unlock_utxo out tx m)) = ledger m"
  by (simp add: unlock_utxo_def split: option.split UTXOState.split)

lemma ledger_lock_loop [frame_simps]:
  "ledger (snd (lock_utxos_loop now tx locked outs m)) = ledger m"
proof (induction outs arbitrary: locked m)
  case (Cons out outs)
  have "ledger (fold (\<lambda>lo m. snd (unlock_utxo lo tx m)) locked n) = ledger n" for n :: "'a mgr"
    by (rule fold_frame) (rule ledger_unlock_utxo)
  with Cons.IH ledger_lock_utxo [of now out tx m] show ?case
    by (auto split: prod.split sum.split)
qed simp

lemma ledger_unlock_collateral [frame_simps]: "ledger (snd (unlock_collateral out m)) = ledger m"
  by (simp add: unlock_collateral_def)

lemma ledger_release [frame_simps]: "ledger (release_collateral out m) = ledger m"
  by (simp add: release_collateral_def frame_simps)

lemma ledger_purge_one: "ledger (purge_one out m) = ledger m"
  by (simp add: purge_one_def)

lemma ledger_purge [frame_simps]: "ledger (snd (purge_stale_collateral_locks m)) = ledger m"
  by (simp add: purge_stale_collateral_locks_def Let_def fold_frame [where f = ledger] ledger_purge_one)

lemma ledger_apply_update: "ledger (apply_update upd m) = ledger m"
  by (cases upd) (simp split: option.split)

lemma ledger_load_one: "ledger (snd (load_one e a)) = ledger (snd a)"
  by (induction e a rule: load_one.induct) auto

lemma ledger_load [frame_simps]: "ledger (snd (load_persisted_collateral_locks m)) = ledger m"
  by (auto simp: load_persisted_collateral_locks_def
      fold_pair_frame [where f = ledger and g = load_one] ledger_load_one split: option.split)

lemma ledger_rebuild_one: "ledger (snd (rebuild_one now e a)) = ledger (snd a)"
  by (induction now e a rule: rebuild_one.induct) auto

lemma ledger_rebuild [frame_simps]: "ledger (snd (rebuild_collateral_locks now es m)) = ledger m"
proof -
  have "ledger (snd (fold (rebuild_one now) es (0, m))) = ledger m"
    by (simp add: fold_pair_frame [where f = ledger and g = "rebuild_one now"] ledger_rebuild_one)
  then show ?thesis
    by (simp add: rebuild_collateral_locks_def case_prod_unfold Let_def frame_simps)
qed

text \<open>The calls that leave store, tombstones and address index alone.\<close>

fun ledger_call :: "mgr_call \<Rightarrow> bool" where
  "ledger_call (CallAdd _) = True"
| "ledger_call (CallRemove _) = True"
| "ledger_call (CallSpend _) = True"
| "ledger_call (CallRestore _) = True"
| "ledger_call (CallCommit _ _ _) = True"
| "ledger_call (CallFinalize _ _) = True"
| "ledger_call (CallReconcile _ _) = True"
| "ledger_call CallClear = True"
| "ledger_call CallRestart = True"
| "ledger_call _ = False"

lemma exec_call_frame: "\<not> ledger_call c \<Longrightarrow> ledger (exec_call ops now c m) = ledger m"
  by (cases c)
    (auto simp: frame_simps lock_utxos_atomic_def cleanup_expired_locks_def update_state_def
      force_unlock_def record_utxo_height_def register_pubkey_def apply_state_updates_def
      lock_collateral_inner_def unlock_all_collaterals_def list_locked_collaterals_def
      save_local_collateral_outpoint_def release_stale_local_collateral_def Let_def
      ledger_apply_update fold_frame [where f = ledger] unlock_collateral_def
      split: option.split UTXOState.split prod.split sum.split)

section \<open>The manager over a storage backend\<close>

text \<open>The store after a call that the backend's contract lets succeed.\<close>

definition removed :: "'s UtxoStorage \<Rightarrow> 's \<Rightarrow> OutPoint \<Rightarrow> 's" where
  "removed ops s out = projr (st_remove ops s out)"

definition added :: "'s UtxoStorage \<Rightarrow> 's \<Rightarrow> UTXO \<Rightarrow> 's" where
  "added ops s u = projr (st_add ops s u)"

definition cleared :: "'s UtxoStorage \<Rightarrow> 's \<Rightarrow> 's" where
  "cleared ops s = projr (st_clear ops s)"

text \<open>The outpoints the index lists under an address.\<close>

definition indexed :: "(string, OutPoint list) dmap \<Rightarrow> string \<Rightarrow> OutPoint set" where
  "indexed idx addr = (case dget idx addr of None \<Rightarrow> {} | Some outs \<Rightarrow> set outs)"

definition index_distinct :: "(string, OutPoint list) dmap \<Rightarrow> bool" where
  "index_distinct idx \<longleftrightarrow> (\<forall>addr outs. dget idx addr = Some outs \<longrightarrow> distinct outs)"

lemma indexed_Nil [simp]: "indexed [] a = {}"
  by (simp add: indexed_def)

lemma indexed_insert [simp]:
  "indexed (index_insert a out idx) b = (if b = a then insert out (indexed idx b) else indexed idx b)"
  by (auto simp: indexed_def index_insert_def split: option.split)

lemma indexed_remove [simp]:
  "indexed (index_remove a out idx) b = (if b = a then indexed idx b - {out} else indexed idx b)"
proof (cases "dget idx a")
  case (Some outs)
  have "removeAll out outs = [] \<longleftrightarrow> set outs - {out} = {}"
    by (metis set_empty set_removeAll)
  with Some show ?thesis
    by (auto simp: indexed_def index_remove_def Let_def split: option.split)
qed (simp add: indexed_def index_remove_def)

lemma index_distinct_Nil [simp]: "index_distinct []"
  by (simp add: index_distinct_def)

lemma index_distinct_insert [simp]: "index_distinct idx \<Longrightarrow> index_distinct (index_insert a out idx)"
  by (auto simp: index_distinct_def index_insert_def split: option.split)

lemma index_distinct_remove [simp]: "index_distinct idx \<Longrightarrow> index_distinct (index_remove a out idx)"
  by (auto simp: index_distinct_def index_remove_def Let_def distinct_removeAll split: option.split)

text \<open>
  The invariant of store, tombstones, tombstone tree and index: a tombstoned output is not stored,
  the tree holds exactly the tombstones, a stored output is indexed under its address, and
  everything indexed is indexed under the address \<open>addr_of\<close> of its outpoint.
\<close>

definition ledger_ok ::
    "'s UtxoStorage \<Rightarrow> ('s \<Rightarrow> bool) \<Rightarrow> (OutPoint \<Rightarrow> string)
      \<Rightarrow> 's \<times> OutPoint set \<times> OutPoint set option \<times> (string, OutPoint list) dmap \<Rightarrow> bool" where
  "ledger_ok ops ok addr_of l \<longleftrightarrow> (case l of (s, T, D, I) \<Rightarrow>
     ok s \<and> (\<forall>out\<in>T. st_get ops s out = None) \<and> D = Some T \<and> index_distinct I \<and>
     (\<forall>out u. st_get ops s out = Some u \<longrightarrow> u_address u = addr_of out \<and> out \<in> indexed I (addr_of out)) \<and>
     (\<forall>a out. out \<in> indexed I a \<longrightarrow> addr_of out = a))"

definition utxo_fine :: "(UTXO \<Rightarrow> bool) \<Rightarrow> (OutPoint \<Rightarrow> string) \<Rightarrow> UTXO \<Rightarrow> bool" where
  "utxo_fine storable addr_of u \<longleftrightarrow> storable u \<and> u_address u = addr_of (u_outpoint u)"

context utxo_storage
begin

lemma st_remove_eq: "ok s \<Longrightarrow> st_remove ops s out = Inr (removed ops s out)"
  using remove [of s out] by (auto simp: removed_def)

lemma ok_removed: "ok s \<Longrightarrow> ok (removed ops s out)"
  using remove [of s out] by (auto simp: removed_def)

lemma get_removed: "ok s \<Longrightarrow> st_get ops (removed ops s out) = (st_get ops s)(out := None)"
  using remove [of s out] by (auto simp: removed_def drop_utxo_def)

lemma st_add_eq: "ok s \<Longrightarrow> storable u \<Longrightarrow> st_add ops s u = Inr (added ops s u)"
  using add [of s u] by (auto simp: added_def)

lemma ok_added: "ok s \<Longrightarrow> storable u \<Longrightarrow> ok (added ops s u)"
  using add [of s u] by (auto simp: added_def)

lemma get_added:
  "ok s \<Longrightarrow> storable u \<Longrightarrow> st_get ops (added ops s u) = (st_get ops s)(u_outpoint u \<mapsto> u)"
  using add [of s u] by (auto simp: added_def put_utxo_def)

lemma st_clear_eq: "ok s \<Longrightarrow> st_clear ops s = Inr (cleared ops s)"
  using clear [of s] by (auto simp: cleared_def)

lemma ok_cleared: "ok s \<Longrightarrow> ok (cleared ops s)"
  using clear [of s] by (auto simp: cleared_def)

lemma get_cleared: "ok s \<Longrightarrow> st_get ops (cleared ops s) = Map.empty"
  using clear [of s] by (auto simp: cleared_def)

lemmas store_simps = st_remove_eq ok_removed get_removed st_add_eq ok_added get_added
  st_clear_eq ok_cleared get_cleared

lemma listed_iff: "ok s \<Longrightarrow> u \<in> set (st_list ops s) \<longleftrightarrow> st_get ops s (u_outpoint u) = Some u"
  by (auto simp: list ran_def dest: get_key)

lemma ledger_okD:
  "ledger_ok ops ok addr_of (ledger m) \<Longrightarrow> ok (storage m)"
  by (simp add: ledger_ok_def ledger_def)

text \<open>The primitive changes of the four fields.\<close>

lemma ledger_unstore:
  assumes "ledger_ok ops ok addr_of (s, T, D, I)" and "st_get ops s out = Some u"
  shows "ledger_ok ops ok addr_of (removed ops s out, T, D, index_remove (u_address u) out I)"
  using assms by (auto simp: ledger_ok_def store_simps) metis

lemma ledger_drop:
  "ledger_ok ops ok addr_of (s, T, D, I) \<Longrightarrow> ledger_ok ops ok addr_of (removed ops s out, T, D, I)"
  by (auto simp: ledger_ok_def store_simps)

lemma ledger_tomb:
  "ledger_ok ops ok addr_of (s, T, D, I) \<Longrightarrow> st_get ops s out = None \<Longrightarrow>
     ledger_ok ops ok addr_of (s, insert out T, map_option (insert out) D, I)"
  by (auto simp: ledger_ok_def)

lemma ledger_lift:
  "ledger_ok ops ok addr_of (s, T, D, I) \<Longrightarrow>
     ledger_ok ops ok addr_of (s, T - {out}, map_option (\<lambda>t. t - {out}) D, I)"
  by (auto simp: ledger_ok_def)

lemma ledger_index:
  "ledger_ok ops ok addr_of (s, T, D, I) \<Longrightarrow> a = addr_of out \<Longrightarrow>
     ledger_ok ops ok addr_of (s, T, D, index_insert a out I)"
  by (auto simp: ledger_ok_def) metis

lemma ledger_store:
  "ledger_ok ops ok addr_of (s, T, D, I) \<Longrightarrow> utxo_fine storable addr_of u \<Longrightarrow> u_outpoint u \<notin> T \<Longrightarrow>
     ledger_ok ops ok addr_of
       (added ops s u, T, D, index_insert (u_address u) (u_outpoint u) I)"
  by (auto simp: ledger_ok_def utxo_fine_def store_simps) metis

end

section \<open>Every call keeps the ledger invariant\<close>

lemma ledger_index_upd [simp]:
  "ledger (m\<lparr>address_index := I\<rparr>) = (storage m, spent_tombstones m, spent_db m, I)"
  "ledger (m\<lparr>storage := s\<rparr>) = (s, spent_tombstones m, spent_db m, address_index m)"
  by (simp_all add: ledger_def)

lemma ledger_sel:
  "ledger m' = ledger m \<Longrightarrow> storage m' = storage m"
  "ledger m' = ledger m \<Longrightarrow> spent_tombstones m' = spent_tombstones m"
  "ledger m' = ledger m \<Longrightarrow> spent_db m' = spent_db m"
  "ledger m' = ledger m \<Longrightarrow> address_index m' = address_index m"
  by (simp_all add: ledger_def)

lemma release_fields [simp]:
  "storage (release_collateral out m) = storage m"
  "spent_tombstones (release_collateral out m) = spent_tombstones m"
  "spent_db (release_collateral out m) = spent_db m"
  "address_index (release_collateral out m) = address_index m"
  "utxo_states (release_collateral out m) = utxo_states m"
  by (simp_all add: release_collateral_def unlock_collateral_def)

lemma unindex_fields [simp]:
  "storage (unindex_stored ops out m) = storage m"
  "spent_tombstones (unindex_stored ops out m) = spent_tombstones m"
  "spent_db (unindex_stored ops out m) = spent_db m"
  "utxo_states (unindex_stored ops out m) = utxo_states m"
  "locked_collaterals (unindex_stored ops out m) = locked_collaterals m"
  by (simp_all add: unindex_stored_def remove_from_address_index_def split: option.split)

context utxo_storage
begin

lemma ledger_unindex:
  assumes "ledger_ok ops ok addr_of (ledger m)"
  shows "ledger_ok ops ok addr_of
    (removed ops (storage m) out, spent_tombstones m, spent_db m,
     address_index (unindex_stored ops out m))"
  using assms ledger_unstore [of addr_of "storage m" "spent_tombstones m" "spent_db m"
      "address_index m" out] ledger_drop [of addr_of "storage m" "spent_tombstones m" "spent_db m"
      "address_index m" out]
  by (auto simp: unindex_stored_def remove_from_address_index_def ledger_def split: option.split)

lemma store_unspent_ok:
  assumes "ledger_ok ops ok addr_of (ledger m)" and "utxo_fine storable addr_of u"
    and "u_outpoint u \<notin> spent_tombstones m"
  shows "ledger_ok ops ok addr_of (ledger (snd (store_unspent ops u m)))"
  using ledger_okD [OF assms(1)] ledger_store [OF assms(1) [unfolded ledger_def] assms(2,3)] assms(2)
  by (simp add: store_unspent_def utxo_fine_def store_simps ledger_def)

lemma add_utxo_ok:
  assumes "ledger_ok ops ok addr_of (ledger m)" and "utxo_fine storable addr_of u"
  shows "ledger_ok ops ok addr_of (ledger (snd (add_utxo ops u m)))"
  using assms store_unspent_ok [OF assms]
  by (simp add: add_utxo_def split: option.split UTXOState.split)

lemma restore_utxo_ok:
  assumes m: "ledger_ok ops ok addr_of (ledger m)" and u: "utxo_fine storable addr_of u"
  shows "ledger_ok ops ok addr_of (ledger (snd (restore_utxo ops u m)))"
proof -
  have "ledger_ok ops ok addr_of (ledger (lift_tombstone (u_outpoint u) m))"
    using ledger_lift [OF m [unfolded ledger_def]] by (simp add: lift_tombstone_def ledger_def)
  then have "ledger_ok ops ok addr_of
      (ledger (snd (store_unspent ops u (lift_tombstone (u_outpoint u) m))))"
    using u by (rule store_unspent_ok) (simp add: lift_tombstone_def)
  moreover have "ledger_ok ops ok addr_of (ledger (m\<lparr>address_index :=
      index_insert (u_address u) (u_outpoint u) (address_index m)\<rparr>))"
    using ledger_index [OF m [unfolded ledger_def]] u by (simp add: utxo_fine_def)
  ultimately show ?thesis by (simp add: restore_utxo_def)
qed

lemma remove_utxo_ok:
  assumes "ledger_ok ops ok addr_of (ledger m)"
  shows "ledger_ok ops ok addr_of (ledger (snd (remove_utxo ops out m)))"
  using ledger_okD [OF assms] ledger_unindex [OF assms, of out]
  by (simp add: remove_utxo_def Let_def store_simps)

lemma spend_utxo_ok:
  assumes m: "ledger_ok ops ok addr_of (ledger m)"
  shows "ledger_ok ops ok addr_of (ledger (snd (spend_utxo ops now out m)))"
proof -
  have m': "ledger_ok ops ok addr_of (ledger (release_collateral out m))"
    using m by (simp add: frame_simps)
  show ?thesis
    using ledger_okD [OF m] ledger_tomb [OF ledger_unindex [OF m', of out], of out]
    by (simp add: spend_utxo_def Let_def store_simps record_spent_def) (simp add: ledger_def)
qed

lemma finalize_ok:
  assumes m: "ledger_ok ops ok addr_of (ledger m)"
  shows "ledger_ok ops ok addr_of (ledger (mark_timevote_finalized ops now out tx m))"
  using m ledger_okD [OF m] ledger_tomb [OF ledger_unindex [OF m, of out], of out]
  by (simp add: mark_timevote_finalized_def Let_def store_simps record_spent_def)
    (simp add: ledger_def set_state_def)

lemma commit_spend_ok:
  assumes m: "ledger_ok ops ok addr_of (ledger m)"
  shows "ledger_ok ops ok addr_of (ledger (snd (commit_spend ops now out tx height m)))"
  using m ledger_okD [OF m] ledger_drop [OF m [unfolded ledger_def], of out]
  by (simp add: commit_spend_def archive_spend_def store_simps split: option.split UTXOState.split)

lemma reconcile_remove_ok:
  assumes m: "ledger_ok ops ok addr_of (ledger m)"
  shows "ledger_ok ops ok addr_of (ledger (reconcile_remove ops out m))"
proof -
  have m': "ledger_ok ops ok addr_of (ledger (release_collateral out m))"
    using m by (simp add: frame_simps)
  show ?thesis
    using ledger_okD [OF m] ledger_unindex [OF m', of out]
    by (simp add: reconcile_remove_def Let_def store_simps)
qed

lemma reconcile_ok:
  assumes "ledger_ok ops ok addr_of (ledger m)" and "list_all (utxo_fine storable addr_of) us"
  shows "ledger_ok ops ok addr_of (ledger (snd (reconcile_utxo_state ops outs us m)))"
proof -
  have "ledger_ok ops ok addr_of (ledger (fold (reconcile_remove ops) outs m))"
    using assms(1) by (induction outs arbitrary: m) (simp_all add: reconcile_remove_ok)
  then have "ledger_ok ops ok addr_of
      (ledger (fold (\<lambda>u m. snd (add_utxo ops u m)) us (fold (reconcile_remove ops) outs m)))"
    using assms(2)
    by (induction us arbitrary: outs m rule: rev_induct) (simp_all add: add_utxo_ok)
  then show ?thesis by (simp add: reconcile_utxo_state_def)
qed

lemma clear_all_ok:
  assumes "ledger_ok ops ok addr_of (ledger m)"
  shows "ledger_ok ops ok addr_of (ledger (snd (clear_all ops m)))"
  using ledger_okD [OF assms] assms
  by (auto simp: clear_all_def store_simps) (auto simp: ledger_ok_def ledger_def store_simps)

end

section \<open>Start-up rebuilds the ledger\<close>

lemma states_load_one: "utxo_states (snd (load_one e a)) = utxo_states (snd a)"
  by (induction e a rule: load_one.induct) auto

lemma states_load [frame_simps]:
  "utxo_states (snd (load_persisted_collateral_locks m)) = utxo_states m"
  by (auto simp: load_persisted_collateral_locks_def
      fold_pair_frame [where f = utxo_states and g = load_one] states_load_one split: option.split)

text \<open>What \<open>initialize_states\<close> has done after a prefix \<open>us\<close> of the stored outputs.\<close>

definition init_rel :: "'s UtxoStorage \<Rightarrow> ('s \<Rightarrow> bool) \<Rightarrow> UTXO list \<Rightarrow> 's mgr \<Rightarrow> 's mgr \<Rightarrow> bool" where
  "init_rel ops ok us m m' \<longleftrightarrow>
     ok (storage m') \<and> spent_tombstones m' = spent_tombstones m \<and> spent_db m' = spent_db m \<and>
     index_distinct (address_index m') \<and>
     (\<forall>out. st_get ops (storage m') out =
        (if out \<in> spent_tombstones m \<and> out \<in> u_outpoint ` set us then None
         else st_get ops (storage m) out)) \<and>
     (\<forall>out. dget (utxo_states m') out =
        (if dget (utxo_states m) out = None \<and> out \<in> u_outpoint ` set us \<and> out \<notin> spent_tombstones m
         then Some Unspent else dget (utxo_states m) out)) \<and>
     (\<forall>a. indexed (address_index m') a = indexed (address_index m) a \<union>
        {u_outpoint u | u. u \<in> set us \<and> u_outpoint u \<notin> spent_tombstones m \<and> u_address u = a})"

context utxo_storage
begin

lemma init_one_dead:
  assumes "ok (storage m)" and "u_outpoint u \<in> spent_tombstones m"
  shows "init_one ops u m = m\<lparr>storage := removed ops (storage m) (u_outpoint u)\<rparr>"
  using assms by (simp add: init_one_def Let_def store_simps)

lemma init_one_alive:
  assumes "u_outpoint u \<notin> spent_tombstones m"
  shows "storage (init_one ops u m) = storage m"
    and "spent_tombstones (init_one ops u m) = spent_tombstones m"
    and "spent_db (init_one ops u m) = spent_db m"
    and "address_index (init_one ops u m) = index_insert (u_address u) (u_outpoint u) (address_index m)"
    and "dget (utxo_states (init_one ops u m)) out =
      (if out = u_outpoint u \<and> dget (utxo_states m) out = None then Some Unspent
       else dget (utxo_states m) out)"
  using assms by (auto simp: init_one_def Let_def dhas_def)

lemma init_rel_step:
  assumes "init_rel ops ok us m m'"
  shows "init_rel ops ok (us @ [u]) m (init_one ops u m')"
proof -
  have T: "spent_tombstones m' = spent_tombstones m" and s: "ok (storage m')"
    using assms by (simp_all add: init_rel_def)
  show ?thesis
  proof (cases "u_outpoint u \<in> spent_tombstones m")
    case True
    with T s have one: "init_one ops u m' = m'\<lparr>storage := removed ops (storage m') (u_outpoint u)\<rparr>"
      by (simp add: init_one_dead)
    show ?thesis unfolding one using assms True s by (auto simp: init_rel_def store_simps)
  next
    case False
    with T have "u_outpoint u \<notin> spent_tombstones m'" by simp
    note one = init_one_alive [OF this]
    show ?thesis unfolding init_rel_def one using assms False by (auto simp: init_rel_def)
  qed
qed

lemma init_rel_fold:
  assumes "ok (storage m)" and "index_distinct (address_index m)"
  shows "init_rel ops ok us m (fold (init_one ops) us m)"
proof (induction us rule: rev_induct)
  case Nil
  then show ?case using assms by (auto simp: init_rel_def)
next
  case (snoc u us)
  then show ?case using init_rel_step by simp
qed

lemma init_rel_startup:
  assumes s: "ok s"
  obtains m m' where "init_rel ops ok (st_list ops s) m m'"
    and "ledger m = (s, T, Some T, [])" and "utxo_states m = []"
    and "ledger (startup ops (Inr locks) (Inr T) s) = ledger m'"
    and "utxo_states (startup ops (Inr locks) (Inr T) s) = utxo_states m'"
proof -
  define m where "m = (new_with_storage s)\<lparr>collateral_db := Some locks, spent_tombstones := T,
    spent_db := Some T\<rparr>"
  have m: "ledger m = (s, T, Some T, [])" "utxo_states m = []" "storage m = s" "address_index m = []"
    by (simp_all add: m_def new_with_storage_def ledger_def)
  have start: "startup ops (Inr locks) (Inr T) s =
      snd (load_persisted_collateral_locks (fold (init_one ops) (st_list ops s) m))"
    by (simp add: startup_def enable_collateral_persistence_def enable_spent_persistence_def
        initialize_states_def m_def new_with_storage_def Let_def)
  show ?thesis
    using that [OF init_rel_fold [of m "st_list ops s"] m(1,2)] s m
    by (simp add: start frame_simps)
qed

lemma get_ran:
  assumes s: "ok s"
  shows "out \<in> u_outpoint ` set (st_list ops s) \<longleftrightarrow> st_get ops s out \<noteq> None"
proof
  assume "out \<in> u_outpoint ` set (st_list ops s)"
  then obtain u where "u \<in> set (st_list ops s)" "out = u_outpoint u" by blast
  then show "st_get ops s out \<noteq> None" using listed_iff [OF s, of u] by simp
next
  assume "st_get ops s out \<noteq> None"
  then obtain u where u: "st_get ops s out = Some u" by blast
  moreover have "u_outpoint u = out" using s u by (rule get_key)
  ultimately show "out \<in> u_outpoint ` set (st_list ops s)"
    using listed_iff [OF s, of u] by force
qed

lemma startup_view:
  fixes locks T
  assumes s: "ok s"
  defines "m \<equiv> startup ops (Inr locks) (Inr T) s"
  shows "spent_tombstones m = T" and "spent_db m = Some T"
    and "st_get ops (storage m) out = (if out \<in> T then None else st_get ops s out)"
    and "dget (utxo_states m) out = (if st_get ops s out \<noteq> None \<and> out \<notin> T then Some Unspent else None)"
proof -
  obtain m0 m1 where r: "init_rel ops ok (st_list ops s) m0 m1"
    and m0: "ledger m0 = (s, T, Some T, [])" "utxo_states m0 = []"
    and m: "ledger m = ledger m1" "utxo_states m = utxo_states m1"
    unfolding m_def using s by (rule init_rel_startup)
  have f: "storage m = storage m1" "spent_tombstones m = spent_tombstones m1" "spent_db m = spent_db m1"
    using m(1) by (simp_all add: ledger_def)
  show "spent_tombstones m = T" "spent_db m = Some T"
    using r m0 f by (simp_all add: init_rel_def ledger_def)
  show "st_get ops (storage m) out = (if out \<in> T then None else st_get ops s out)"
    using r m0 f get_ran [OF s, of out] by (auto simp: init_rel_def ledger_def)
  show "dget (utxo_states m) out = (if st_get ops s out \<noteq> None \<and> out \<notin> T then Some Unspent else None)"
    using r m0 m(2) get_ran [OF s, of out] by (simp add: init_rel_def ledger_def)
qed

lemma startup_ok:
  assumes s: "ok s" and a: "\<And>out u. st_get ops s out = Some u \<Longrightarrow> u_address u = addr_of out"
  shows "ledger_ok ops ok addr_of (ledger (startup ops (Inr locks) (Inr T) s))"
proof -
  obtain m0 m1 where r: "init_rel ops ok (st_list ops s) m0 m1"
    and m0: "ledger m0 = (s, T, Some T, [])"
    and m: "ledger (startup ops (Inr locks) (Inr T) s) = ledger m1"
    using s by (rule init_rel_startup [of s T locks])
  have g: "st_get ops (storage m1) out = (if out \<in> T then None else st_get ops s out)" for out
    using r m0 get_ran [OF s, of out] by (auto simp: init_rel_def ledger_def)
  have i: "out \<in> indexed (address_index m1) x \<longleftrightarrow>
      (\<exists>u. st_get ops s out = Some u \<and> out \<notin> T \<and> u_address u = x)" for out x
    using r m0 listed_iff [OF s] get_key [OF s, of out] by (auto simp: init_rel_def ledger_def)
  have "ok (storage m1)" "spent_tombstones m1 = T" "spent_db m1 = Some T"
      "index_distinct (address_index m1)"
    using r m0 by (simp_all add: init_rel_def ledger_def)
  then show ?thesis
    unfolding m unfolding ledger_ok_def ledger_def by (auto simp: g i dest: a)
qed

end

section \<open>Reachable managers\<close>

text \<open>
  The managers a node can have: one built by the start-up over a consistent store, then any
  sequence of calls whose outputs are \<open>fine\<close>. A restart is one of the calls.
\<close>

inductive mgr_reach :: "'s UtxoStorage \<Rightarrow> ('s \<Rightarrow> bool) \<Rightarrow> (UTXO \<Rightarrow> bool) \<Rightarrow> 's mgr \<Rightarrow> bool"
  for ops ok fine where
  start: "ok s \<Longrightarrow> list_all fine (st_list ops s) \<Longrightarrow>
    mgr_reach ops ok fine (startup ops (Inr locks) (Inr T) s)"
| call: "mgr_reach ops ok fine m \<Longrightarrow> list_all fine (call_utxos c) \<Longrightarrow>
    mgr_reach ops ok fine (exec_call ops now c m)"

lemma mgr_reach_run:
  "mgr_reach ops ok fine m \<Longrightarrow> list_all (\<lambda>(_, c). list_all fine (call_utxos c)) cs \<Longrightarrow>
     mgr_reach ops ok fine (run_calls ops cs m)"
  by (induction ops cs m rule: run_calls.induct) (auto intro: mgr_reach.call)

lemma run_calls_append: "run_calls ops (cs @ ds) m = run_calls ops ds (run_calls ops cs m)"
  by (induction ops cs m rule: run_calls.induct) auto

context utxo_storage
begin

lemma restart_ok:
  assumes m: "ledger_ok ops ok addr_of (ledger m)"
  shows "ledger_ok ops ok addr_of (ledger (exec_call ops now CallRestart m))"
proof -
  have "st_get ops (storage m) out = Some u \<Longrightarrow> u_address u = addr_of out" for out u
    using m by (auto simp: ledger_ok_def ledger_def)
  then show ?thesis using ledger_okD [OF m] by (simp add: startup_ok)
qed

lemma exec_call_ok:
  assumes m: "ledger_ok ops ok addr_of (ledger m)"
    and c: "list_all (utxo_fine storable addr_of) (call_utxos c)"
  shows "ledger_ok ops ok addr_of (ledger (exec_call ops now c m))"
proof (cases "ledger_call c")
  case True
  then show ?thesis
    using c restart_ok [OF m]
    by (cases c) (auto simp: m add_utxo_ok remove_utxo_ok spend_utxo_ok restore_utxo_ok
        commit_spend_ok finalize_ok reconcile_ok clear_all_ok simp del: exec_call.simps(26))
next
  case False
  then show ?thesis using m by (simp add: exec_call_frame)
qed

lemma reach_ledger_ok:
  "mgr_reach ops ok (utxo_fine storable addr_of) m \<Longrightarrow> ledger_ok ops ok addr_of (ledger m)"
proof (induction rule: mgr_reach.induct)
  case (start s locks T)
  have "u_address u = addr_of out" if "st_get ops s out = Some u" for out u
    using start listed_iff [OF start(1), of u] get_key [OF start(1) that] that
    by (auto simp: list_all_iff utxo_fine_def)
  with start(1) show ?case by (rule startup_ok)
next
  case (call m c now)
  then show ?case by (simp add: exec_call_ok)
qed

text \<open>A tombstone stays until its output is restored or everything is cleared.\<close>

lemma tombstones_add: "spent_tombstones (snd (add_utxo ops u m)) = spent_tombstones m"
  by (simp add: add_utxo_def store_unspent_def split: option.split UTXOState.split sum.split)

lemma tombstones_reconcile:
  "spent_tombstones (snd (reconcile_utxo_state ops outs us m)) = spent_tombstones m"
proof -
  have "spent_tombstones (reconcile_remove ops out n) = spent_tombstones n" for out n
    by (simp add: reconcile_remove_def Let_def split: sum.split)
  then show ?thesis
    by (simp add: reconcile_utxo_state_def fold_frame [where f = spent_tombstones] tombstones_add)
qed

lemma tombstone_stays:
  assumes m: "ledger_ok ops ok addr_of (ledger m)"
    and out: "out \<in> spent_tombstones m" and c: "\<not> revives out c"
  shows "out \<in> spent_tombstones (exec_call ops now c m)"
proof (cases "ledger_call c")
  case True
  have D: "spent_db m = Some (spent_tombstones m)" and s: "ok (storage m)"
    using m by (simp_all add: ledger_ok_def ledger_def)
  show ?thesis
    using True out c s
    by (cases c)
      (auto simp: tombstones_add tombstones_reconcile remove_utxo_def spend_utxo_def record_spent_def
        restore_utxo_def store_unspent_def lift_tombstone_def commit_spend_def archive_spend_def
        mark_timevote_finalized_def set_state_def Let_def D startup_view(1) store_simps
        split: sum.split option.split UTXOState.split)
next
  case False
  then show ?thesis
    using out exec_call_frame [of c ops now m] by (simp add: ledger_def)
qed

lemma tombstone_run:
  "mgr_reach ops ok (utxo_fine storable addr_of) m \<Longrightarrow> out \<in> spent_tombstones m \<Longrightarrow>
   list_all (\<lambda>(_, c). list_all (utxo_fine storable addr_of) (call_utxos c) \<and> \<not> revives out c) cs \<Longrightarrow>
     out \<in> spent_tombstones (run_calls ops cs m)"
proof (induction cs arbitrary: m)
  case (Cons nc cs)
  obtain now c where nc: "nc = (now, c)" by (cases nc)
  have "mgr_reach ops ok (utxo_fine storable addr_of) (exec_call ops now c m)"
    using Cons.prems nc by (auto intro: mgr_reach.call)
  moreover have "out \<in> spent_tombstones (exec_call ops now c m)"
    using tombstone_stays [OF reach_ledger_ok [OF Cons.prems(1)] Cons.prems(2)] Cons.prems(3) nc
    by simp
  ultimately show ?case using Cons.IH Cons.prems(3) nc by simp
qed simp

lemma spend_tombstones:
  assumes "ok (storage m)"
  shows "out \<in> spent_tombstones (snd (spend_utxo ops now out m))"
  using assms by (simp add: spend_utxo_def Let_def store_simps record_spent_def)

lemma finalize_tombstones:
  "\<not> refuses_finalize m out tx \<Longrightarrow> out \<in> spent_tombstones (mark_timevote_finalized ops now out tx m)"
  by (simp add: mark_timevote_finalized_def Let_def record_spent_def)

lemma tombstoned_gone:
  assumes "ledger_ok ops ok addr_of (ledger m)" and "out \<in> spent_tombstones m"
  shows "get_utxo ops m out = Inl NotFound"
    and "u_outpoint u = out \<Longrightarrow> add_utxo ops u m = (Inl AlreadySpent, m)"
  using assms by (auto simp: ledger_ok_def ledger_def get_utxo_def add_utxo_def)

lemma address_lookup:
  assumes m: "ledger_ok ops ok addr_of (ledger m)"
  shows "set (list_utxos_by_address ops m a) = {u \<in> set (list_all_utxos ops m). u_address u = a}"
    and "distinct (list_utxos_by_address ops m a)"
proof -
  have s: "ok (storage m)" using m by (rule ledger_okD)
  have f: "inj_on (st_get ops (storage m)) (dom (st_get ops (storage m)))"
    by (rule inj_onI) (metis domD get_key [OF s])
  have i: "out \<in> indexed (address_index m) a \<and> st_get ops (storage m) out = Some u \<longleftrightarrow>
      st_get ops (storage m) out = Some u \<and> u_address u = a" for out u
    using m by (auto simp: ledger_ok_def ledger_def)
  have "set (list_utxos_by_address ops m a) =
      {u. \<exists>out \<in> indexed (address_index m) a. st_get ops (storage m) out = Some u}"
    by (auto simp: list_utxos_by_address_def indexed_def set_map_filter split: option.split)
  also have "\<dots> = {u. st_get ops (storage m) (u_outpoint u) = Some u \<and> u_address u = a}"
    using i get_key [OF s] by blast
  finally show "set (list_utxos_by_address ops m a) = {u \<in> set (list_all_utxos ops m). u_address u = a}"
    by (simp add: list_all_utxos_def listed_iff [OF s])
  have "distinct outs" if "dget (address_index m) a = Some outs" for outs
    using m that by (auto simp: ledger_ok_def ledger_def index_distinct_def)
  then show "distinct (list_utxos_by_address ops m a)"
    using f by (auto simp: list_utxos_by_address_def map_filter_def distinct_map inj_on_def dom_def
        split: option.split)
qed

end

section \<open>Spent outputs stay spent\<close>

text \<open>An outpoint and an output of it, for the witnesses.\<close>

definition out1 :: OutPoint where
  "out1 = \<lparr>op_txid = zero_hash, op_vout = 1\<rparr>"

definition utxo1 :: UTXO where
  "utxo1 = \<lparr>u_outpoint = out1, u_value = 7, u_script_pubkey = [1], u_address = ''TIME1'',
     u_masternode_key = None\<rparr>"

lemma utxo1_outpoint [simp]: "u_outpoint utxo1 = out1"
  by (simp add: utxo1_def)

lemma utxo1_fine [simp]: "utxo_fine utxo_fits (\<lambda>_. ''TIME1'') utxo1"
  by (simp add: utxo_fine_def utxo1_def out1_def utxo_fits_def hash256_ok_def zero_hash_def)

lemma sled_open_ok [simp]: "sled_ok C sled_open" "st_list (SledUtxoStorage C) sled_open = []"
  by (simp_all add: sled_ok_def sled_open_def SledUtxoStorage_def sled_list_utxos_def map_filter_simps)

lemma sled_open_reach:
  "mgr_reach (SledUtxoStorage C) (sled_ok C) fine
     (startup (SledUtxoStorage C) (Inr locks) (Inr T) sled_open)"
  by (rule mgr_reach.start) simp_all

text \<open>
  C1. On the sled backend, once a block spends an output, or TimeVote finality marks it spent, no
  sequence of calls and node restarts brings it back, short of a rollback of that output or a
  clearing of the whole set: it stays tombstoned, it cannot be looked up, and every attempt to
  add it again fails with \<open>AlreadySpent\<close> and changes nothing.
\<close>

theorem spent_never_returns:
  assumes C: "codec_ok C storable"
    and m: "mgr_reach (SledUtxoStorage C) (sled_ok C) (utxo_fine storable addr_of) m"
    and c: "c = CallSpend out \<or> (\<exists>tx. c = CallFinalize out tx \<and> \<not> refuses_finalize m out tx)"
    and cs: "list_all (\<lambda>(_, c). list_all (utxo_fine storable addr_of) (call_utxos c)
      \<and> \<not> revives out c) cs"
    and u: "u_outpoint u = out"
    and m': "m' = run_calls (SledUtxoStorage C) ((now, c) # cs) m"
  shows "is_tombstoned m' out \<and> get_utxo (SledUtxoStorage C) m' out = Inl NotFound
    \<and> add_utxo (SledUtxoStorage C) u m' = (Inl AlreadySpent, m')"
proof -
  let ?S = "SledUtxoStorage C" and ?m = "exec_call (SledUtxoStorage C) now c m"
  note sled = sled_storage [OF C]
  have r: "mgr_reach ?S (sled_ok C) (utxo_fine storable addr_of) ?m"
    using m c by (intro mgr_reach.call) auto
  have "sled_ok C (storage m)"
    using utxo_storage.reach_ledger_ok [OF sled m] by (rule utxo_storage.ledger_okD [OF sled])
  then have t: "out \<in> spent_tombstones ?m"
    using c by (auto simp: utxo_storage.spend_tombstones [OF sled]
        utxo_storage.finalize_tombstones [OF sled])
  have "out \<in> spent_tombstones m'"
    unfolding m' using utxo_storage.tombstone_run [OF sled r t cs] by simp
  moreover have "ledger_ok ?S (sled_ok C) addr_of (ledger m')"
    unfolding m' run_calls.simps
    by (rule utxo_storage.reach_ledger_ok [OF sled mgr_reach_run [OF r]])
      (use cs in \<open>auto simp: list_all_iff\<close>)
  ultimately show ?thesis
    using u by (simp add: is_tombstoned_def utxo_storage.tombstoned_gone [OF sled])
qed

theorem spent_never_returns_witness:
  "let S = SledUtxoStorage bincode_codec;
     m = run_calls S [(0, CallAdd utxo1)] (startup S (Inr []) (Inr {}) sled_open);
     m' = run_calls S [(5, CallSpend out1), (6, CallRestart), (7, CallAdd utxo1)] m
   in is_tombstoned m' out1 \<and> get_utxo S m' out1 = Inl NotFound
     \<and> add_utxo S utxo1 m' = (Inl AlreadySpent, m')"
proof -
  let ?S = "SledUtxoStorage bincode_codec"
  let ?m = "run_calls ?S [(0, CallAdd utxo1)] (startup ?S (Inr []) (Inr {}) sled_open)"
  have m: "mgr_reach ?S (sled_ok bincode_codec) (utxo_fine utxo_fits (\<lambda>_. ''TIME1'')) ?m"
    by (rule mgr_reach_run [OF sled_open_reach]) simp
  show ?thesis
    unfolding Let_def
    by (rule spent_never_returns [OF bincode_codec_ok m, where c = "CallSpend out1" and now = 5
          and cs = "[(6, CallRestart), (7, CallAdd utxo1)]"])
      simp_all
qed

text \<open>
  C15. The address index is exact: on the sled backend, in every manager that a node reaches while
  all outputs handed over for one outpoint carry the same address, \<open>list_utxos_by_address\<close> returns
  exactly the stored outputs of that address, each once, and none of them is tombstoned.
\<close>

theorem address_lookup_exact:
  assumes C: "codec_ok C storable"
    and m: "mgr_reach (SledUtxoStorage C) (sled_ok C) (utxo_fine storable addr_of) m"
  shows "set (list_utxos_by_address (SledUtxoStorage C) m a)
      = {u \<in> set (list_all_utxos (SledUtxoStorage C) m). u_address u = a}
    \<and> distinct (list_utxos_by_address (SledUtxoStorage C) m a)
    \<and> (\<forall>u \<in> set (list_utxos_by_address (SledUtxoStorage C) m a). \<not> is_tombstoned m (u_outpoint u))"
proof -
  note sled = sled_storage [OF C]
  note inv = utxo_storage.reach_ledger_ok [OF sled m]
  note look = utxo_storage.address_lookup [OF sled inv, of a]
  have "\<not> is_tombstoned m (u_outpoint u)" if "u \<in> set (list_all_utxos (SledUtxoStorage C) m)" for u
    using that inv utxo_storage.listed_iff [OF sled utxo_storage.ledger_okD [OF sled inv], of u]
    by (auto simp: list_all_utxos_def is_tombstoned_def ledger_ok_def ledger_def)
  with look show ?thesis by auto
qed

theorem address_lookup_exact_witness:
  "let S = SledUtxoStorage bincode_codec;
     m = run_calls S [(0, CallAdd utxo1), (9, CallRestart)] (startup S (Inr []) (Inr {}) sled_open)
   in set (list_utxos_by_address S m ''TIME1'')
      = {u \<in> set (list_all_utxos S m). u_address u = ''TIME1''}
    \<and> distinct (list_utxos_by_address S m ''TIME1'')
    \<and> (\<forall>u \<in> set (list_utxos_by_address S m ''TIME1''). \<not> is_tombstoned m (u_outpoint u))"
  unfolding Let_def
  by (rule address_lookup_exact [OF bincode_codec_ok,
        OF mgr_reach_run [OF sled_open_reach, where fine = "utxo_fine utxo_fits (\<lambda>_. ''TIME1'')"]])
    simp

text \<open>
  The premise on addresses is needed: restoring an output that is stored already indexes it under the
  address of the undo record, and a lookup of that address then returns an output of another one.
\<close>

lemma restored_under_other_address:
  "let m = run_calls InMemoryUtxoStorage [(0, CallAdd utxo1), (1, CallRestore (utxo1\<lparr>u_address := ''TIME2''\<rparr>))] utxo_manager_new
   in list_utxos_by_address InMemoryUtxoStorage m ''TIME2'' = [utxo1] \<and> u_address utxo1 = ''TIME1''"
  by (simp add: utxo_manager_new_def new_with_storage_def add_utxo_def restore_utxo_def store_unspent_def mem_defs
      index_insert_def list_utxos_by_address_def map_filter_simps utxo1_def)

end
