(* ===== verification/Utxo_Locks.thy ===== *)
theory Utxo_Locks
  imports Utxo_Manager
begin

text \<open>
  The transaction locks and the collateral locks of \<open>src/utxo_manager.rs\<close>: who may take a lock,
  that it is kept against others until it expires, what a failed batch leaves behind, that peer
  updates only advance an output's state, and what the sweep over collateral locks restores.
\<close>

section \<open>Single locks\<close>

lemma get_state_set_state [simp]:
  "get_state (set_state out st m) o' = (if o' = out then Some st else get_state m o')"
  by (simp add: get_state_def)

lemma spendable_set_state:
  "is_spendable now (set_state out st m) o' by \<longleftrightarrow>
     (if o' = out then \<not> is_collateral_locked m out \<and> (case st of
          Unspent \<Rightarrow> True
        | Locked tx at \<Rightarrow> by = Some tx \<or> is_lock_expired now at
        | _ \<Rightarrow> False)
      else is_spendable now m o' by)"
  by (auto simp: is_spendable_def is_collateral_locked_def split: UTXOState.split)

text \<open>A successful lock, by the state the output was in.\<close>

definition locked_state :: "i64 \<Rightarrow> hash256 \<Rightarrow> UTXOState option \<Rightarrow> UTXOState" where
  "locked_state now tx st = (case st of
      Some (Locked owner at) \<Rightarrow> if owner = tx then Locked tx at else Locked tx now
    | _ \<Rightarrow> Locked tx now)"

lemma lock_utxo_view:
  assumes "is_spendable now m out (Some tx)"
  shows "fst (lock_utxo now out tx m) = Inr ()"
    and "get_state (snd (lock_utxo now out tx m)) o' =
      (if o' = out then Some (locked_state now tx (get_state m out)) else get_state m o')"
    and "locked_collaterals (snd (lock_utxo now out tx m)) = locked_collaterals m"
  using assms
  by (auto simp: lock_utxo_def is_spendable_def locked_state_def get_state_def
      split: option.splits UTXOState.splits)

lemma lock_utxo_ok:
  assumes "is_spendable now m out (Some tx)"
  obtains m' where "lock_utxo now out tx m = (Inr (), m')"
    and "\<And>o'. get_state m' o' = (if o' = out then Some (locked_state now tx (get_state m out))
                              else get_state m o')"
    and "locked_collaterals m' = locked_collaterals m"
  using lock_utxo_view [OF assms] that by (cases "lock_utxo now out tx m") auto

lemma lock_utxo_fail:
  assumes "\<not> is_spendable now m out (Some tx)"
  shows "\<exists>e. lock_utxo now out tx m = (Inl e, m)"
  using assms by (auto simp: lock_utxo_def is_spendable_def split: option.splits UTXOState.splits)

lemma locked_spendable:
  "is_spendable now m out (Some tx) \<Longrightarrow> get_state m' out = Some (locked_state now tx (get_state m out)) \<Longrightarrow>
   locked_collaterals m' = locked_collaterals m \<Longrightarrow> is_spendable now m' out (Some tx)"
  by (auto simp: is_spendable_def locked_state_def get_state_def is_collateral_locked_def
      split: option.splits UTXOState.splits)

lemma locked_state_idem [simp]:
  "locked_state now tx (Some (locked_state now tx st)) = locked_state now tx st"
  by (auto simp: locked_state_def split: option.split UTXOState.split)

section \<open>Batches of locks\<close>

text \<open>
  After a prefix \<open>locked\<close> of the batch, starting from \<open>m0\<close>: exactly the outputs of the prefix
  changed state, and each of them could be locked at the start.
\<close>

definition lock_progress ::
    "i64 \<Rightarrow> hash256 \<Rightarrow> OutPoint list \<Rightarrow> 's mgr \<Rightarrow> 's mgr \<Rightarrow> bool" where
  "lock_progress now tx locked m0 m \<longleftrightarrow>
     locked_collaterals m = locked_collaterals m0 \<and>
     (\<forall>out\<in>set locked. is_spendable now m0 out (Some tx)) \<and>
     (\<forall>out. get_state m out = (if out \<in> set locked
        then Some (locked_state now tx (get_state m0 out)) else get_state m0 out))"

lemma locked_state_Locked: "\<exists>at. locked_state now tx st = Locked tx at"
  by (auto simp: locked_state_def split: option.split UTXOState.split)

lemma lock_progress_spendable:
  assumes "lock_progress now tx locked m0 m"
  shows "is_spendable now m out (Some tx) \<longleftrightarrow> is_spendable now m0 out (Some tx)"
proof (cases "out \<in> set locked")
  case True
  with assms show ?thesis by (auto simp: lock_progress_def intro: locked_spendable)
next
  case False
  with assms show ?thesis
    by (simp add: lock_progress_def is_spendable_def is_collateral_locked_def get_state_def)
qed

lemma lock_progress_step:
  assumes "lock_progress now tx locked m0 m" and "is_spendable now m0 out (Some tx)"
    and "get_state m' = (get_state m)(out \<mapsto> locked_state now tx (get_state m out))"
    and "locked_collaterals m' = locked_collaterals m"
  shows "lock_progress now tx (locked @ [out]) m0 m'"
  using assms by (auto simp: lock_progress_def)

lemma unlock_view:
  assumes "get_state m out = Some Unspent \<or> (\<exists>at. get_state m out = Some (Locked tx at))"
  shows "get_state (snd (unlock_utxo out tx m)) = (get_state m)(out \<mapsto> Unspent)"
  using assms by (auto simp: unlock_utxo_def get_state_def)

lemma rollback_view:
  "\<forall>out\<in>set locked. get_state m out = Some Unspent \<or> (\<exists>at. get_state m out = Some (Locked tx at)) \<Longrightarrow>
   get_state (fold (\<lambda>lo m. snd (unlock_utxo lo tx m)) locked m) out =
     (if out \<in> set locked then Some Unspent else get_state m out)"
proof (induction locked arbitrary: m)
  case (Cons lo locked)
  have step: "get_state (snd (unlock_utxo lo tx m)) = (get_state m)(lo \<mapsto> Unspent)"
    using Cons.prems by (intro unlock_view) simp
  show ?case
    using Cons.IH [of "snd (unlock_utxo lo tx m)"] Cons.prems by (simp add: step)
qed simp

lemma lock_loop_ok:
  "lock_progress now tx locked m0 m \<Longrightarrow> \<forall>out\<in>set outs. is_spendable now m0 out (Some tx) \<Longrightarrow>
   \<exists>m'. lock_utxos_loop now tx locked outs m = (Inr (), m') \<and> lock_progress now tx (locked @ outs) m0 m'"
proof (induction outs arbitrary: locked m)
  case (Cons out outs)
  have "is_spendable now m out (Some tx)"
    using Cons.prems by (simp add: lock_progress_spendable)
  then obtain m1 where m1: "lock_utxo now out tx m = (Inr (), m1)"
    "\<And>o'. get_state m1 o' = (if o' = out then Some (locked_state now tx (get_state m out))
                              else get_state m o')"
    "locked_collaterals m1 = locked_collaterals m"
    by (rule lock_utxo_ok) blast
  have "lock_progress now tx (locked @ [out]) m0 m1"
    using Cons.prems m1(3) by (intro lock_progress_step [of _ _ locked m0 m]) (auto simp: m1(2))
  then show ?case
    using Cons.IH [of "locked @ [out]" m1] Cons.prems m1(1) by simp
qed simp

lemma lock_loop_fail:
  "lock_progress now tx locked m0 m \<Longrightarrow> \<exists>out\<in>set outs. \<not> is_spendable now m0 out (Some tx) \<Longrightarrow>
   \<exists>e m' undone. lock_utxos_loop now tx locked outs m = (Inl e, m') \<and> set undone \<subseteq> set (locked @ outs) \<and>
     (\<forall>out\<in>set undone. is_spendable now m0 out (Some tx)) \<and>
     (\<forall>out. get_state m' out = (if out \<in> set undone then Some Unspent else get_state m0 out))"
proof (induction outs arbitrary: locked m)
  case (Cons out outs)
  show ?case
  proof (cases "is_spendable now m0 out (Some tx)")
    case True
    then have "is_spendable now m out (Some tx)"
      using Cons.prems by (simp add: lock_progress_spendable)
    then obtain m1 where m1: "lock_utxo now out tx m = (Inr (), m1)"
      "\<And>o'. get_state m1 o' = (if o' = out then Some (locked_state now tx (get_state m out))
                                else get_state m o')"
      "locked_collaterals m1 = locked_collaterals m"
      by (rule lock_utxo_ok) blast
    have "lock_progress now tx (locked @ [out]) m0 m1"
      using Cons.prems m1(3) True
      by (intro lock_progress_step [of _ _ locked m0 m]) (auto simp: m1(2))
    then show ?thesis
      using Cons.IH [of "locked @ [out]" m1] Cons.prems(2) True m1(1) by auto
  next
    case False
    then obtain e where e: "lock_utxo now out tx m = (Inl e, m)"
      using lock_utxo_fail Cons.prems(1) by (metis lock_progress_spendable)
    have p: "get_state m o' = (if o' \<in> set locked
        then Some (locked_state now tx (get_state m0 o')) else get_state m0 o')" for o'
      using Cons.prems(1) by (simp add: lock_progress_def)
    have "\<forall>o'\<in>set locked. get_state m o' = Some Unspent \<or> (\<exists>at. get_state m o' = Some (Locked tx at))"
      using p locked_state_Locked by simp
    from rollback_view [OF this] show ?thesis
      using Cons.prems(1) e
      by (intro exI [of _ e] exI [of _ "fold (\<lambda>lo m. snd (unlock_utxo lo tx m)) locked m"]
          exI [of _ locked]) (auto simp: p lock_progress_def)
  qed
qed simp

section \<open>A lock is held against others\<close>

definition held :: "hash256 \<Rightarrow> i64 \<Rightarrow> OutPoint \<Rightarrow> 's mgr \<Rightarrow> bool" where
  "held tx at out m \<longleftrightarrow> get_state m out = Some (Locked tx at) \<and> \<not> is_collateral_locked m out"

text \<open>
  The calls made for other transactions and other outputs, the sweeps and the collateral
  operations: everything but a call for \<open>tx\<close> itself, a call that names \<open>out\<close> directly, a peer's
  state updates, and the loss of the in-memory state.
\<close>

fun foreign_call :: "hash256 \<Rightarrow> OutPoint \<Rightarrow> mgr_call \<Rightarrow> bool" where
  "foreign_call tx out (CallLock _ t) = (t \<noteq> tx)"
| "foreign_call tx out (CallUnlock _ t) = (t \<noteq> tx)"
| "foreign_call tx out (CallLockAll _ t) = (t \<noteq> tx)"
| "foreign_call tx out (CallCommit _ t _) = (t \<noteq> tx)"
| "foreign_call tx out (CallFinalize _ t) = (t \<noteq> tx)"
| "foreign_call tx out (CallSpend o') = (o' \<noteq> out)"
| "foreign_call tx out (CallRemove o') = (o' \<noteq> out)"
| "foreign_call tx out (CallRestore u) = (u_outpoint u \<noteq> out)"
| "foreign_call tx out (CallUpdate o' _) = (o' \<noteq> out)"
| "foreign_call tx out (CallForceUnlock o') = (o' \<noteq> out)"
| "foreign_call tx out (CallReconcile outs _) = (out \<notin> set outs)"
| "foreign_call tx out (CallApply _) = False"
| "foreign_call tx out CallClear = False"
| "foreign_call tx out CallRestart = False"
| "foreign_call tx out _ = True"

lemma held_fields:
  "get_state m' out = get_state m out \<Longrightarrow> locked_collaterals m' = locked_collaterals m \<Longrightarrow>
     held tx at out m' = held tx at out m"
  by (simp add: held_def is_collateral_locked_def)

lemma held_lock:
  "held tx at out m \<Longrightarrow> t \<noteq> tx \<Longrightarrow> \<not> is_lock_expired now at \<Longrightarrow> held tx at out (snd (lock_utxo now o' t m))"
  by (cases "o' = out")
    (auto simp: lock_utxo_def held_def get_state_def is_collateral_locked_def
      split: option.split UTXOState.split)

lemma held_unlock: "held tx at out m \<Longrightarrow> t \<noteq> tx \<Longrightarrow> held tx at out (snd (unlock_utxo o' t m))"
  by (cases "o' = out")
    (auto simp: unlock_utxo_def held_def get_state_def is_collateral_locked_def
      split: option.split UTXOState.split)

lemma held_lock_loop:
  "held tx at out m \<Longrightarrow> t \<noteq> tx \<Longrightarrow> \<not> is_lock_expired now at \<Longrightarrow>
     held tx at out (snd (lock_utxos_loop now t locked outs m))"
proof (induction outs arbitrary: locked m)
  case (Cons o' outs)
  have "held tx at out (fold (\<lambda>lo m. snd (unlock_utxo lo t m)) locked n)" if "held tx at out n" for n
    by (rule fold_invariant [where Q = "\<lambda>_. True"]) (use that Cons.prems(2) held_unlock in auto)
  with Cons held_lock [OF Cons.prems, of o'] show ?case
    by (auto split: prod.split sum.split)
qed simp

lemma held_add: "held tx at out m \<Longrightarrow> held tx at out (snd (add_utxo ops u m))"
  by (cases "u_outpoint u = out")
    (auto simp: add_utxo_def store_unspent_def held_def get_state_def is_collateral_locked_def
      split: option.split UTXOState.split sum.split)

lemma held_reconcile_remove: "held tx at out m \<Longrightarrow> o' \<noteq> out \<Longrightarrow> held tx at out (reconcile_remove ops o' m)"
  by (auto simp: reconcile_remove_def Let_def held_def get_state_def is_collateral_locked_def
      release_collateral_def unlock_collateral_def split: sum.split)

lemma held_reconcile:
  assumes "held tx at out m" and "out \<notin> set outs"
  shows "held tx at out (snd (reconcile_utxo_state ops outs us m))"
proof -
  have "held tx at out (fold (reconcile_remove ops) outs m)"
    by (rule fold_invariant [where Q = "\<lambda>o'. o' \<noteq> out"]) (use assms held_reconcile_remove in auto)
  then have "held tx at out (fold (\<lambda>u m. snd (add_utxo ops u m)) us (fold (reconcile_remove ops) outs m))"
    by (rule fold_invariant [where Q = "\<lambda>_. True", rotated]) (simp_all add: held_add)
  then show ?thesis by (simp add: reconcile_utxo_state_def)
qed

lemma held_unlock_collateral: "held tx at out m \<Longrightarrow> held tx at out (snd (unlock_collateral o' m))"
  by (simp add: unlock_collateral_def held_def get_state_def is_collateral_locked_def)

lemma held_purge_one: "held tx at out m \<Longrightarrow> held tx at out (purge_one o' m)"
  by (auto simp: purge_one_def held_def get_state_def is_collateral_locked_def
      split: option.split UTXOState.split)

lemma held_purge: "held tx at out m \<Longrightarrow> held tx at out (snd (purge_stale_collateral_locks m))"
  unfolding purge_stale_collateral_locks_def Let_def snd_conv
  by (rule fold_invariant [where Q = "\<lambda>_. True"]) (simp_all add: held_purge_one)

lemma held_rebuild:
  assumes "held tx at out m"
  shows "held tx at out (snd (rebuild_collateral_locks now es m))"
proof -
  have one: "held tx at out (snd a) \<Longrightarrow> held tx at out (snd (rebuild_one now e a))" for e a
    by (induction now e a rule: rebuild_one.induct)
      (auto simp: held_def get_state_def is_collateral_locked_def)
  have "held tx at out (snd (fold (rebuild_one now) es (0, m)))"
    by (rule fold_invariant [where Q = "\<lambda>_. True" and P = "\<lambda>a. held tx at out (snd a)"])
      (simp_all only: snd_conv assms one)
  then show ?thesis
    by (simp add: rebuild_collateral_locks_def case_prod_unfold Let_def held_purge)
qed

lemma held_list_collaterals: "held tx at out m \<Longrightarrow> held tx at out (snd (list_locked_collaterals m))"
  by (simp add: list_locked_collaterals_def Let_def held_def get_state_def is_collateral_locked_def
      dhas_def al.get_fold_remove)

lemma held_finalize:
  "held tx at out m \<Longrightarrow> t \<noteq> tx \<Longrightarrow> held tx at out (mark_timevote_finalized ops now o' t m)"
  by (cases "o' = out")
    (auto simp: mark_timevote_finalized_def refuses_finalize_def Let_def held_def record_spent_def
      get_state_def is_collateral_locked_def split: sum.split)

lemma held_commit:
  "held tx at out m \<Longrightarrow> t \<noteq> tx \<Longrightarrow> held tx at out (snd (commit_spend ops now o' t h m))"
  by (cases "o' = out")
    (auto simp: commit_spend_def archive_spend_def held_def get_state_def is_collateral_locked_def
      split: option.split UTXOState.split sum.split)

lemma held_other:
  assumes "held tx at out m" and "o' \<noteq> out"
  shows "held tx at out (snd (spend_utxo ops now o' m))"
    and "held tx at out (snd (remove_utxo ops o' m))"
    and "held tx at out (snd (force_unlock o' m))"
    and "u_outpoint u = o' \<Longrightarrow> held tx at out (snd (restore_utxo ops u m))"
  using assms
  by (auto simp: spend_utxo_def remove_utxo_def force_unlock_def restore_utxo_def store_unspent_def
      lift_tombstone_def record_spent_def release_collateral_def unlock_collateral_def Let_def
      held_def get_state_def is_collateral_locked_def split: sum.split)

lemma held_lock_collateral:
  "held tx at out m \<Longrightarrow> held tx at out (snd (lock_collateral_inner now o' addr h amt p m))"
  by (cases "o' = out")
    (auto simp: lock_collateral_inner_def held_def get_state_def is_collateral_locked_def Let_def
      split: option.split UTXOState.split)

lemma held_unlock_all: "held tx at out m \<Longrightarrow> held tx at out (snd (unlock_all_collaterals m))"
  unfolding unlock_all_collaterals_def Let_def snd_conv
  by (rule fold_invariant [where Q = "\<lambda>_. True"]) (simp_all add: held_unlock_collateral)

lemma held_simple:
  assumes "held tx at out m"
  shows "\<not> is_lock_expired now at \<Longrightarrow> held tx at out (snd (cleanup_expired_locks now m))"
    and "held tx at out (record_utxo_height o' h m)"
    and "held tx at out (register_pubkey addr pk m)"
    and "held tx at out (save_local_collateral_outpoint oo m)"
    and "held tx at out (snd (release_stale_local_collateral o' m))"
    and "o' \<noteq> out \<Longrightarrow> held tx at out (update_state o' st m)"
  using assms
  by (auto simp: cleanup_expired_locks_def record_utxo_height_def register_pubkey_def
      save_local_collateral_outpoint_def release_stale_local_collateral_def update_state_def
      unlock_collateral_def held_def get_state_def is_collateral_locked_def)

lemmas held_rules = held_lock held_unlock held_lock_loop held_add held_reconcile held_purge held_rebuild
  held_list_collaterals held_finalize held_commit held_other held_lock_collateral held_unlock_all
  held_simple held_unlock_collateral

lemma held_exec:
  assumes "held tx at out m" and "foreign_call tx out c" and "\<not> is_lock_expired now at"
  shows "held tx at out (exec_call ops now c m)"
  using assms by (cases c) (simp_all add: held_rules lock_utxos_atomic_def)

lemma held_run:
  "held tx at out m \<Longrightarrow> list_all (\<lambda>(now, c). foreign_call tx out c \<and> \<not> is_lock_expired now at) cs \<Longrightarrow>
     held tx at out (run_calls ops cs m)"
  by (induction ops cs m rule: run_calls.induct) (auto simp: held_exec)

section \<open>Properties of the locks\<close>

text \<open>
  C16. A lock excludes every other transaction: while the lock of \<open>tx\<close> on an output has not
  expired, no sequence of calls made for other transactions and other outputs takes it away, and
  an attempt to lock the output for another transaction fails with \<open>AlreadyLocked\<close> and changes
  nothing.
\<close>

theorem lock_excludes_others:
  assumes "held tx at out m"
    and "list_all (\<lambda>(now, c). foreign_call tx out c \<and> \<not> is_lock_expired now at) cs"
    and "other \<noteq> tx" and "\<not> is_lock_expired now at"
  shows "get_state (run_calls ops cs m) out = Some (Locked tx at)
    \<and> lock_utxo now out other (run_calls ops cs m) = (Inl (AlreadyLocked tx), run_calls ops cs m)"
  using held_run [OF assms(1,2), of ops] assms(3,4)
  by (auto simp: held_def lock_utxo_def get_state_def)

definition tx_a :: hash256 where "tx_a = replicate 32 1"
definition tx_b :: hash256 where "tx_b = replicate 32 2"

lemma tx_ab [simp]: "tx_a \<noteq> tx_b" "tx_b \<noteq> tx_a"
  by (simp_all add: tx_a_def tx_b_def)

definition mgr1 :: "mem_store mgr" where
  "mgr1 = run_calls InMemoryUtxoStorage [(0, CallAdd utxo1), (0, CallLock out1 tx_a)] utxo_manager_new"

lemma mgr1_eq: "mgr1 = utxo_manager_new\<lparr>storage := [(out1, utxo1)],
    utxo_states := [(out1, Locked tx_a 0)], address_index := [(''TIME1'', [out1])]\<rparr>"
  by (simp add: mgr1_def utxo_manager_new_def new_with_storage_def add_utxo_def store_unspent_def
      mem_defs lock_utxo_def is_collateral_locked_def set_state_def index_insert_def utxo1_def)

theorem lock_excludes_others_witness:
  "let cs = [(5, CallUnlock out1 tx_b), (6, CallLockAll [out1] tx_b), (7, CallCleanup), (8, CallPurge)];
     m = run_calls InMemoryUtxoStorage cs mgr1
   in get_state m out1 = Some (Locked tx_a 0)
     \<and> lock_utxo 600 out1 tx_b m = (Inl (AlreadyLocked tx_a), m)"
  unfolding Let_def
  by (rule lock_excludes_others)
    (simp_all add: held_def mgr1_eq get_state_def is_collateral_locked_def utxo_manager_new_def
      new_with_storage_def is_lock_expired_def LOCK_TIMEOUT_SECS_def)

text \<open>
  C28. A batch of locks is decided by the state before it: it succeeds exactly when every output
  is spendable by the transaction, and then precisely the outputs of the batch become locked by
  it. Otherwise it fails, and an output is left as it was, except that one of the batch which the
  transaction had locked before, or on which another lock had expired, is left unspent. Store,
  tombstones and address index never change.
\<close>

theorem lock_batch_decided:
  "if \<forall>out\<in>set outs. is_spendable now m out (Some tx)
   then \<exists>m'. lock_utxos_atomic now outs tx m = (Inr (), m') \<and> ledger m' = ledger m \<and>
     (\<forall>out. get_state m' out = (if out \<in> set outs then Some (locked_state now tx (get_state m out))
        else get_state m out))
   else \<exists>e m'. lock_utxos_atomic now outs tx m = (Inl e, m') \<and> ledger m' = ledger m \<and>
     (\<forall>out. get_state m' out = get_state m out \<or>
        (out \<in> set outs \<and> get_state m' out = Some Unspent \<and> (\<exists>owner at.
           get_state m out = Some (Locked owner at) \<and> (owner = tx \<or> is_lock_expired now at))))"
proof -
  have 0: "lock_progress now tx [] m m" by (simp add: lock_progress_def)
  have l: "ledger (snd (lock_utxos_atomic now outs tx m)) = ledger m"
    by (simp add: lock_utxos_atomic_def frame_simps)
  have sp: "get_state m out = Some Unspent \<or> (\<exists>owner at. get_state m out = Some (Locked owner at)
      \<and> (owner = tx \<or> is_lock_expired now at))" if "is_spendable now m out (Some tx)" for out
    using that by (auto simp: is_spendable_def get_state_def split: option.splits UTXOState.splits)
  show ?thesis
  proof (cases "\<forall>out\<in>set outs. is_spendable now m out (Some tx)")
    case True
    from lock_loop_ok [OF 0 True] l show ?thesis
      using True by (auto simp: lock_utxos_atomic_def lock_progress_def)
  next
    case False
    then have "\<exists>out\<in>set outs. \<not> is_spendable now m out (Some tx)" by blast
    from lock_loop_fail [OF 0 this] obtain e m' undone where f:
      "lock_utxos_atomic now outs tx m = (Inl e, m')" "set undone \<subseteq> set outs"
      "\<forall>out\<in>set undone. is_spendable now m out (Some tx)"
      "\<forall>out. get_state m' out = (if out \<in> set undone then Some Unspent else get_state m out)"
      by (auto simp: lock_utxos_atomic_def)
    have "get_state m' out = get_state m out \<or> (out \<in> set outs \<and> get_state m' out = Some Unspent \<and>
        (\<exists>owner at. get_state m out = Some (Locked owner at) \<and> (owner = tx \<or> is_lock_expired now at)))"
      for out using f(2-4) sp [of out] by auto
    with False f(1) l show ?thesis by auto
  qed
qed

theorem lock_batch_decided_witness:
  "\<exists>e m'. lock_utxos_atomic 0 [out1, \<lparr>op_txid = tx_a, op_vout = 0\<rparr>] tx_a mgr1 = (Inl e, m')
     \<and> ledger m' = ledger mgr1 \<and> (\<forall>out. get_state m' out = get_state mgr1 out \<or>
        (out \<in> set [out1, \<lparr>op_txid = tx_a, op_vout = 0\<rparr>] \<and> get_state m' out = Some Unspent \<and> (\<exists>owner at.
           get_state mgr1 out = Some (Locked owner at) \<and> (owner = tx_a \<or> is_lock_expired 0 at))))"
proof -
  have "\<not> (\<forall>out\<in>set [out1, \<lparr>op_txid = tx_a, op_vout = 0\<rparr>]. is_spendable 0 mgr1 out (Some tx_a))"
    by (simp add: mgr1_eq is_spendable_def utxo_manager_new_def new_with_storage_def out1_def
        tx_a_def zero_hash_def)
  then show ?thesis
    using lock_batch_decided [of "[out1, \<lparr>op_txid = tx_a, op_vout = 0\<rparr>]" 0 mgr1 tx_a]
    by (simp only: if_False)
qed

text \<open>
  The rollback of a failed batch takes away a lock that the transaction held before the batch.
\<close>

lemma batch_rollback_drops_own_lock:
  "get_state mgr1 out1 = Some (Locked tx_a 0) \<and>
   get_state (snd (lock_utxos_atomic 0 [out1, \<lparr>op_txid = tx_a, op_vout = 0\<rparr>] tx_a mgr1)) out1
     = Some Unspent"
  by (simp add: mgr1_eq lock_utxos_atomic_def lock_utxo_def unlock_utxo_def get_state_def
      is_collateral_locked_def utxo_manager_new_def new_with_storage_def out1_def tx_a_def
      zero_hash_def)

section \<open>Peer updates only advance\<close>

lemma collaterals_apply_update: "locked_collaterals (apply_update upd m) = locked_collaterals m"
  by (cases upd) (simp split: option.split)

lemma apply_update_get:
  "get_state (apply_update (out, st) m) o' =
     (case get_state m o' of
        Some cur \<Rightarrow> if o' = out \<and> state_ord cur < state_ord st then Some st else Some cur
      | None \<Rightarrow> None)"
  by (auto simp: get_state_def split: option.split)

declare apply_update.simps [simp del]

lemma apply_fold:
  "get_state m out = Some st \<Longrightarrow>
   \<exists>st'. get_state (fold apply_update ups m) out = Some st' \<and>
     (st' = st \<or> (out, st') \<in> set ups \<and> state_ord st < state_ord st') \<and>
     (\<forall>r. (out, r) \<in> set ups \<longrightarrow> state_ord r \<le> state_ord st')"
proof (induction ups arbitrary: m st)
  case (Cons up ups)
  obtain o' r where up: "up = (o', r)" by (cases up)
  define st1 where "st1 = (if out = o' \<and> state_ord st < state_ord r then r else st)"
  have "get_state (apply_update up m) out = Some st1"
    using Cons.prems by (simp add: up apply_update_get st1_def)
  from Cons.IH [OF this] obtain st' where st': "get_state (fold apply_update (up # ups) m) out = Some st'"
    "st' = st1 \<or> (out, st') \<in> set ups \<and> state_ord st1 < state_ord st'"
    "\<forall>r. (out, r) \<in> set ups \<longrightarrow> state_ord r \<le> state_ord st'" by auto
  have le: "state_ord st1 \<le> state_ord st'" using st'(2) by auto
  have "state_ord st \<le> state_ord st1" by (auto simp: st1_def)
  moreover have "out = o' \<Longrightarrow> state_ord r \<le> state_ord st1" by (auto simp: st1_def)
  ultimately have "st' = st \<or> (out, st') \<in> set (up # ups) \<and> state_ord st < state_ord st'"
    using st'(2) by (auto simp: st1_def up split: if_splits)
  moreover have "\<forall>q. (out, q) \<in> set (up # ups) \<longrightarrow> state_ord q \<le> state_ord st'"
    using st'(3) le \<open>out = o' \<Longrightarrow> state_ord r \<le> state_ord st1\<close> by (auto simp: up)
  ultimately show ?case using st'(1) by blast
qed simp

lemma apply_fold_None: "get_state m out = None \<Longrightarrow> get_state (fold apply_update ups m) out = None"
  by (induction ups arbitrary: m) (auto simp: apply_update_get)

text \<open>
  State updates from a peer only advance outputs the node already tracks: an unknown output
  stays unknown, a known one keeps its state or takes a state of the batch of strictly higher
  rank, and ends at least as far as every update for it. Collateral locks, store, tombstones and
  index are not touched.
\<close>

theorem apply_updates_advance:
  "(case get_state m out of
      None \<Rightarrow> get_state (apply_state_updates ups m) out = None
    | Some st \<Rightarrow> \<exists>st'. get_state (apply_state_updates ups m) out = Some st' \<and>
        (st' = st \<or> (out, st') \<in> set ups \<and> state_ord st < state_ord st') \<and>
        list_all (\<lambda>(_, r). state_ord r \<le> state_ord st') (filter (\<lambda>(o', _). o' = out) ups))
   \<and> ledger (apply_state_updates ups m) = ledger m
   \<and> locked_collaterals (apply_state_updates ups m) = locked_collaterals m"
proof -
  have "case get_state m out of
      None \<Rightarrow> get_state (apply_state_updates ups m) out = None
    | Some st \<Rightarrow> \<exists>st'. get_state (apply_state_updates ups m) out = Some st' \<and>
        (st' = st \<or> (out, st') \<in> set ups \<and> state_ord st < state_ord st') \<and>
        list_all (\<lambda>(_, r). state_ord r \<le> state_ord st') (filter (\<lambda>(o', _). o' = out) ups)"
  proof (cases "get_state m out")
    case None
    then show ?thesis by (simp add: apply_state_updates_def apply_fold_None)
  next
    case (Some st)
    from apply_fold [OF this, of ups] obtain st' where
      "get_state (apply_state_updates ups m) out = Some st'"
      "st' = st \<or> (out, st') \<in> set ups \<and> state_ord st < state_ord st'"
      "\<forall>r. (out, r) \<in> set ups \<longrightarrow> state_ord r \<le> state_ord st'"
      by (auto simp: apply_state_updates_def)
    with Some show ?thesis by (intro option.split [THEN iffD2]) (auto simp: list_all_iff)
  qed
  then show ?thesis
    by (simp add: apply_state_updates_def fold_frame [where f = ledger] ledger_apply_update
        fold_frame [where f = locked_collaterals] collaterals_apply_update)
qed

section \<open>The collateral sweep\<close>

lemma purge_fold:
  "distinct outs \<Longrightarrow>
   dget (locked_collaterals (fold purge_one outs m)) out =
     (if out \<in> set outs then None else dget (locked_collaterals m) out) \<and>
   get_state (fold purge_one outs m) out =
     (if out \<in> set outs \<and> is_collateral_locked m out \<and> (\<exists>tx at. get_state m out = Some (Locked tx at))
      then Some Unspent else get_state m out)"
proof (induction outs arbitrary: m)
  case (Cons o' outs)
  have c: "dget (locked_collaterals (purge_one o' m)) =
      (\<lambda>x. if x = o' then None else dget (locked_collaterals m) x)"
    by (auto simp: purge_one_def dhas_def)
  have g: "get_state (purge_one o' m) x = (if x = o' \<and> is_collateral_locked m o'
      \<and> (\<exists>tx at. get_state m o' = Some (Locked tx at)) then Some Unspent else get_state m x)" for x
    by (auto simp: purge_one_def get_state_def is_collateral_locked_def
        split: option.split UTXOState.split)
  have k: "is_collateral_locked (purge_one o' m) out \<longleftrightarrow> out \<noteq> o' \<and> is_collateral_locked m out"
    by (auto simp: is_collateral_locked_def dhas_def c)
  show ?case
    using Cons.IH [of "purge_one o' m"] Cons.prems by (auto simp: c g k)
qed simp

text \<open>
  After a sweep every collateral lock is on an unspent output; a lock that was on one is kept
  as it is; an output that carried both a collateral lock and a transaction lock is freed of both,
  and every other output keeps its state.
\<close>

theorem purge_leaves_unspent:
  assumes inv: "dinv (locked_collaterals m)" and m': "m' = snd (purge_stale_collateral_locks m)"
  shows "get_locked_collateral m' out =
      (if get_state m out = Some Unspent then get_locked_collateral m out else None)
    \<and> get_state m' out =
      (if is_collateral_locked m out \<and> (\<exists>tx at. get_state m out = Some (Locked tx at))
       then Some Unspent else get_state m out)
    \<and> (is_collateral_locked m' out \<longrightarrow> get_state m' out = Some Unspent)"
proof -
  let ?stale = "filter (\<lambda>out. dget (utxo_states m) out \<noteq> Some Unspent) (dkeys (locked_collaterals m))"
  have d: "distinct ?stale" using inv by (simp add: dinv_def dkeys_def)
  have s: "out \<in> set ?stale \<longleftrightarrow> is_collateral_locked m out \<and> get_state m out \<noteq> Some Unspent"
    by (auto simp: al.set_keys is_collateral_locked_def dhas_def get_state_def dom_def)
  have "m' = fold purge_one ?stale m"
    by (simp add: m' purge_stale_collateral_locks_def Let_def)
  note v = purge_fold [OF d, of m out, folded this]
  have c: "dget (locked_collaterals m') out = (if out \<in> set ?stale then None
      else dget (locked_collaterals m) out)" and g: "get_state m' out =
      (if out \<in> set ?stale \<and> is_collateral_locked m out \<and> (\<exists>tx at. get_state m out = Some (Locked tx at))
       then Some Unspent else get_state m out)"
    using v by blast+
  show ?thesis
    unfolding get_locked_collateral_def is_collateral_locked_def [of m'] dhas_def c g s
    by (auto simp: is_collateral_locked_def dhas_def)
qed

theorem purge_leaves_unspent_witness:
  "let m = mgr1\<lparr>locked_collaterals := [(out1, locked_collateral_new 0 out1 ''mn'' 1 1000)]\<rparr>;
     m' = snd (purge_stale_collateral_locks m)
   in get_locked_collateral m' out1 =
      (if get_state m out1 = Some Unspent then get_locked_collateral m out1 else None)
    \<and> get_state m' out1 =
      (if is_collateral_locked m out1 \<and> (\<exists>tx at. get_state m out1 = Some (Locked tx at))
       then Some Unspent else get_state m out1)
    \<and> (is_collateral_locked m' out1 \<longrightarrow> get_state m' out1 = Some Unspent)"
  unfolding Let_def by (rule purge_leaves_unspent) (simp_all add: dinv_def)

end
