(* ===== verification/Utxo_Ledger.thy ===== *)
theory Utxo_Ledger
  imports Utxo_Locks
begin

text \<open>
  What the UTXO manager of \<open>src/utxo_manager.rs\<close> keeps of the set of outputs: a spend followed by
  its rollback, the supply figures, the set hash peers compare, the reconciliation with a peer's
  set, and that what may be spent is stored.
\<close>

section \<open>Spend and rollback\<close>

context utxo_storage
begin

lemma spend_then_restore:
  assumes m: "ledger_ok ops ok addr_of (ledger m)" and u: "storable u"
    and get: "st_get ops (storage m) out = Some u"
    and m1: "m1 = snd (spend_utxo ops now out m)" and m2: "m2 = snd (restore_utxo ops u m1)"
  shows "fst (spend_utxo ops now out m) = Inr ()" and "fst (restore_utxo ops u m1) = Inr ()"
    and "st_get ops (storage m2) = st_get ops (storage m)"
    and "spent_tombstones m2 = spent_tombstones m" and "spent_db m2 = spent_db m"
    and "get_state m2 = (get_state m)(out \<mapsto> Unspent)"
    and "indexed (address_index m2) = indexed (address_index m)"
proof -
  have s: "ok (storage m)" using m by (rule ledger_okD)
  have o: "u_outpoint u = out" using s get by (rule get_key)
  have a: "u_address u = addr_of out" "out \<in> indexed (address_index m) (addr_of out)"
      "out \<notin> spent_tombstones m" "spent_db m = Some (spent_tombstones m)"
    using m get by (auto simp: ledger_ok_def ledger_def)
  have v1: "storage m1 = removed ops (storage m) out"
    "spent_tombstones m1 = insert out (spent_tombstones m)"
    "spent_db m1 = Some (insert out (spent_tombstones m))"
    "utxo_states m1 = dput out (SpentFinalized zero_hash now 0) (utxo_states m)"
    "address_index m1 = index_remove (u_address u) out (address_index m)"
    using s get a(4) by (simp_all add: m1 spend_utxo_def Let_def store_simps record_spent_def
        unindex_stored_def remove_from_address_index_def)
  have r: "restore_utxo ops u m1 = store_unspent ops u (lift_tombstone out m1)"
    by (simp add: restore_utxo_def o v1)
  show "fst (spend_utxo ops now out m) = Inr ()"
    using s by (simp add: spend_utxo_def Let_def store_simps)
  show "fst (restore_utxo ops u m1) = Inr ()"
    using s u by (simp add: r store_unspent_def lift_tombstone_def v1 store_simps)
  show "st_get ops (storage m2) = st_get ops (storage m)"
    using s u get o by (auto simp: m2 r store_unspent_def lift_tombstone_def v1 store_simps)
  show "spent_tombstones m2 = spent_tombstones m" "spent_db m2 = spent_db m"
    using s u a by (auto simp: m2 r store_unspent_def lift_tombstone_def v1 store_simps)
  show "get_state m2 = (get_state m)(out \<mapsto> Unspent)"
    using s u o by (auto simp: m2 r store_unspent_def lift_tombstone_def v1 store_simps get_state_def)
  show "indexed (address_index m2) = indexed (address_index m)"
    using s u o a
    by (intro ext) (auto simp: m2 r store_unspent_def lift_tombstone_def v1 store_simps)
qed

end

text \<open>
  C29. Rolling back a spend restores the ledger: when a stored output is spent and the undo record
  is restored, both calls succeed, and every lookup by outpoint and by address, the tombstones and
  the tombstone tree are as before. The output is unspent afterwards and every other output keeps
  its state.
\<close>

theorem spend_restore_roundtrip:
  assumes C: "codec_ok C storable"
    and m: "mgr_reach (SledUtxoStorage C) (sled_ok C) (utxo_fine storable addr_of) m"
    and u: "storable u" and get: "get_utxo (SledUtxoStorage C) m out = Inr u"
    and m1: "m1 = snd (spend_utxo (SledUtxoStorage C) now out m)"
    and m2: "m2 = snd (restore_utxo (SledUtxoStorage C) u m1)"
  shows "fst (spend_utxo (SledUtxoStorage C) now out m) = Inr ()
    \<and> fst (restore_utxo (SledUtxoStorage C) u m1) = Inr ()
    \<and> get_utxo (SledUtxoStorage C) m2 = get_utxo (SledUtxoStorage C) m
    \<and> spent_tombstones m2 = spent_tombstones m \<and> spent_db m2 = spent_db m
    \<and> get_state m2 = (get_state m)(out \<mapsto> Unspent)
    \<and> set (list_utxos_by_address (SledUtxoStorage C) m2 a)
      = set (list_utxos_by_address (SledUtxoStorage C) m a)"
proof -
  let ?S = "SledUtxoStorage C"
  have g: "st_get ?S (storage m) out = Some u"
    using get by (simp add: get_utxo_def split: option.splits)
  note rt = utxo_storage.spend_then_restore [OF sled_storage [OF C]
      utxo_storage.reach_ledger_ok [OF sled_storage [OF C] m] u g m1 m2]
  have "set (list_utxos_by_address ?S n a) =
      {v. \<exists>x\<in>indexed (address_index n) a. st_get ?S (storage n) x = Some v}" for n
    by (auto simp: list_utxos_by_address_def indexed_def set_map_filter split: option.split)
  with rt show ?thesis by (simp add: get_utxo_def fun_eq_iff)
qed

definition mgr2 :: "sled_db mgr" where
  "mgr2 = run_calls (SledUtxoStorage bincode_codec) [(0, CallAdd utxo1)]
     (startup (SledUtxoStorage bincode_codec) (Inr []) (Inr {}) sled_open)"

lemma mgr2_reach:
  "mgr_reach (SledUtxoStorage bincode_codec) (sled_ok bincode_codec)
     (utxo_fine utxo_fits (\<lambda>_. ''TIME1'')) mgr2"
  unfolding mgr2_def by (rule mgr_reach_run [OF sled_open_reach]) simp

lemma mgr2_get: "get_utxo (SledUtxoStorage bincode_codec) mgr2 out1 = Inr utxo1"
proof -
  have "utxo_fits utxo1" using utxo1_fine by (simp add: utxo_fine_def)
  then show ?thesis
    by (simp add: mgr2_def startup_def enable_collateral_persistence_def new_with_storage_def
        enable_spent_persistence_def initialize_states_def load_persisted_collateral_locks_def
        add_utxo_def store_unspent_def get_utxo_def Let_def)
      (simp add: sled_defs bincode_codec_def sled_open_def dec_enc_utxo)
qed

theorem spend_restore_roundtrip_witness:
  "let S = SledUtxoStorage bincode_codec; m1 = snd (spend_utxo S 9 out1 mgr2);
     m2 = snd (restore_utxo S utxo1 m1)
   in fst (spend_utxo S 9 out1 mgr2) = Inr () \<and> fst (restore_utxo S utxo1 m1) = Inr ()
    \<and> get_utxo S m2 = get_utxo S mgr2
    \<and> spent_tombstones m2 = spent_tombstones mgr2 \<and> spent_db m2 = spent_db mgr2
    \<and> get_state m2 = (get_state mgr2)(out1 \<mapsto> Unspent)
    \<and> set (list_utxos_by_address S m2 ''TIME1'') = set (list_utxos_by_address S mgr2 ''TIME1'')"
  unfolding Let_def
  by (rule spend_restore_roundtrip [OF bincode_codec_ok mgr2_reach _ mgr2_get refl refl])
    (use utxo1_fine in \<open>simp add: utxo_fine_def\<close>)

section \<open>Supply figures\<close>

definition unspent_at :: "'s mgr \<Rightarrow> UTXO \<Rightarrow> bool" where
  "unspent_at m u \<longleftrightarrow> get_state m (u_outpoint u) = Some Unspent"

definition dormant_at :: "'s mgr \<Rightarrow> u64 \<Rightarrow> u64 \<Rightarrow> UTXO \<Rightarrow> bool" where
  "dormant_at m height after u \<longleftrightarrow> (case dget (creation_heights m) (u_outpoint u) of
      None \<Rightarrow> False | Some h \<Rightarrow> after < saturating_sub height h)"

definition value_where :: "(UTXO \<Rightarrow> bool) \<Rightarrow> UTXO list \<Rightarrow> nat" where
  "value_where P us = sum_list (map (unat \<circ> u_value) (filter P us))"

lemma value_where_simps [simp]:
  "value_where P [] = 0"
  "value_where P (u # us) = (if P u then unat (u_value u) else 0) + value_where P us"
  by (simp_all add: value_where_def)

lemma value_where_split: "value_where P us = value_where (\<lambda>u. P u \<and> Q u) us + value_where (\<lambda>u. P u \<and> \<not> Q u) us"
  by (induction us) auto

lemma value_where_mono: "(\<And>u. P u \<Longrightarrow> Q u) \<Longrightarrow> value_where P us \<le> value_where Q us"
  by (induction us) (auto intro: add_mono)

lemma supply_fold:
  "fold (supply_step m height after) us (tot, coll, dorm, cnt, unk) =
     (tot + of_nat (value_where (unspent_at m) us),
      coll + of_nat (value_where (\<lambda>u. unspent_at m u \<and> is_collateral_locked m (u_outpoint u)) us),
      dorm + of_nat (value_where (\<lambda>u. unspent_at m u \<and> \<not> is_collateral_locked m (u_outpoint u)
        \<and> dormant_at m height after u) us),
      cnt + length (filter (\<lambda>u. unspent_at m u \<and> \<not> is_collateral_locked m (u_outpoint u)
        \<and> dormant_at m height after u) us),
      unk + of_nat (value_where (\<lambda>u. unspent_at m u \<and> \<not> is_collateral_locked m (u_outpoint u)
        \<and> dget (creation_heights m) (u_outpoint u) = None) us))"
  by (induction us arbitrary: tot coll dorm cnt unk)
    (auto simp: unspent_at_def dormant_at_def get_state_def is_collateral_locked_def
      split: option.split)

text \<open>
  While the stored values sum below 2^64, the supply figures are exact: the total is the value
  of the unspent outputs, the locked part that of those held as collateral, and the total is the
  sum of locked, dormant and adjusted circulating supply, with neither subtraction clamped. The
  supply of unknown age is part of the adjusted circulating one.
\<close>

theorem supply_stats_exact:
  assumes fits: "value_where (\<lambda>_. True) (list_all_utxos ops m) < 2 ^ 64"
    and st: "st = get_supply_stats ops height after m"
  shows "unat (total_unspent_satoshis st) = value_where (unspent_at m) (list_all_utxos ops m)
    \<and> unat (locked_collateral_satoshis st) = value_where
        (\<lambda>u. unspent_at m u \<and> is_collateral_locked m (u_outpoint u)) (list_all_utxos ops m)
    \<and> unat (circulating_satoshis st) + unat (locked_collateral_satoshis st)
        = unat (total_unspent_satoshis st)
    \<and> unat (adjusted_circulating_satoshis st) + unat (dormant_satoshis st)
        = unat (circulating_satoshis st)
    \<and> unknown_age_satoshis st \<le> adjusted_circulating_satoshis st"
proof -
  let ?us = "list_all_utxos ops m" and ?L = "\<lambda>u. is_collateral_locked m (u_outpoint u)"
  define tot where "tot = value_where (unspent_at m) ?us"
  define coll where "coll = value_where (\<lambda>u. unspent_at m u \<and> ?L u) ?us"
  define dorm where
    "dorm = value_where (\<lambda>u. unspent_at m u \<and> \<not> ?L u \<and> dormant_at m height after u) ?us"
  define unk where "unk = value_where (\<lambda>u. unspent_at m u \<and> \<not> ?L u
    \<and> dget (creation_heights m) (u_outpoint u) = None) ?us"
  have t: "tot < 2 ^ 64"
    using fits value_where_mono [of "unspent_at m" "\<lambda>_. True" ?us] by (simp add: tot_def)
  have free: "tot = coll + value_where (\<lambda>u. unspent_at m u \<and> \<not> ?L u) ?us"
    unfolding tot_def coll_def by (rule value_where_split)
  have "value_where (\<lambda>u. unspent_at m u \<and> \<not> ?L u) ?us
      = dorm + value_where (\<lambda>u. (unspent_at m u \<and> \<not> ?L u) \<and> \<not> dormant_at m height after u) ?us"
    using value_where_split [of "\<lambda>u. unspent_at m u \<and> \<not> ?L u" ?us "dormant_at m height after"]
    by (simp add: dorm_def conj_assoc)
  moreover have "unk \<le> value_where (\<lambda>u. (unspent_at m u \<and> \<not> ?L u) \<and> \<not> dormant_at m height after u) ?us"
    unfolding unk_def by (rule value_where_mono) (simp add: dormant_at_def)
  ultimately have le: "coll + dorm + unk \<le> tot" using free by linarith
  have u: "unat (of_nat n :: u64) = n" if "n \<le> tot" for n
    using that t by (simp add: unat_of_nat)
  have s: "st = \<lparr>total_unspent_satoshis = of_nat tot, locked_collateral_satoshis = of_nat coll,
      circulating_satoshis = saturating_sub (of_nat tot) (of_nat coll),
      dormant_satoshis = of_nat dorm, dormant_utxo_count = dormant_utxo_count st,
      adjusted_circulating_satoshis =
        saturating_sub (saturating_sub (of_nat tot) (of_nat coll)) (of_nat dorm),
      unknown_age_satoshis = of_nat unk\<rparr>"
    unfolding st get_supply_stats_def supply_fold list_all_utxos_def [symmetric]
    by (simp add: Let_def tot_def coll_def dorm_def unk_def)
  show ?thesis
    unfolding tot_def [symmetric] coll_def [symmetric]
    by (subst (1 2 3 4 5 6 7 8 9 10) s) (use le in \<open>simp add: u word_le_nat_alt\<close>)
qed

theorem supply_stats_exact_witness:
  "let m = run_calls InMemoryUtxoStorage [(0, CallAdd utxo1)] utxo_manager_new;
     us = list_all_utxos InMemoryUtxoStorage m; st = get_supply_stats InMemoryUtxoStorage 9 3 m
   in unat (total_unspent_satoshis st) = value_where (unspent_at m) us
    \<and> unat (locked_collateral_satoshis st) = value_where
        (\<lambda>u. unspent_at m u \<and> is_collateral_locked m (u_outpoint u)) us
    \<and> unat (circulating_satoshis st) + unat (locked_collateral_satoshis st)
        = unat (total_unspent_satoshis st)
    \<and> unat (adjusted_circulating_satoshis st) + unat (dormant_satoshis st)
        = unat (circulating_satoshis st)
    \<and> unknown_age_satoshis st \<le> adjusted_circulating_satoshis st"
  unfolding Let_def
  by (rule supply_stats_exact [OF _ refl])
    (simp add: list_all_utxos_def utxo_manager_new_def new_with_storage_def add_utxo_def
      store_unspent_def mem_defs utxo1_def)

section \<open>The set hash\<close>

lemma sort_outpoints_unique:
  assumes "distinct (map u_outpoint xs)" and "distinct (map u_outpoint ys)" and "set xs = set ys"
  shows "sort_key (\<lambda>u. (op_txid (u_outpoint u), op_vout (u_outpoint u))) xs =
         sort_key (\<lambda>u. (op_txid (u_outpoint u), op_vout (u_outpoint u))) ys"
proof -
  let ?k = "\<lambda>u. (op_txid (u_outpoint u), op_vout (u_outpoint u))"
  have k: "?k u = ?k v \<longleftrightarrow> u_outpoint u = u_outpoint v" for u v
    by (auto intro: OutPoint.equality)
  have inj: "inj_on ?k (set zs)" if "distinct (map u_outpoint zs)" for zs
    using that k by (auto simp: inj_on_def distinct_map)
  have d: "distinct (map ?k (sort_key ?k zs))" if "distinct (map u_outpoint zs)" for zs
    using that inj [OF that] by (simp add: distinct_map)
  show ?thesis
    by (rule map_sorted_distinct_set_unique [where f = ?k])
      (use assms inj [OF assms(1)] d [OF assms(1)] d [OF assms(2)] in \<open>auto simp del: map_map\<close>)
qed

text \<open>
  The set hash depends on the outputs and their states only: a node on the in-memory backend
  and one on sled that store the same outputs with the same state ranks compute the same hash,
  whatever order their maps iterate in.
\<close>

theorem set_hash_backend_independent:
  assumes C: "codec_ok C storable"
    and s1: "mem_ok (storage m1)" and s2: "sled_ok C (storage m2)"
    and same: "mem_get_utxo (storage m1) = sled_get_utxo C (storage m2)"
    and disc: "\<And>out. state_disc (get_state m1 out) = state_disc (get_state m2 out)"
  shows "calculate_utxo_set_hash X InMemoryUtxoStorage m1
    = calculate_utxo_set_hash X (SledUtxoStorage C) m2"
proof -
  note sled = sled_storage [OF C]
  have "utxo_hash_bytes m1 = utxo_hash_bytes m2"
    using disc by (auto simp: utxo_hash_bytes_def get_state_def)
  moreover have "set (list_all_utxos InMemoryUtxoStorage m1) = set (list_all_utxos (SledUtxoStorage C) m2)"
    using same mem.list [OF s1] utxo_storage.list [OF sled s2]
    by (simp add: list_all_utxos_def InMemoryUtxoStorage_def SledUtxoStorage_def)
  ultimately show ?thesis
    using sort_outpoints_unique [OF mem.list_distinct [OF s1] utxo_storage.list_distinct [OF sled s2]]
    by (simp add: calculate_utxo_set_hash_def list_all_utxos_def)
qed

lemma sled_open_get [simp]: "sled_get_utxo C sled_open out = None"
  by (simp add: sled_get_utxo_def sled_open_def split: option.split)

theorem set_hash_backend_independent_witness:
  "\<forall>X. calculate_utxo_set_hash X InMemoryUtxoStorage (new_with_storage [])
    = calculate_utxo_set_hash X (SledUtxoStorage bincode_codec) (new_with_storage sled_open)"
  by (rule allI, rule set_hash_backend_independent [OF bincode_codec_ok])
    (simp_all add: mem_ok_def new_with_storage_def get_state_def mem_get_eq fun_eq_iff)

section \<open>Reconciliation\<close>

definition utxo_key :: "UTXO \<Rightarrow> OutPoint \<times> u64" where
  "utxo_key u = (u_outpoint u, u_value u)"

lemma utxo_key_out: "fst (utxo_key u) = u_outpoint u"
  by (simp add: utxo_key_def)

lemma get_utxo_diff_alt:
  "get_utxo_diff ops m remote =
     (map fst (filter (\<lambda>k. k \<notin> utxo_key ` set remote) (remdups (map utxo_key (list_all_utxos ops m)))),
      filter (\<lambda>u. utxo_key u \<notin> utxo_key ` set (list_all_utxos ops m)) remote)"
  by (simp add: get_utxo_diff_def Let_def utxo_key_def [abs_def])

context utxo_storage
begin

lemma reconcile_remove_view:
  assumes "ok (storage m)"
  shows "ok (storage (reconcile_remove ops out m))"
    and "st_get ops (storage (reconcile_remove ops out m)) = (st_get ops (storage m))(out := None)"
    and "get_state (reconcile_remove ops out m) = (get_state m)(out := None)"
    and "spent_tombstones (reconcile_remove ops out m) = spent_tombstones m"
  using assms by (auto simp: reconcile_remove_def Let_def store_simps get_state_def)

lemma reconcile_removes_view:
  "ok (storage m) \<Longrightarrow>
   ok (storage (fold (reconcile_remove ops) outs m)) \<and>
   st_get ops (storage (fold (reconcile_remove ops) outs m)) out =
     (if out \<in> set outs then None else st_get ops (storage m) out) \<and>
   get_state (fold (reconcile_remove ops) outs m) out =
     (if out \<in> set outs then None else get_state m out) \<and>
   spent_tombstones (fold (reconcile_remove ops) outs m) = spent_tombstones m"
  by (induction outs arbitrary: m) (simp_all add: reconcile_remove_view)

lemma add_new_view:
  assumes "ok (storage m)" and "storable u"
    and "u_outpoint u \<notin> spent_tombstones m" and "get_state m (u_outpoint u) = None"
  shows "ok (storage (snd (add_utxo ops u m)))"
    and "st_get ops (storage (snd (add_utxo ops u m))) = put_utxo u (st_get ops (storage m))"
    and "get_state (snd (add_utxo ops u m)) = (get_state m)(u_outpoint u \<mapsto> Unspent)"
  using assms
  by (simp_all add: add_utxo_def store_unspent_def get_state_def store_simps put_utxo_def fun_eq_iff)

lemma adds_view:
  "ok (storage m) \<Longrightarrow> distinct (map u_outpoint us) \<Longrightarrow>
   \<forall>u\<in>set us. storable u \<and> u_outpoint u \<notin> spent_tombstones m \<and> get_state m (u_outpoint u) = None \<Longrightarrow>
   ok (storage (fold (\<lambda>u m. snd (add_utxo ops u m)) us m)) \<and>
   st_get ops (storage (fold (\<lambda>u m. snd (add_utxo ops u m)) us m)) = fold put_utxo us (st_get ops (storage m))"
proof (induction us arbitrary: m)
  case (Cons u us)
  let ?m = "snd (add_utxo ops u m)"
  have v: "ok (storage ?m)" "st_get ops (storage ?m) = put_utxo u (st_get ops (storage m))"
    "get_state ?m = (get_state m)(u_outpoint u \<mapsto> Unspent)"
    using Cons.prems by (auto intro: add_new_view)
  have "\<forall>v\<in>set us. storable v \<and> u_outpoint v \<notin> spent_tombstones ?m \<and> get_state ?m (u_outpoint v) = None"
    using Cons.prems by (auto simp: v(3) tombstones_add image_iff)
  with Cons.IH [OF v(1)] Cons.prems(2) v(2) show ?case by simp
qed simp

end

lemma fold_put_utxo:
  "distinct (map u_outpoint us) \<Longrightarrow>
   fold put_utxo us f out = Some u \<longleftrightarrow>
     (u \<in> set us \<and> u_outpoint u = out) \<or> (out \<notin> u_outpoint ` set us \<and> f out = Some u)"
  by (induction us arbitrary: f) (auto simp: put_utxo_def image_iff)

context utxo_storage
begin

lemma stored_iff:
  assumes m: "ok (storage m)"
  shows "v \<in> set (list_all_utxos ops m) \<and> u_outpoint v = out \<longleftrightarrow> st_get ops (storage m) out = Some v"
  using listed_iff [OF m, of v] get_key [OF m, of out v] by (auto simp: list_all_utxos_def)

lemma diff_outs:
  assumes m: "ok (storage m)" and d: "get_utxo_diff ops m remote = (outs, us)"
  shows "out \<in> set outs \<longleftrightarrow>
    (\<exists>v. st_get ops (storage m) out = Some v \<and> utxo_key v \<notin> utxo_key ` set remote)"
proof -
  let ?L = "list_all_utxos ops m"
  have "set outs = fst ` {x \<in> utxo_key ` set ?L. x \<notin> utxo_key ` set remote}"
    using d by (auto simp: get_utxo_diff_alt)
  also have "\<dots> = u_outpoint ` {v \<in> set ?L. utxo_key v \<notin> utxo_key ` set remote}"
    by (force simp: utxo_key_out)
  finally have "set outs = u_outpoint ` {v \<in> set ?L. utxo_key v \<notin> utxo_key ` set remote}" .
  then have "out \<in> set outs \<longleftrightarrow>
      (\<exists>v. (v \<in> set ?L \<and> u_outpoint v = out) \<and> utxo_key v \<notin> utxo_key ` set remote)"
    by (simp only:) blast
  then show ?thesis by (simp only: stored_iff [OF m])
qed

lemma diff_us:
  assumes m: "ok (storage m)" and d: "get_utxo_diff ops m remote = (outs, us)"
  shows "u \<in> set us \<longleftrightarrow> u \<in> set remote \<and>
    (\<nexists>v. st_get ops (storage m) (u_outpoint u) = Some v \<and> utxo_key v = utxo_key u)"
proof -
  let ?L = "list_all_utxos ops m"
  have 1: "u \<in> set us \<longleftrightarrow> u \<in> set remote \<and> utxo_key u \<notin> utxo_key ` set ?L"
    using d by (auto simp: get_utxo_diff_alt)
  have "utxo_key v = utxo_key u \<Longrightarrow> u_outpoint v = u_outpoint u" for v
    by (simp add: utxo_key_def)
  moreover have "utxo_key u \<in> utxo_key ` set ?L \<longleftrightarrow> (\<exists>v. v \<in> set ?L \<and> utxo_key v = utxo_key u)"
    unfolding image_iff by metis
  ultimately have "utxo_key u \<in> utxo_key ` set ?L \<longleftrightarrow>
      (\<exists>v. (v \<in> set ?L \<and> u_outpoint v = u_outpoint u) \<and> utxo_key v = utxo_key u)"
    by blast
  with 1 show ?thesis by (simp only: stored_iff [OF m])
qed

lemma reconcile_converges:
  assumes m: "ok (storage m)" and T: "\<forall>out\<in>spent_tombstones m. st_get ops (storage m) out = None"
    and rd: "distinct (map u_outpoint remote)" and rs: "\<forall>u\<in>set remote. storable u"
    and new: "\<forall>u\<in>set remote. st_get ops (storage m) (u_outpoint u) \<noteq> None \<or>
      (get_state m (u_outpoint u) = None \<and> u_outpoint u \<notin> spent_tombstones m)"
    and d: "get_utxo_diff ops m remote = (outs, us)"
  shows "utxo_key ` set (list_all_utxos ops (snd (reconcile_utxo_state ops outs us m))) = utxo_key ` set remote"
proof -
  let ?get = "st_get ops (storage m)" and ?m1 = "fold (reconcile_remove ops) outs m"
  let ?m2 = "fold (\<lambda>u m. snd (add_utxo ops u m)) us ?m1"
  note outs = diff_outs [OF m d] and us = diff_us [OF m d]
  have ud: "distinct (map u_outpoint us)"
    using d rd by (auto simp: get_utxo_diff_alt distinct_map_filter)
  have uniq: "u = w" if "u \<in> set remote" "w \<in> set remote" "u_outpoint u = u_outpoint w" for u w
    using that rd by (auto simp: distinct_map inj_on_def)
  note v1 = reconcile_removes_view [OF m, of outs]
  have fresh: "storable u \<and> u_outpoint u \<notin> spent_tombstones ?m1 \<and> get_state ?m1 (u_outpoint u) = None"
    if u: "u \<in> set us" for u
  proof (cases "?get (u_outpoint u)")
    case None
    then show ?thesis using v1 new rs u us [of u] by auto
  next
    case (Some v)
    then have "u_outpoint v = u_outpoint u" using get_key [OF m] by blast
    then have "utxo_key v \<notin> utxo_key ` set remote"
      using u us [of u] Some uniq [of _ u] by (auto simp: utxo_key_def)
    then have "u_outpoint u \<in> set outs" using outs Some by blast
    then show ?thesis using v1 T Some rs u us [of u] by auto
  qed
  have v2: "ok (storage ?m2)" "st_get ops (storage ?m2) = fold put_utxo us (st_get ops (storage ?m1))"
    using adds_view [of ?m1 us] v1 ud fresh by blast+
  have mem: "u \<in> set (list_all_utxos ops ?m2) \<longleftrightarrow> u \<in> set us \<or>
      (u_outpoint u \<notin> u_outpoint ` set us \<and> u_outpoint u \<notin> set outs \<and> ?get (u_outpoint u) = Some u)" for u
    using listed_iff [OF v2(1), of u] v1
    by (auto simp: list_all_utxos_def v2(2) fold_put_utxo [OF ud])
  have "utxo_key ` set (list_all_utxos ops ?m2) \<subseteq> utxo_key ` set remote"
    using mem outs us by blast
  moreover have "utxo_key u \<in> utxo_key ` set (list_all_utxos ops ?m2)" if u: "u \<in> set remote" for u
  proof (cases "u \<in> set us")
    case False
    then obtain v where v: "?get (u_outpoint u) = Some v" "utxo_key v = utxo_key u" using u us by blast
    have k: "u_outpoint v = u_outpoint u" using v(2) by (simp add: utxo_key_def)
    have "u_outpoint v \<notin> set outs" using outs v u k by (metis image_eqI option.inject)
    moreover have "u_outpoint v \<notin> u_outpoint ` set us" using uniq us u False k by (metis imageE)
    ultimately show ?thesis using mem [of v] v k by (metis image_eqI)
  qed (use mem in blast)
  ultimately show ?thesis by (auto simp: reconcile_utxo_state_def)
qed

end

text \<open>
  C38. Reconciliation converges: removing and adding what \<open>get_utxo_diff\<close> reports against a
  peer's list leaves the node with exactly the peer's outpoints and values, provided that list has
  no outpoint twice, and each of its outpoints is either stored at the node or neither tracked in any
  state nor tombstoned there. (As before, one outpoint comes with one address.)
\<close>

theorem reconcile_reaches_peer:
  assumes C: "codec_ok C storable"
    and m: "mgr_reach (SledUtxoStorage C) (sled_ok C) (utxo_fine storable addr_of) m"
    and rd: "distinct (map u_outpoint remote)" and rs: "list_all storable remote"
    and new: "list_all (\<lambda>u. get_utxo (SledUtxoStorage C) m (u_outpoint u) \<noteq> Inl NotFound \<or>
      get_state m (u_outpoint u) = None \<and> \<not> is_tombstoned m (u_outpoint u)) remote"
    and d: "get_utxo_diff (SledUtxoStorage C) m remote = (outs, us)"
  shows "utxo_key ` set (list_all_utxos (SledUtxoStorage C)
      (snd (reconcile_utxo_state (SledUtxoStorage C) outs us m))) = utxo_key ` set remote"
proof -
  note sled = sled_storage [OF C]
  have l: "ledger_ok (SledUtxoStorage C) (sled_ok C) addr_of (ledger m)"
    using sled m by (rule utxo_storage.reach_ledger_ok)
  have T: "\<forall>out\<in>spent_tombstones m. st_get (SledUtxoStorage C) (storage m) out = None"
    using l by (simp add: ledger_ok_def ledger_def)
  have stored: "get_utxo (SledUtxoStorage C) m out \<noteq> Inl NotFound \<longleftrightarrow>
      st_get (SledUtxoStorage C) (storage m) out \<noteq> None" for out
    by (simp add: get_utxo_def split: option.split)
  show ?thesis
    by (rule utxo_storage.reconcile_converges [OF sled utxo_storage.ledger_okD [OF sled l] T rd _ _ d])
      (use rs new in \<open>simp_all only: list_all_iff stored is_tombstoned_def\<close>)
qed

theorem reconcile_reaches_peer_witness:
  "let S = SledUtxoStorage bincode_codec; u = utxo1\<lparr>u_value := 8\<rparr>;
     d = get_utxo_diff S mgr2 [u]
   in utxo_key ` set (list_all_utxos S (snd (reconcile_utxo_state S (fst d) (snd d) mgr2)))
     = utxo_key ` set [u]"
proof -
  let ?u = "utxo1\<lparr>u_value := 8\<rparr>"
  have fits: "utxo_fits ?u"
    by (simp add: utxo1_def utxo_fits_def out1_def hash256_ok_def zero_hash_def)
  have out: "u_outpoint ?u = out1" by simp
  show ?thesis
    unfolding Let_def
    by (rule reconcile_reaches_peer [OF bincode_codec_ok mgr2_reach _ _ _ prod.collapse [symmetric]])
      (simp_all add: fits mgr2_get del: utxo1_outpoint add: out)
qed

section \<open>What may be spent is stored\<close>

fun live :: "UTXOState \<Rightarrow> bool" where
  "live Unspent = True"
| "live (Locked _ _) = True"
| "live _ = False"

definition live_at :: "'s mgr \<Rightarrow> OutPoint \<Rightarrow> bool" where
  "live_at m out = (case get_state m out of None \<Rightarrow> False | Some st \<Rightarrow> live st)"

definition live_ok :: "'s UtxoStorage \<Rightarrow> 's mgr \<Rightarrow> bool" where
  "live_ok ops m \<longleftrightarrow> (\<forall>out. live_at m out \<longrightarrow> st_get ops (storage m) out \<noteq> None)"

text \<open>
  The two raw writes of a state, \<open>update_state\<close> and \<open>force_unlock\<close>, do not look into the store: they
  are to make an output live only if it is stored.
\<close>

fun keeps_stored :: "'s UtxoStorage \<Rightarrow> 's mgr \<Rightarrow> mgr_call \<Rightarrow> bool" where
  "keeps_stored ops m (CallUpdate out st) = (live st \<longrightarrow> st_get ops (storage m) out \<noteq> None)"
| "keeps_stored ops m (CallForceUnlock out) =
     (get_state m out \<noteq> None \<and> \<not> is_collateral_locked m out \<longrightarrow> st_get ops (storage m) out \<noteq> None)"
| "keeps_stored ops m _ = True"

fun all_keep_stored :: "'s UtxoStorage \<Rightarrow> (i64 \<times> mgr_call) list \<Rightarrow> 's mgr \<Rightarrow> bool" where
  "all_keep_stored ops [] m = True"
| "all_keep_stored ops ((now, c) # cs) m =
     (keeps_stored ops m c \<and> all_keep_stored ops cs (exec_call ops now c m))"

lemma live_at_set_state [simp]:
  "live_at (set_state out st m) o' = (if o' = out then live st else live_at m o')"
  by (simp add: live_at_def)

lemma live_at_upd [simp]:
  "live_at (m\<lparr>locked_collaterals := b\<rparr>) out = live_at m out"
  "live_at (m\<lparr>collateral_db := c\<rparr>) out = live_at m out"
  "live_at (m\<lparr>pubkey_cache := d\<rparr>) out = live_at m out"
  "live_at (m\<lparr>creation_heights := e\<rparr>) out = live_at m out"
  "live_at (m\<lparr>storage := s\<rparr>) out = live_at m out"
  "live_at (m\<lparr>address_index := i\<rparr>) out = live_at m out"
  "live_at (m\<lparr>utxo_states := dput out' st (utxo_states m)\<rparr>) out =
     (if out = out' then live st else live_at m out)"
  "live_at (m\<lparr>utxo_states := dremove out' (utxo_states m)\<rparr>) out = (out \<noteq> out' \<and> live_at m out)"
  by (simp_all add: live_at_def get_state_def)

lemma live_at_lock: "live_at (snd (lock_utxo now o' tx m)) out = live_at m out"
  by (auto simp: lock_utxo_def live_at_def get_state_def split: option.split UTXOState.split)

lemma live_at_unlock: "live_at (snd (unlock_utxo o' tx m)) out = live_at m out"
  by (auto simp: unlock_utxo_def live_at_def get_state_def split: option.split UTXOState.split)

lemma live_at_lock_loop: "live_at (snd (lock_utxos_loop now tx locked outs m)) out = live_at m out"
proof (induction outs arbitrary: locked m)
  case (Cons o' outs)
  have "live_at (fold (\<lambda>lo m. snd (unlock_utxo lo tx m)) locked n) out = live_at n out" for n :: "'a mgr"
    by (rule fold_frame [where f = "\<lambda>m. live_at m out"]) (rule live_at_unlock)
  with Cons.IH live_at_lock [of now o' tx m out] show ?case
    by (auto split: prod.split sum.split)
qed simp

lemma live_at_purge_one: "live_at (purge_one o' m) out = live_at m out"
  by (auto simp: purge_one_def live_at_def get_state_def split: option.split UTXOState.split)

lemma live_at_purge: "live_at (snd (purge_stale_collateral_locks m)) out = live_at m out"
  by (simp add: purge_stale_collateral_locks_def Let_def
      fold_frame [where f = "\<lambda>m. live_at m out"] live_at_purge_one)

lemma live_at_rebuild: "live_at (snd (rebuild_collateral_locks now es m)) out = live_at m out"
proof -
  have "live_at (snd (rebuild_one now e a)) out = live_at (snd a) out" for e and a :: "nat \<times> 'a mgr"
    by (induction now e a rule: rebuild_one.induct) (auto simp: live_at_def get_state_def)
  then have "live_at (snd (fold (rebuild_one now) es (0, m))) out = live_at m out"
    by (simp add: fold_pair_frame [where f = "\<lambda>m. live_at m out" and g = "rebuild_one now"])
  then show ?thesis
    by (simp add: rebuild_collateral_locks_def case_prod_unfold Let_def live_at_purge)
qed

lemma live_at_apply: "live_at (apply_state_updates ups m) out \<Longrightarrow> live_at m out"
proof -
  have ord: "live r \<Longrightarrow> state_ord st < state_ord r \<Longrightarrow> live st" for st r
    by (cases st; cases r) auto
  have one: "live_at (apply_update up n) out \<Longrightarrow> live_at n out" for up and n :: "'a mgr"
    by (cases up) (auto simp: live_at_def apply_update_get intro: ord split: option.splits if_splits)
  show "live_at (apply_state_updates ups m) out \<Longrightarrow> live_at m out"
    unfolding apply_state_updates_def by (induction ups arbitrary: m) (auto dest: one)
qed

lemma live_at_cleanup: "live_at (snd (cleanup_expired_locks now m)) out = live_at m out"
proof -
  have "expired_lock now st \<Longrightarrow> live st" for st by (cases st) auto
  then show ?thesis
    by (auto simp: cleanup_expired_locks_def live_at_def get_state_def split: option.split)
qed

lemma live_at_unlock_all: "live_at (snd (unlock_all_collaterals m)) out = live_at m out"
  by (simp add: unlock_all_collaterals_def Let_def fold_frame [where f = "\<lambda>m. live_at m out"]
      unlock_collateral_def)

lemmas live_at_rules = live_at_lock live_at_unlock live_at_lock_loop live_at_purge live_at_rebuild
  live_at_cleanup live_at_unlock_all

lemma live_at_frame:
  assumes "\<not> ledger_call c" and "keeps_stored ops m c" and "live_at (exec_call ops now c m) out"
  shows "live_at m out \<or> st_get ops (storage m) out \<noteq> None"
proof (cases c)
  case (CallApply ups)
  then show ?thesis using assms(3) live_at_apply [of ups m out] by simp
next
  case (CallForceUnlock o')
  then show ?thesis
    using assms(2,3) by (auto simp: force_unlock_def dhas_def get_state_def split: if_splits)
qed (use assms in \<open>auto simp: live_at_rules lock_utxos_atomic_def update_state_def
      record_utxo_height_def register_pubkey_def lock_collateral_inner_def unlock_collateral_def
      list_locked_collaterals_def save_local_collateral_outpoint_def Let_def
      release_stale_local_collateral_def
      split: option.splits UTXOState.splits if_splits\<close>)

lemma live_at_release [simp]: "live_at (release_collateral o' m) out = live_at m out"
  by (simp add: release_collateral_def unlock_collateral_def)

lemma live_at_unindex [simp]: "live_at (unindex_stored ops o' m) out = live_at m out"
  by (simp add: unindex_stored_def remove_from_address_index_def split: option.split)

lemma live_at_record_spent [simp]: "live_at (record_spent o' m) out = live_at m out"
  by (simp add: record_spent_def live_at_def get_state_def)

lemma live_at_lift [simp]: "live_at (lift_tombstone o' m) out = live_at m out"
  by (simp add: lift_tombstone_def live_at_def get_state_def)

lemma live_okI: "(\<And>out. live_at m out \<Longrightarrow> st_get ops (storage m) out \<noteq> None) \<Longrightarrow> live_ok ops m"
  by (simp add: live_ok_def)

lemma live_okD: "live_ok ops m \<Longrightarrow> live_at m out \<Longrightarrow> st_get ops (storage m) out \<noteq> None"
  by (simp add: live_ok_def)

text \<open>The store and the live outputs after dropping one output from both.\<close>

definition dropped :: "'s UtxoStorage \<Rightarrow> OutPoint \<Rightarrow> 's mgr \<Rightarrow> 's mgr \<Rightarrow> bool" where
  "dropped ops o' m m' \<longleftrightarrow> storage m' = removed ops (storage m) o' \<and>
     (\<forall>out. live_at m' out \<longrightarrow> out \<noteq> o' \<and> live_at m out)"

context utxo_storage
begin

lemma dropped_live_ok: "ok (storage m) \<Longrightarrow> dropped ops o' m m' \<Longrightarrow> live_ok ops m \<Longrightarrow> live_ok ops m'"
  by (auto simp: live_ok_def dropped_def store_simps)

lemma dropped_cases:
  assumes "ok (storage m)"
  shows "dropped ops o' m (snd (spend_utxo ops now o' m))"
    and "dropped ops o' m (snd (remove_utxo ops o' m))"
    and "dropped ops o' m (reconcile_remove ops o' m)"
    and "\<not> refuses_finalize m o' tx \<Longrightarrow> dropped ops o' m (mark_timevote_finalized ops now o' tx m)"
    and "dropped ops o' m (snd (archive_spend ops now o' tx h m))"
  using assms
  by (auto simp: dropped_def spend_utxo_def remove_utxo_def reconcile_remove_def archive_spend_def
      mark_timevote_finalized_def Let_def store_simps record_spent_def set_state_def)
    (simp_all add: live_at_def get_state_def split: if_splits)

lemma live_ok_store:
  assumes "ok (storage m)" and "storable u" and "live_ok ops m"
  shows "live_ok ops (snd (store_unspent ops u m))"
proof (rule live_okI)
  fix out
  assume "live_at (snd (store_unspent ops u m)) out"
  then have "out = u_outpoint u \<or> live_at m out"
    using assms by (simp add: store_unspent_def store_simps live_at_def get_state_def split: if_splits)
  then show "st_get ops (storage (snd (store_unspent ops u m))) out \<noteq> None"
    using assms by (auto simp: store_unspent_def store_simps dest: live_okD)
qed

lemma live_ok_add:
  assumes "ok (storage m)" and "storable u" and "live_ok ops m"
  shows "live_ok ops (snd (add_utxo ops u m))"
  using assms live_ok_store [OF assms]
  by (simp add: add_utxo_def split: option.split UTXOState.split)

lemma live_ok_restore:
  assumes "ok (storage m)" and "storable u" and "live_ok ops m"
  shows "live_ok ops (snd (restore_utxo ops u m))"
proof -
  have "live_ok ops (lift_tombstone (u_outpoint u) m)"
    using assms(3) by (simp add: live_ok_def) (simp add: lift_tombstone_def)
  then have "live_ok ops (snd (store_unspent ops u (lift_tombstone (u_outpoint u) m)))"
    using assms by (intro live_ok_store) (simp_all add: lift_tombstone_def)
  moreover have "live_ok ops (m\<lparr>address_index := i\<rparr>)" for i
    using assms(3) by (simp add: live_ok_def)
  ultimately show ?thesis by (simp add: restore_utxo_def)
qed

lemma live_ok_reconcile:
  assumes m: "ledger_ok ops ok addr_of (ledger m)" and us: "list_all (utxo_fine storable addr_of) us"
    and l: "live_ok ops m"
  shows "live_ok ops (snd (reconcile_utxo_state ops outs us m))"
proof -
  let ?P = "\<lambda>m. ledger_ok ops ok addr_of (ledger m) \<and> live_ok ops m"
  have "?P (fold (reconcile_remove ops) outs m)"
    by (rule fold_invariant [where Q = "\<lambda>_. True"])
      (use m l in \<open>auto intro: reconcile_remove_ok dropped_live_ok dropped_cases(3) ledger_okD\<close>)
  then have "?P (fold (\<lambda>u m. snd (add_utxo ops u m)) us (fold (reconcile_remove ops) outs m))"
    by (rule fold_invariant [where Q = "utxo_fine storable addr_of", rotated])
      (use us in \<open>auto simp: list_all_iff utxo_fine_def intro: add_utxo_ok live_ok_add ledger_okD\<close>)
  then show ?thesis by (simp add: reconcile_utxo_state_def)
qed

lemma live_ok_startup:
  assumes "ok s"
  shows "live_ok ops (startup ops (Inr locks) (Inr T) s)"
  by (rule live_okI)
    (use startup_view(3,4) [OF assms, of locks T] in
      \<open>auto simp: live_at_def get_state_def split: if_splits option.splits\<close>)

lemma live_ok_exec:
  assumes m: "ledger_ok ops ok addr_of (ledger m)" and l: "live_ok ops m" and k: "keeps_stored ops m c"
    and us: "list_all (utxo_fine storable addr_of) (call_utxos c)"
  shows "live_ok ops (exec_call ops now c m)"
proof (cases "ledger_call c")
  case True
  note s = ledger_okD [OF m]
  note dl = dropped_live_ok [OF s _ l]
  show ?thesis
  proof (cases c)
    case (CallCommit o' tx h)
    then show ?thesis
      using l dl [OF dropped_cases(5) [OF s]]
      by (simp add: commit_spend_def split: option.split UTXOState.split)
  next
    case (CallFinalize o' tx)
    then show ?thesis
      using l dl [OF dropped_cases(4) [OF s]]
      by (cases "refuses_finalize m o' tx") (simp_all add: mark_timevote_finalized_def)
  next
    case CallClear
    then show ?thesis
      by (simp add: clear_all_def s store_simps live_ok_def live_at_def get_state_def)
  qed (use True s l us live_ok_startup [OF s] dl [OF dropped_cases(1) [OF s]]
        dl [OF dropped_cases(2) [OF s]] live_ok_reconcile [OF m _ l] in
      \<open>auto simp: live_ok_add live_ok_restore utxo_fine_def\<close>)
next
  case False
  then have "storage (exec_call ops now c m) = storage m"
    using exec_call_frame [of c ops now m] by (simp add: ledger_def)
  then show ?thesis
    using live_at_frame [OF False k] l by (auto simp: live_ok_def)
qed

lemma live_ok_run:
  "ledger_ok ops ok addr_of (ledger m) \<Longrightarrow> live_ok ops m \<Longrightarrow> all_keep_stored ops cs m \<Longrightarrow>
   list_all (\<lambda>(_, c). list_all (utxo_fine storable addr_of) (call_utxos c)) cs \<Longrightarrow>
     ledger_ok ops ok addr_of (ledger (run_calls ops cs m)) \<and> live_ok ops (run_calls ops cs m)"
proof (induction cs arbitrary: m)
  case (Cons nc cs)
  obtain now c where nc: "nc = (now, c)" by (cases nc)
  have us: "list_all (utxo_fine storable addr_of) (call_utxos c)" using Cons.prems(4) nc by simp
  have "ledger_ok ops ok addr_of (ledger (exec_call ops now c m))"
    using Cons.prems(1) us by (rule exec_call_ok)
  moreover have "live_ok ops (exec_call ops now c m)"
    using Cons.prems(1-3) us nc by (intro live_ok_exec) simp_all
  ultimately show ?case using Cons.IH Cons.prems nc by simp
qed simp

end

text \<open>
  C24. What may be spent exists: on the sled backend, from a start-up on, an output that
  \<open>is_spendable\<close> accepts is in the store and is not tombstoned, as long as the raw writes
  \<open>update_state\<close> and \<open>force_unlock\<close> make no output live that is not stored at that moment, whether
  spent before or never known, and all outputs handed over for one outpoint carry one address.
\<close>

theorem spendable_is_stored:
  assumes C: "codec_ok C storable" and s: "sled_ok C s"
    and fine: "list_all (utxo_fine storable addr_of) (st_list (SledUtxoStorage C) s)"
    and m: "m = startup (SledUtxoStorage C) (Inr locks) (Inr T) s"
    and cs: "list_all (\<lambda>(_, c). list_all (utxo_fine storable addr_of) (call_utxos c)) cs"
    and k: "all_keep_stored (SledUtxoStorage C) cs m"
    and sp: "is_spendable now (run_calls (SledUtxoStorage C) cs m) out by_txid"
  shows "get_utxo (SledUtxoStorage C) (run_calls (SledUtxoStorage C) cs m) out \<noteq> Inl NotFound
    \<and> \<not> is_tombstoned (run_calls (SledUtxoStorage C) cs m) out"
proof -
  let ?S = "SledUtxoStorage C" and ?m = "run_calls (SledUtxoStorage C) cs m"
  note sled = sled_storage [OF C]
  have "ledger_ok ?S (sled_ok C) addr_of (ledger m)"
    unfolding m by (rule utxo_storage.reach_ledger_ok [OF sled mgr_reach.start [of "sled_ok C", OF s fine]])
  moreover have "live_ok ?S m"
    unfolding m by (rule utxo_storage.live_ok_startup [OF sled s])
  ultimately have inv: "ledger_ok ?S (sled_ok C) addr_of (ledger ?m)" "live_ok ?S ?m"
    using utxo_storage.live_ok_run [OF sled _ _ k cs] by blast+
  have "live_at ?m out"
    using sp by (auto simp: is_spendable_def live_at_def get_state_def split: option.splits UTXOState.splits)
  then have g: "st_get ?S (storage ?m) out \<noteq> None" using inv(2) by (simp add: live_ok_def)
  moreover have "out \<notin> spent_tombstones ?m" using g inv(1) by (auto simp: ledger_ok_def ledger_def)
  ultimately show ?thesis by (auto simp: get_utxo_def is_tombstoned_def)
qed

lemma mgr2_state: "get_state mgr2 = [out1 \<mapsto> Unspent]" "locked_collaterals mgr2 = []"
proof -
  have "utxo_fits utxo1" using utxo1_fine by (simp add: utxo_fine_def)
  then show "get_state mgr2 = [out1 \<mapsto> Unspent]" "locked_collaterals mgr2 = []"
    by (simp_all add: mgr2_def startup_def enable_collateral_persistence_def new_with_storage_def
        enable_spent_persistence_def initialize_states_def load_persisted_collateral_locks_def
        add_utxo_def store_unspent_def get_state_def Let_def fun_eq_iff)
      (simp_all add: sled_defs bincode_codec_def sled_open_def)
qed

theorem spendable_is_stored_witness:
  "let S = SledUtxoStorage bincode_codec
   in get_utxo S mgr2 out1 \<noteq> Inl NotFound \<and> \<not> is_tombstoned mgr2 out1"
  unfolding Let_def mgr2_def
  by (rule spendable_is_stored [OF bincode_codec_ok sled_open_ok(1) _ refl, where now = 0
        and by_txid = None and addr_of = "\<lambda>_. ''TIME1''"])
    (simp_all add: mgr2_def [simplified, symmetric] is_spendable_def is_collateral_locked_def
      mgr2_state(2) get_state_def [symmetric] mgr2_state(1))

text \<open>
  The condition on \<open>update_state\<close> is needed. The purge of banned transactions sets finalized inputs
  back to unspent with it; the output is then offered as spendable although it is no longer stored.
\<close>

lemma reset_of_finalized_is_phantom:
  "let m = run_calls InMemoryUtxoStorage
       [(0, CallAdd utxo1), (1, CallFinalize out1 tx_a), (2, CallUpdate out1 Unspent)] utxo_manager_new
   in is_spendable 3 m out1 None \<and> get_utxo InMemoryUtxoStorage m out1 = Inl NotFound
     \<and> is_tombstoned m out1"
  by (simp add: utxo_manager_new_def new_with_storage_def add_utxo_def store_unspent_def mem_defs
      mark_timevote_finalized_def refuses_finalize_def get_state_def unindex_stored_def
      remove_from_address_index_def record_spent_def set_state_def update_state_def is_spendable_def
      is_collateral_locked_def get_utxo_def is_tombstoned_def)

end
