(* ===== verification/Base58.thy ===== *)
theory Base58
  imports Core_Types
begin

text \<open>
  The base58 codec of \<open>src/crypto/base58.rs\<close>, on the machine integers of the source. Both loops
  multiply a little-endian number by one base and add a digit, carrying in the other base; the
  section on positional numbers states this once for both, over the natural numbers.
\<close>

section \<open>Positional numbers\<close>

text \<open>The value of a little-endian digit list, and the digits of a number.\<close>

primrec digits_val :: "nat \<Rightarrow> nat list \<Rightarrow> nat" where
  "digits_val B [] = 0"
| "digits_val B (d # ds) = d + B * digits_val B ds"

fun digits_of :: "nat \<Rightarrow> nat \<Rightarrow> nat list" where
  "digits_of B c = (if c = 0 \<or> B < 2 then [] else c mod B # digits_of B (c div B))"

declare digits_of.simps [simp del]

lemma digits_of_0 [simp]: "digits_of B 0 = []"
  by (simp add: digits_of.simps)

lemma digits_of_pos: "0 < c \<Longrightarrow> 2 \<le> B \<Longrightarrow> digits_of B c = c mod B # digits_of B (c div B)"
  by (subst digits_of.simps) simp

text \<open>Multiply by \<open>M\<close> and add \<open>c\<close>, with the carry in base \<open>B\<close>.\<close>

fun madd :: "nat \<Rightarrow> nat \<Rightarrow> nat \<Rightarrow> nat list \<Rightarrow> nat list" where
  "madd B M c [] = digits_of B c"
| "madd B M c (d # ds) = (c + d * M) mod B # madd B M ((c + d * M) div B) ds"

definition digits_ok :: "nat \<Rightarrow> nat list \<Rightarrow> bool" where
  "digits_ok B ds \<longleftrightarrow> (\<forall>d\<in>set ds. d < B) \<and> (ds \<noteq> [] \<longrightarrow> last ds \<noteq> 0)"

lemma digits_ok_Nil [simp]: "digits_ok B []"
  by (simp add: digits_ok_def)

lemma digits_ok_Cons:
  "digits_ok B (d # ds) \<longleftrightarrow> d < B \<and> digits_ok B ds \<and> (ds = [] \<longrightarrow> d \<noteq> 0)"
  by (auto simp: digits_ok_def)

lemma digits_of_val: "2 \<le> B \<Longrightarrow> digits_val B (digits_of B c) = c"
proof (induction B c rule: digits_of.induct)
  case (1 B c)
  then show ?case by (cases "c = 0") (auto simp: digits_of_pos)
qed

lemma digits_of_ok: "2 \<le> B \<Longrightarrow> digits_ok B (digits_of B c)"
proof (induction B c rule: digits_of.induct)
  case (1 B c)
  show ?case
  proof (cases "c = 0")
    case False
    have "digits_of B (c div B) = [] \<Longrightarrow> c mod B \<noteq> 0"
      using False \<open>2 \<le> B\<close> by (metis digits_of_val digits_val.simps(1) div_mult_mod_eq add.right_neutral mult_0)
    then show ?thesis using 1 False by (simp add: digits_of_pos digits_ok_Cons)
  qed simp
qed

lemma digits_val_pos: "digits_ok B ds \<Longrightarrow> ds \<noteq> [] \<Longrightarrow> 0 < digits_val B ds"
  by (induction ds) (auto simp: digits_ok_Cons)

lemma digits_of_unique: "2 \<le> B \<Longrightarrow> digits_ok B ds \<Longrightarrow> digits_of B (digits_val B ds) = ds"
proof (induction ds)
  case (Cons d ds)
  have "0 < digits_val B (d # ds)" using Cons.prems(2) by (rule digits_val_pos) simp
  with Cons show ?case by (simp add: digits_of_pos digits_ok_Cons)
qed simp

lemma madd_eq:
  assumes "2 \<le> B" and "0 < M" and "digits_ok B ds"
  shows "madd B M c ds = digits_of B (M * digits_val B ds + c)"
  using assms(3)
proof (induction ds arbitrary: c)
  case (Cons d ds)
  have pos: "0 < M * digits_val B (d # ds) + c"
    using Cons.prems assms(2) by (simp del: digits_val.simps add: digits_val_pos)
  have e: "M * digits_val B (d # ds) + c = (c + d * M) + B * (M * digits_val B ds)"
    by (simp add: algebra_simps)
  have "madd B M c (d # ds) = (c + d * M) mod B # digits_of B (M * digits_val B ds + (c + d * M) div B)"
    using Cons by (simp add: digits_ok_Cons)
  also have "\<dots> = digits_of B (M * digits_val B (d # ds) + c)"
    using assms(1) pos unfolding e by (subst digits_of_pos) simp_all
  finally show ?case .
qed simp

lemma digits_length:
  assumes "2 \<le> B"
  shows "c < B ^ n \<Longrightarrow> length (digits_of B c) \<le> n"
    and "B ^ n \<le> c \<Longrightarrow> n < length (digits_of B c)"
proof (induction n arbitrary: c)
  case 0
  { case 1 then show ?case by simp }
  { case 2 then show ?case using assms by (simp add: digits_of_pos) }
next
  case (Suc n)
  have pos: "0 < B" using assms by simp
  { case 1
    then have "c div B < B ^ n" using pos by (simp add: less_mult_imp_div_less mult.commute)
    then show ?case using Suc.IH(1) [of "c div B"] assms by (cases "c = 0") (simp_all add: digits_of_pos) }
  { case 2
    then have "B ^ n \<le> c div B" using pos by (simp add: less_eq_div_iff_mult_less_eq mult.commute)
    moreover have "0 < c" using 2 pos by (metis less_le_trans zero_less_power)
    ultimately show ?case using Suc.IH(2) [of "c div B"] assms by (simp add: digits_of_pos) }
qed

section \<open>The codec\<close>

definition BASE58_ALPHABET :: string where
  "BASE58_ALPHABET = ''123456789ABCDEFGHJKLMNPQRSTUVWXYZabcdefghijkmnopqrstuvwxyz''"

function push_digits :: "u32 \<Rightarrow> u8 list" where
  "push_digits c = (if c = 0 then [] else ucast (c mod 58) # push_digits (c div 58))"
  by auto
termination
  by (relation "measure unat") (auto simp: unat_div unat_gt_0)

fun enc_carry :: "u32 \<Rightarrow> u8 list \<Rightarrow> u8 list" where
  "enc_carry c [] = push_digits c"
| "enc_carry c (d # ds) =
     (let c' = c + push_bit 8 (ucast d) in ucast (c' mod 58) # enc_carry (c' div 58) ds)"

definition base58_encode :: "u8 list \<Rightarrow> string" where
  "base58_encode data =
     (let digits = fold (\<lambda>byte ds. enc_carry (ucast byte) ds) data []
      in map (\<lambda>_. CHR ''1'') (takeWhile (\<lambda>b. b = 0) data)
         @ map (\<lambda>d. BASE58_ALPHABET ! unat d) (rev digits))"

function push_bytes :: "u32 \<Rightarrow> u8 list" where
  "push_bytes c = (if c = 0 then [] else ucast (and c 0xFF) # push_bytes (drop_bit 8 c))"
  by auto
termination
  by (relation "measure unat") (auto simp: drop_bit_eq_div unat_div unat_gt_0)

fun dec_carry :: "u32 \<Rightarrow> u8 list \<Rightarrow> u8 list" where
  "dec_carry c [] = push_bytes c"
| "dec_carry c (b # bs) =
     (let c' = c + ucast b * 58 in ucast (and c' 0xFF) # dec_carry (drop_bit 8 c') bs)"

text \<open>
  Characters are Unicode code points; \<open>ch as u8\<close> keeps the low byte of one. The error carries
  the character its message shows.
\<close>

type_synonym code_point = "u32"

primrec position :: "('a \<Rightarrow> bool) \<Rightarrow> 'a list \<Rightarrow> nat option" where
  "position P [] = None"
| "position P (x # xs) = (if P x then Some 0 else map_option Suc (position P xs))"

fun decode_loop :: "code_point list \<Rightarrow> u8 list \<Rightarrow> code_point + u8 list" where
  "decode_loop [] bytes = Inr bytes"
| "decode_loop (ch # chs) bytes =
     (case position (\<lambda>c. (of_nat (of_char c) :: u8) = ucast ch) BASE58_ALPHABET of
        None \<Rightarrow> Inl ch
      | Some idx \<Rightarrow> decode_loop chs (dec_carry (of_nat idx) bytes))"

definition base58_decode :: "code_point list \<Rightarrow> code_point + u8 list" where
  "base58_decode chs =
     (case decode_loop chs [] of
        Inl ch \<Rightarrow> Inl ch
      | Inr bytes \<Rightarrow> Inr (map (\<lambda>_. 0) (takeWhile (\<lambda>c. c = 0x31) chs) @ rev bytes))"

text \<open>The characters of a string, whose code points are below 256, and decoding such a string.\<close>

definition codes :: "string \<Rightarrow> code_point list" where
  "codes s = map (\<lambda>c. of_nat (of_char c)) s"

definition decode_ascii :: "string \<Rightarrow> code_point + u8 list" where
  "decode_ascii s = base58_decode (codes s)"

definition base58_checksum :: "extern \<Rightarrow> u8 list \<Rightarrow> u8 list" where
  "base58_checksum X data = take 4 (sha256 X (sha256 X data))"

declare push_digits.simps [simp del] push_bytes.simps [simp del]

section \<open>The loops compute digits\<close>

lemma unat_ucast_small: "unat w < 256 \<Longrightarrow> unat (ucast w :: u8) = unat w" for w :: u32
  by (simp add: unsigned_ucast_eq take_bit_nat_eq_self)

lemma u8_less [simp]: "unat b < 256" for b :: u8
  using unsigned_less [of b] by simp

lemma unat_ucast_up [simp]: "unat (ucast b :: u32) = unat b" for b :: u8
  using u8_less [of b] by (simp add: unsigned_ucast_eq take_bit_nat_eq_self del: u8_less)

lemma push_0 [simp]: "push_digits 0 = []" "push_bytes 0 = []"
  by (simp_all add: push_digits.simps push_bytes.simps)

lemma push_digits_nat: "map unat (push_digits c) = digits_of 58 (unat c)"
proof (induction c rule: push_digits.induct)
  case (1 c)
  then show ?case
    by (cases "c = 0")
      (simp_all add: push_digits.simps [of c] digits_of_pos unat_gt_0 unat_ucast_small unat_mod unat_div)
qed

lemma and_255_nat: "unat (and c 0xFF) = unat c mod 256" for c :: u32
proof -
  have "and c 0xFF = take_bit 8 c" by (simp add: take_bit_eq_mask mask_numeral)
  then show ?thesis by (simp add: unsigned_take_bit_eq take_bit_eq_mod unat_mod)
qed

lemma drop_8_nat: "unat (drop_bit 8 c) = unat c div 256" for c :: u32
  by (simp add: drop_bit_eq_div unat_div)

lemma push_bytes_nat: "map unat (push_bytes c) = digits_of 256 (unat c)"
proof (induction c rule: push_bytes.induct)
  case (1 c)
  then show ?case
    by (cases "c = 0")
      (simp_all add: push_bytes.simps [of c] digits_of_pos unat_gt_0 unat_ucast_small and_255_nat drop_8_nat)
qed

lemma enc_carry_nat:
  "unat c < 256 \<Longrightarrow> \<forall>d\<in>set ds. unat d < 58 \<Longrightarrow>
     map unat (enc_carry c ds) = madd 58 256 (unat c) (map unat ds)"
proof (induction ds arbitrary: c)
  case (Cons d ds)
  have s: "unat (c + push_bit 8 (ucast d)) = unat c + unat d * 256"
    using Cons.prems by (simp add: push_bit_eq_mult unat_word_ariths)
  have "unat d * 256 \<le> 57 * 256" using Cons.prems by simp
  then have "(unat c + unat d * 256) div 58 < 256"
    using Cons.prems(1) by (intro less_mult_imp_div_less) simp
  then show ?case
    using Cons.IH [of "(c + push_bit 8 (ucast d)) div 58"] Cons.prems(2)
    by (simp add: Let_def unat_ucast_small unat_mod unat_div s)
qed (simp add: push_digits_nat)

lemma dec_carry_nat:
  "unat c < 58 \<Longrightarrow> map unat (dec_carry c bs) = madd 256 58 (unat c) (map unat bs)"
proof (induction bs arbitrary: c)
  case (Cons b bs)
  have b: "unat b * 58 \<le> 255 * 58" using u8_less [of b] by linarith
  have s: "unat (c + ucast b * 58) = unat c + unat b * 58"
    using Cons.prems b by (simp add: unat_word_ariths)
  have "(unat c + unat b * 58) div 256 < 58"
    using Cons.prems b by (intro less_mult_imp_div_less) simp
  then show ?case
    using Cons.IH [of "drop_bit 8 (c + ucast b * 58)"]
    by (simp add: Let_def unat_ucast_small and_255_nat drop_8_nat s)
qed (simp add: push_bytes_nat)

text \<open>The big-endian value of a byte string.\<close>

definition be_val :: "nat \<Rightarrow> nat list \<Rightarrow> nat" where
  "be_val B ds = fold (\<lambda>d v. B * v + d) ds 0"

lemma be_val_rev: "be_val B ds = digits_val B (rev ds)"
proof (induction ds rule: rev_induct)
  case (snoc d ds)
  then show ?case by (simp add: be_val_def)
qed (simp add: be_val_def)

lemma encode_digits:
  fixes data :: "u8 list"
  shows "map unat (fold (\<lambda>byte ds. enc_carry (ucast byte) ds) data []) = digits_of 58 (be_val 256 (map unat data))"
proof (induction data rule: rev_induct)
  case (snoc b data)
  let ?ds = "fold (\<lambda>byte ds. enc_carry (ucast byte) ds) data []"
  have ok: "digits_ok 58 (map unat ?ds)" by (simp add: snoc.IH digits_of_ok)
  then have "\<forall>d\<in>set ?ds. unat d < 58" by (simp add: digits_ok_def)
  then have "map unat (enc_carry (ucast b) ?ds) = madd 58 256 (unat b) (map unat ?ds)"
    using enc_carry_nat [of "ucast b" ?ds] by simp
  also have "\<dots> = digits_of 58 (256 * digits_val 58 (map unat ?ds) + unat b)"
    using ok by (rule madd_eq [rotated 2]) simp_all
  also have "digits_val 58 (map unat ?ds) = be_val 256 (map unat data)"
    by (simp add: snoc.IH digits_of_val)
  finally show ?case by (simp add: be_val_def)
qed (simp add: be_val_def)

section \<open>The alphabet\<close>

definition alpha :: "nat \<Rightarrow> char" where
  "alpha d = BASE58_ALPHABET ! d"

lemma length_alphabet [simp]: "length BASE58_ALPHABET = 58"
  by (simp add: BASE58_ALPHABET_def)

lemma distinct_alphabet: "distinct BASE58_ALPHABET"
  by (simp add: BASE58_ALPHABET_def)

lemma alpha_0 [simp]: "alpha 0 = CHR ''1''"
  by (simp add: alpha_def BASE58_ALPHABET_def)

lemma position_Some:
  "position P xs = Some i \<longleftrightarrow> i < length xs \<and> P (xs ! i) \<and> (\<forall>j<i. \<not> P (xs ! j))"
proof (induction xs arbitrary: i)
  case (Cons x xs)
  show ?case
  proof (cases i)
    case 0
    then show ?thesis by auto
  next
    case (Suc k)
    then show ?thesis using Cons.IH [of k] by (auto simp: less_Suc_eq_0_disj All_less_Suc2)
  qed
qed simp

lemma of_char_less: "(of_char c :: nat) < 256"
  by (metis mod_less_divisor of_char_mod_256 zero_less_numeral)

lemma of_char_u32 [simp]: "unat (of_nat (of_char c) :: u32) = of_char c"
proof -
  have "(of_char c :: nat) < 4294967296" using of_char_less [of c] by linarith
  then show ?thesis by (simp add: unat_of_nat)
qed

lemma char_code_inject:
  "ucast (of_nat (of_char d) :: u32) = (of_nat (of_char c) :: u8) \<longleftrightarrow> d = c"
proof -
  have "unat (ucast (of_nat (of_char d) :: u32) :: u8) = of_char d"
    using of_char_less [of d] by (simp add: unsigned_ucast_eq take_bit_nat_eq_self del: unsigned_of_nat)
  moreover have "unat (of_nat (of_char c) :: u8) = of_char c"
    using of_char_less [of c] by (simp add: unat_of_nat)
  ultimately show ?thesis by (simp only: word_unat_eq_iff of_char_eq_iff)
qed

lemma char_one: "(of_nat (of_char c) :: u32) = 0x31 \<longleftrightarrow> c = CHR ''1''"
proof -
  have "(of_nat (of_char c) :: u32) = 0x31 \<longleftrightarrow> (of_char c :: nat) = 0x31"
    by (simp add: word_unat_eq_iff del: unsigned_of_nat)
  also have "\<dots> \<longleftrightarrow> (of_char c :: nat) = of_char CHR ''1''" by simp
  finally show ?thesis by (simp only: of_char_eq_iff)
qed

lemma position_alpha:
  "position (\<lambda>x. (of_nat (of_char x) :: u8) = ucast (of_nat (of_char c) :: u32)) BASE58_ALPHABET = Some d
     \<longleftrightarrow> d < 58 \<and> alpha d = c"
proof -
  have "(of_nat (of_char x) :: u8) = ucast (of_nat (of_char c) :: u32) \<longleftrightarrow> x = c" for x
    using char_code_inject [of c x] by metis
  then show ?thesis
    using distinct_alphabet
    by (auto simp: position_Some alpha_def nth_eq_iff_index_eq)
qed

lemma alpha_inject: "d < 58 \<Longrightarrow> e < 58 \<Longrightarrow> alpha d = alpha e \<longleftrightarrow> d = e"
  using distinct_alphabet by (simp add: alpha_def nth_eq_iff_index_eq)

section \<open>Round trips\<close>

text \<open>A base58 string is the image of its digits; decoding computes their value in base 256.\<close>

lemma decode_loop_nat:
  "decode_loop (map (\<lambda>c. of_nat (of_char c)) s) bytes = Inr out \<longleftrightarrow>
     (\<exists>ds. s = map alpha ds \<and> (\<forall>d\<in>set ds. d < 58) \<and>
        out = fold (\<lambda>d bs. dec_carry (of_nat d) bs) ds bytes)"
proof (induction s arbitrary: bytes)
  case Nil
  then show ?case by auto
next
  case (Cons c s)
  let ?pos = "position (\<lambda>x. (of_nat (of_char x) :: u8) = ucast (of_nat (of_char c) :: u32)) BASE58_ALPHABET"
  show ?case
  proof (cases ?pos)
    case None
    then have "\<nexists>d. d < 58 \<and> alpha d = c" using position_alpha [of c] by (metis option.distinct(1))
    with None show ?thesis by (auto simp: map_eq_Cons_conv Cons_eq_map_conv)
  next
    case (Some d)
    then have d: "d < 58" "alpha d = c" by (simp_all add: position_alpha)
    have "decode_loop (map (\<lambda>c. of_nat (of_char c)) (c # s)) bytes = Inr out \<longleftrightarrow>
        (\<exists>ds. s = map alpha ds \<and> (\<forall>d\<in>set ds. d < 58) \<and>
          out = fold (\<lambda>d bs. dec_carry (of_nat d) bs) ds (dec_carry (of_nat d) bytes))"
      using Some Cons.IH by simp
    also have "\<dots> \<longleftrightarrow> (\<exists>ds. c # s = map alpha ds \<and> (\<forall>d\<in>set ds. d < 58) \<and>
        out = fold (\<lambda>d bs. dec_carry (of_nat d) bs) ds bytes)"
    proof
      assume "\<exists>ds. s = map alpha ds \<and> (\<forall>d\<in>set ds. d < 58) \<and>
          out = fold (\<lambda>d bs. dec_carry (of_nat d) bs) ds (dec_carry (of_nat d) bytes)"
      then obtain ds where "s = map alpha ds" "\<forall>d\<in>set ds. d < 58"
          "out = fold (\<lambda>d bs. dec_carry (of_nat d) bs) ds (dec_carry (of_nat d) bytes)" by blast
      with d show "\<exists>ds. c # s = map alpha ds \<and> (\<forall>d\<in>set ds. d < 58) \<and>
          out = fold (\<lambda>d bs. dec_carry (of_nat d) bs) ds bytes"
        by (intro exI [of _ "d # ds"]) simp
    qed (use d in \<open>auto simp: Cons_eq_map_conv alpha_inject\<close>)
    finally show ?thesis .
  qed
qed

lemma decode_bytes:
  "\<forall>d\<in>set ds. d < 58 \<Longrightarrow>
     map unat (fold (\<lambda>d bs. dec_carry (of_nat d) bs) ds []) = digits_of 256 (be_val 58 ds)"
proof (induction ds rule: rev_induct)
  case (snoc d ds)
  let ?bs = "fold (\<lambda>d bs. dec_carry (of_nat d) bs) ds []"
  have IH: "map unat ?bs = digits_of 256 (be_val 58 ds)" using snoc by simp
  have d: "unat (of_nat d :: u32) = d" "d < 58" using snoc.prems by (simp_all add: unat_of_nat)
  have ok: "digits_ok 256 (map unat ?bs)" by (simp add: IH digits_of_ok)
  have "map unat (dec_carry (of_nat d) ?bs) = madd 256 58 d (map unat ?bs)"
    using dec_carry_nat [of "of_nat d" ?bs] d by simp
  also have "\<dots> = digits_of 256 (58 * digits_val 256 (map unat ?bs) + d)"
    using ok by (rule madd_eq [rotated 2]) simp_all
  also have "digits_val 256 (map unat ?bs) = be_val 58 ds"
    by (simp add: IH digits_of_val)
  finally show ?case by (simp add: be_val_def)
qed (simp add: be_val_def)

text \<open>
  Changing the base of a digit string: as many leading zeros as before, then the digits of its
  value. Changing it back gives the string itself.
\<close>

definition lead :: "nat list \<Rightarrow> nat" where
  "lead ds = length (takeWhile (\<lambda>d. d = 0) ds)"

definition rebase :: "nat \<Rightarrow> nat \<Rightarrow> nat list \<Rightarrow> nat list" where
  "rebase B B' ds = replicate (lead ds) 0 @ rev (digits_of B' (be_val B ds))"

lemma be_val_zeros [simp]: "be_val B (replicate n 0 @ ds) = be_val B ds"
  by (induction n) (simp_all add: be_val_def)

lemma be_val_digits: "2 \<le> B \<Longrightarrow> be_val B (rev (digits_of B n)) = n"
  by (simp add: be_val_rev digits_of_val)

lemma lead_canonical:
  assumes "2 \<le> B"
  shows "lead (replicate k 0 @ rev (digits_of B n)) = k"
proof -
  have "takeWhile (\<lambda>d. d = 0) (rev (digits_of B n)) = []"
    using digits_of_ok [OF assms, of n] by (cases "digits_of B n" rule: rev_cases) (auto simp: digits_ok_def)
  then show ?thesis by (simp add: lead_def takeWhile_append)
qed

lemma split_lead:
  assumes B: "2 \<le> B" and ds: "\<forall>d\<in>set ds. d < B"
  shows "replicate (lead ds) 0 @ rev (digits_of B (be_val B ds)) = ds"
proof -
  let ?z = "takeWhile (\<lambda>d. d = 0) ds" and ?r = "dropWhile (\<lambda>d. d = 0) ds"
  have z: "?z = replicate (lead ds) 0"
    unfolding lead_def by (rule replicate_eqI) (auto dest: set_takeWhileD)
  have e: "replicate (lead ds) 0 @ ?r = ds"
    unfolding z [symmetric] by simp
  have "be_val B (replicate (lead ds) 0 @ ?r) = be_val B ?r" by simp
  then have "be_val B ds = be_val B ?r" by (simp only: e)
  moreover have "digits_ok B (rev ?r)"
    using ds set_dropWhileD [of _ "\<lambda>d. d = 0" ds] hd_dropWhile [of "\<lambda>d. d = 0" ds]
    by (auto simp: digits_ok_def last_rev)
  ultimately have "rev (digits_of B (be_val B ds)) = ?r"
    using digits_of_unique [OF B] by (simp add: be_val_rev)
  then show ?thesis by (simp only: e)
qed

lemma rebase_inverse:
  assumes "2 \<le> B" and "2 \<le> B'" and "\<forall>d\<in>set ds. d < B"
  shows "rebase B' B (rebase B B' ds) = ds"
  using assms by (simp add: rebase_def lead_canonical be_val_digits split_lead)

lemma rebase_less: "2 \<le> B' \<Longrightarrow> d \<in> set (rebase B B' ds) \<Longrightarrow> d < B'"
  using digits_of_ok [of B' "be_val B ds"] by (auto simp: rebase_def digits_ok_def)

lemma lead_map_unat: "lead (map unat bs) = length (takeWhile (\<lambda>b. b = 0) bs)"
  by (simp add: lead_def takeWhile_map comp_def unat_eq_zero)

lemma encode_eq: "base58_encode data = map alpha (rebase 256 58 (map unat data))"
proof -
  have "map (\<lambda>d. BASE58_ALPHABET ! unat d) (rev (fold (\<lambda>byte ds. enc_carry (ucast byte) ds) data []))
      = map alpha (rev (map unat (fold (\<lambda>byte ds. enc_carry (ucast byte) ds) data [])))"
    by (simp add: alpha_def rev_map)
  then show ?thesis
    by (simp add: base58_encode_def rebase_def encode_digits lead_map_unat map_replicate_const)
qed

lemma map_unat_inject: "map unat xs = map unat ys \<longleftrightarrow> xs = ys" for xs ys :: "u8 list"
  by (simp add: inj_map_eq_map inj_def word_unat_eq_iff)

lemma lead_chars:
  "\<forall>d\<in>set ds. d < 58 \<Longrightarrow>
     length (takeWhile (\<lambda>c. c = 0x31) (map (\<lambda>c. of_nat (of_char c) :: u32) (map alpha ds))) = lead ds"
proof (induction ds)
  case (Cons d ds)
  then have "(of_nat (of_char (alpha d)) :: u32) = 0x31 \<longleftrightarrow> d = 0"
    using alpha_inject [of d 0] by (simp add: char_one)
  then show ?case using Cons by (simp add: lead_def)
qed (simp add: lead_def)

lemma decode_alpha:
  assumes ds: "\<forall>d\<in>set ds. d < 58"
  shows "\<exists>bs. decode_ascii (map alpha ds) = Inr bs \<and> map unat bs = rebase 58 256 ds"
proof -
  let ?bytes = "fold (\<lambda>d bs. dec_carry (of_nat d) bs) ds []"
  have "decode_loop (map (\<lambda>c. of_nat (of_char c)) (map alpha ds)) [] = Inr ?bytes"
    using ds by (subst decode_loop_nat) blast
  then have "decode_ascii (map alpha ds) = Inr (replicate (lead ds) 0 @ rev ?bytes)"
    unfolding decode_ascii_def codes_def base58_decode_def
    by (simp only: sum.case map_replicate_const lead_chars [OF ds])
  moreover have "map unat (replicate (lead ds) 0 @ rev ?bytes) = rebase 58 256 ds"
    by (simp add: rebase_def decode_bytes [OF ds, symmetric] rev_map)
  ultimately show ?thesis by blast
qed

lemma decode_domain:
  assumes "decode_ascii s = Inr bs"
  obtains ds where "s = map alpha ds" and "\<forall>d\<in>set ds. d < 58"
proof -
  obtain out where "decode_loop (map (\<lambda>c. of_nat (of_char c)) s) [] = Inr out"
    using assms by (auto simp: decode_ascii_def codes_def base58_decode_def split: sum.splits)
  then show ?thesis using that decode_loop_nat [of s "[]" out] by blast
qed

lemma base58_iff: "decode_ascii s = Inr bs \<longleftrightarrow> s = base58_encode bs"
proof
  assume dec: "decode_ascii s = Inr bs"
  then obtain ds where ds: "s = map alpha ds" "\<forall>d\<in>set ds. d < 58" by (rule decode_domain)
  from decode_alpha [OF ds(2)] dec ds(1) have "map unat bs = rebase 58 256 ds" by simp
  then show "s = base58_encode bs" using ds by (simp add: encode_eq rebase_inverse)
next
  let ?ds = "rebase 256 58 (map unat bs)"
  assume s: "s = base58_encode bs"
  have "\<forall>d\<in>set ?ds. d < 58" by (auto intro: rebase_less)
  from decode_alpha [OF this] obtain bs' where
    "decode_ascii s = Inr bs'" "map unat bs' = rebase 58 256 ?ds" by (auto simp: s encode_eq)
  moreover have "rebase 58 256 ?ds = map unat bs" by (simp add: rebase_inverse)
  ultimately show "decode_ascii s = Inr bs"
    by (metis map_unat_inject)
qed

text \<open>Decoding succeeds exactly if the low byte of every character is a digit.\<close>

lemma position_ex: "(\<exists>i. position P xs = Some i) \<longleftrightarrow> (\<exists>x \<in> set xs. P x)"
  by (induction xs) auto

lemma decode_loop_ex:
  "(\<exists>out. decode_loop chs bytes = Inr out) \<longleftrightarrow>
     (\<forall>c \<in> set chs. \<exists>a \<in> set BASE58_ALPHABET. (of_nat (of_char a) :: u8) = ucast c)"
proof (induction chs arbitrary: bytes)
  case (Cons c chs)
  let ?p = "position (\<lambda>a. (of_nat (of_char a) :: u8) = ucast c) BASE58_ALPHABET"
  show ?case using Cons.IH position_ex [of "\<lambda>a. (of_nat (of_char a) :: u8) = ucast c" BASE58_ALPHABET]
    by (cases ?p) auto
qed simp

lemma codes_onto:
  assumes "\<forall>c \<in> set chs. c < 0x100"
  shows "codes (map (\<lambda>c. char_of (unat c)) chs) = chs"
proof -
  have "of_nat (of_char (char_of (unat c) :: char)) = c" if "c < 0x100" for c :: code_point
    using that by (simp add: word_less_nat_alt)
  then show ?thesis using assms by (simp add: codes_def comp_def map_idI)
qed

text \<open>
  C39. Base58 over Unicode characters, as \<open>decode\<close> reads them: decoding undoes encoding, leading zero
  bytes included. Among the texts whose characters are below U+0100 the encoding is the only one that
  decodes to its bytes. In general decoding succeeds exactly if the low byte of every character is a
  digit of the alphabet, so beyond U+0100 there are further spellings.
\<close>

theorem base58_codec_exact:
  "base58_decode (codes (base58_encode bs)) = Inr bs
   \<and> ((\<forall>c \<in> set chs. c < 0x100) \<longrightarrow> base58_decode chs = Inr bs \<longrightarrow> chs = codes (base58_encode bs))
   \<and> ((\<exists>out. base58_decode chs = Inr out) \<longleftrightarrow>
        (\<forall>c \<in> set chs. \<exists>a \<in> set BASE58_ALPHABET. (of_nat (of_char a) :: u8) = ucast c))"
proof (intro conjI impI)
  show "base58_decode (codes (base58_encode bs)) = Inr bs"
    using base58_iff [of "base58_encode bs" bs] by (simp add: decode_ascii_def)
  show "chs = codes (base58_encode bs)" if "\<forall>c \<in> set chs. c < 0x100" "base58_decode chs = Inr bs"
    using base58_iff [of "map (\<lambda>c. char_of (unat c)) chs" bs] that codes_onto [OF that(1)]
    by (simp add: decode_ascii_def)
  show "(\<exists>out. base58_decode chs = Inr out) \<longleftrightarrow>
      (\<forall>c \<in> set chs. \<exists>a \<in> set BASE58_ALPHABET. (of_nat (of_char a) :: u8) = ucast c)"
    unfolding decode_loop_ex [of chs "[]", symmetric] by (auto simp: base58_decode_def split: sum.split)
qed

theorem base58_codec_exact_witness: "[0x31, 0x32] = codes (base58_encode [0, 1])"
proof -
  have "base58_decode [0x31, 0x32] = Inr [0, 1]"
    by (simp add: base58_decode_def BASE58_ALPHABET_def push_bytes.simps)
  then show ?thesis using base58_codec_exact [of "[0, 1]" "[0x31, 0x32]"] by simp
qed

text \<open>
  A character outside ASCII is read by its low byte: U+0141 is taken for the digit \<open>A\<close>.
\<close>

lemma decode_accepts_non_ascii: "base58_decode [0x141] = Inr [9]" "base58_decode [0x41] = Inr [9]"
  by (simp_all add: base58_decode_def BASE58_ALPHABET_def push_bytes.simps)

end
