(* ===== verification/Addresses.thy ===== *)
theory Addresses
  imports Base58
begin

text \<open>
  Addresses and keys in text form: \<open>src/network_type.rs\<close>, \<open>src/address.rs\<close>,
  \<open>src/masternode_certificate.rs\<close> and the address binding of registrations in \<open>src/types.rs\<close>.
  Strings are ASCII. SHA-256 and Ed25519 come from the record \<open>extern\<close>.
\<close>

section \<open>Networks\<close>

datatype NetworkType = Mainnet | Testnet

fun magic_bytes :: "NetworkType \<Rightarrow> u8 list" where
  "magic_bytes Mainnet = [0xC0, 0x1D, 0x7E, 0x4D]"
| "magic_bytes Testnet = [0x54, 0x49, 0x4D, 0x45]"

fun default_p2p_port :: "NetworkType \<Rightarrow> 16 word" where
  "default_p2p_port Mainnet = 24000"
| "default_p2p_port Testnet = 24100"

fun default_rpc_port :: "NetworkType \<Rightarrow> 16 word" where
  "default_rpc_port Mainnet = 24001"
| "default_rpc_port Testnet = 24101"

fun default_ws_port :: "NetworkType \<Rightarrow> 16 word" where
  "default_ws_port Mainnet = 24002"
| "default_ws_port Testnet = 24102"

fun genesis_timestamp :: "NetworkType \<Rightarrow> i64" where
  "genesis_timestamp Mainnet = 1776211200"
| "genesis_timestamp Testnet = 1764547200"

fun genesis_message :: "NetworkType \<Rightarrow> string" where
  "genesis_message Mainnet = ''TIME Coin - Where Every Second Counts''"
| "genesis_message Testnet = ''TIME Coin Testnet - 10 Minute Blocks, Instant Finality''"

fun address_prefix :: "NetworkType \<Rightarrow> string" where
  "address_prefix Mainnet = ''TIME''"
| "address_prefix Testnet = ''TTIME''"

section \<open>Addresses\<close>

record Address =
  a_network :: NetworkType
  a_payload :: "u8 list"

datatype AddressError =
    InvalidLength | InvalidPrefix | InvalidNetwork | InvalidBase58 | InvalidPayload | InvalidChecksum

definition hash_public_key :: "extern \<Rightarrow> u8 list \<Rightarrow> u8 list" where
  "hash_public_key X pk = take 20 (sha256 X pk)"

definition from_public_key :: "extern \<Rightarrow> u8 list \<Rightarrow> NetworkType \<Rightarrow> Address" where
  "from_public_key X pk net = \<lparr>a_network = net, a_payload = hash_public_key X pk\<rparr>"

fun network_digit :: "NetworkType \<Rightarrow> char" where
  "network_digit Testnet = CHR ''0''"
| "network_digit Mainnet = CHR ''1''"

definition as_string :: "extern \<Rightarrow> Address \<Rightarrow> string" where
  "as_string X a = ''TIME'' @ network_digit (a_network a) #
     base58_encode (a_payload a @ base58_checksum X (a_payload a))"

definition starts_with :: "string \<Rightarrow> string \<Rightarrow> bool" where
  "starts_with s p \<longleftrightarrow> take (length p) s = p"

definition from_string :: "extern \<Rightarrow> string \<Rightarrow> AddressError + Address" where
  "from_string X s =
     (if length s < 35 \<or> 45 < length s then Inl InvalidLength
      else if \<not> starts_with s ''TIME'' then Inl InvalidPrefix
      else (case (if s ! 4 = CHR ''0'' then Some Testnet
                  else if s ! 4 = CHR ''1'' then Some Mainnet else None) of
          None \<Rightarrow> Inl InvalidNetwork
        | Some net \<Rightarrow> (case decode_ascii (drop 5 s) of
              Inl _ \<Rightarrow> Inl InvalidBase58
            | Inr decoded \<Rightarrow>
                if length decoded \<noteq> 24 then Inl InvalidPayload
                else if take 4 (drop 20 decoded) \<noteq> take 4 (base58_checksum X (take 20 decoded))
                then Inl InvalidChecksum
                else Inr \<lparr>a_network = net, a_payload = take 20 decoded\<rparr>)))"

text \<open>
  \<open>verify_collateral_claim_proof\<close>. A verifying key is its 32 bytes; \<open>ed_key_ok\<close> says which
  bytes are a key, \<open>ed_sig_ok\<close> which are a signature.
\<close>

definition claim_message :: "extern \<Rightarrow> hash256 \<Rightarrow> u32 \<Rightarrow> u8 list" where
  "claim_message X tid vout =
     as_bytes (''TIME_COLLATERAL_CLAIM:'' @ hex_encode X tid @ '':'' @ show_nat (unat vout))"

definition signed_by :: "extern \<Rightarrow> pubkey \<Rightarrow> u8 list \<Rightarrow> u8 list \<Rightarrow> bool" where
  "signed_by X pk msg sig \<longleftrightarrow> ed_sig_ok X sig \<and> ed_verify X pk msg sig"

definition verify_collateral_claim_proof ::
    "extern \<Rightarrow> pubkey \<Rightarrow> u8 list \<Rightarrow> string \<Rightarrow> string \<Rightarrow> hash256 \<Rightarrow> u32 \<Rightarrow> bool" where
  "verify_collateral_claim_proof X pk proof reward_address utxo_address tid vout =
     (if proof = [] \<or> utxo_address = [] then False
      else if reward_address \<noteq> utxo_address then False
      else (case (if starts_with utxo_address ''TIME0'' then Some Testnet
                  else if starts_with utxo_address ''TIME1'' then Some Mainnet else None) of
          None \<Rightarrow> False
        | Some net \<Rightarrow>
            if length proof = 64 then
              as_string X (from_public_key X pk net) = utxo_address
              \<and> signed_by X pk (claim_message X tid vout) proof
            else if length proof = 96 then
              (let wallet_pk = take 32 proof
               in ed_key_ok X wallet_pk
                  \<and> as_string X (from_public_key X wallet_pk net) = utxo_address
                  \<and> signed_by X wallet_pk (claim_message X tid vout) (drop 32 proof))
            else False))"

fun verify_address_binding :: "extern \<Rightarrow> SpecialTransactionData \<Rightarrow> string + unit" where
  "verify_address_binding X (MasternodeRegistration node wallet reward coll pk sg) =
     (case hex_decode X pk of
        None \<Rightarrow> Inl ''invalid pubkey hex''
      | Some bytes \<Rightarrow>
          if length bytes \<noteq> 32 then Inl ''pubkey must be 32 bytes''
          else if wallet \<noteq> as_string X (from_public_key X bytes Mainnet)
               \<and> wallet \<noteq> as_string X (from_public_key X bytes Testnet)
          then Inl ''wallet_address does not match pubkey''
          else Inr ())"
| "verify_address_binding X _ = Inr ()"

section \<open>Masternode keys\<close>

text \<open>The errors of the decoder, in the order of its checks; the messages only add numbers.\<close>

datatype MasternodeKeyError = KeyBase58 | KeyLength | KeyPrefix | KeyChecksum

definition decode_masternode_key :: "extern \<Rightarrow> string \<Rightarrow> MasternodeKeyError + u8 list" where
  "decode_masternode_key X s =
     (case decode_ascii s of
        Inl _ \<Rightarrow> Inl KeyBase58
      | Inr bytes \<Rightarrow>
          if length bytes \<noteq> 37 then Inl KeyLength
          else if bytes ! 0 \<noteq> 0x80 then Inl KeyPrefix
          else if drop 33 bytes \<noteq> base58_checksum X (take 33 bytes) then Inl KeyChecksum
          else Inr (take 32 (drop 1 bytes)))"

definition encode_masternode_key :: "extern \<Rightarrow> u8 list \<Rightarrow> string" where
  "encode_masternode_key X key =
     (let payload = 0x80 # key in base58_encode (payload @ base58_checksum X payload))"

section \<open>Lengths\<close>

lemma length_rebase: "length (rebase B B' ds) = lead ds + length (digits_of B' (be_val B ds))"
  by (simp add: rebase_def)

lemma length_encode: "length (base58_encode data) = length (rebase 256 58 (map unat data))"
  by (simp add: encode_eq)

lemma be_val_less: "(\<forall>d\<in>set ds. d < B) \<Longrightarrow> be_val B ds < B ^ length ds"
proof (induction ds rule: rev_induct)
  case (snoc d ds)
  then have "be_val B ds + 1 \<le> B ^ length ds" by simp
  then have "B * (be_val B ds + 1) \<le> B * B ^ length ds" by (rule mult_le_mono2)
  with snoc.prems show ?case by (simp add: be_val_def algebra_simps)
qed (simp add: be_val_def)

lemma be_val_Cons: "be_val B (d # ds) = d * B ^ length ds + be_val B ds"
proof (induction ds rule: rev_induct)
  case (snoc e ds)
  have "be_val B ((d # ds) @ [e]) = B * be_val B (d # ds) + e" by (simp add: be_val_def)
  with snoc show ?case by (simp add: be_val_def algebra_simps)
qed (simp add: be_val_def)

text \<open>The encoding of 24 bytes has at most 33 characters, and at least 32 if the first is not 0.\<close>

lemma encode_24_le:
  assumes "length data = 24"
  shows "length (base58_encode data) \<le> 33"
proof -
  let ?ds = "map unat data"
  have split: "replicate (lead ?ds) 0 @ rev (digits_of 256 (be_val 256 ?ds)) = ?ds"
    by (rule split_lead) simp_all
  let ?v = "be_val 256 ?ds" and ?n = "24 - lead ?ds"
  have l: "lead ?ds + length (digits_of 256 ?v) = 24"
    using arg_cong [OF split, of length] assms by simp
  have "?v < 256 ^ ?n"
  proof (rule ccontr)
    assume "\<not> ?v < 256 ^ ?n"
    then have "?n < length (digits_of 256 ?v)" by (intro digits_length(2)) simp_all
    with l show False by simp
  qed
  also have "(256 :: nat) ^ ?n \<le> 58 ^ (?n + 9)"
  proof -
    let ?k = "24 - ?n"
    have n: "?n + ?k = 24" by simp
    have "(256 :: nat) ^ ?n * 256 ^ ?k = 256 ^ 24" unfolding power_add [symmetric] n ..
    also have "(256 :: nat) ^ 24 \<le> 58 ^ 33" by simp
    also have "(58 :: nat) ^ 33 = 58 ^ (?n + 9) * 58 ^ ?k"
      unfolding power_add [symmetric] using n by (simp add: add.commute add.left_commute)
    also have "\<dots> \<le> 58 ^ (?n + 9) * 256 ^ ?k" by (intro mult_le_mono2 power_mono) simp_all
    finally show ?thesis by simp
  qed
  finally have "length (digits_of 58 ?v) \<le> ?n + 9" by (intro digits_length(1)) simp_all
  with l show ?thesis by (simp add: length_encode length_rebase)
qed

lemma encode_24_ge:
  assumes "length data = 24" and "hd data \<noteq> 0"
  shows "32 \<le> length (base58_encode data)"
proof -
  obtain b bs where data: "data = b # bs" "b \<noteq> 0" "length bs = 23"
    using assms by (cases data) auto
  have "0 < unat b" using data(2) by (simp add: unat_gt_0)
  then have "1 * 256 ^ 23 \<le> unat b * 256 ^ 23" by (intro mult_le_mono1) simp
  then have "(256 :: nat) ^ 23 \<le> be_val 256 (map unat data)"
    unfolding data(1) list.map be_val_Cons length_map data(3) by linarith
  then have "(58 :: nat) ^ 31 \<le> be_val 256 (map unat data)" by simp
  then have "31 < length (digits_of 58 (be_val 256 (map unat data)))"
    by (intro digits_length(2)) simp_all
  then show ?thesis by (simp add: length_encode length_rebase)
qed

section \<open>Printing and parsing\<close>

definition digest_ok :: "extern \<Rightarrow> bool" where
  "digest_ok X \<longleftrightarrow> (\<forall>d. length (sha256 X d) = 32)"

lemma length_checksum: "digest_ok X \<Longrightarrow> length (base58_checksum X d) = 4"
  by (simp add: base58_checksum_def digest_ok_def)

lemma string_split5:
  assumes "5 \<le> length s"
  shows "s = take 4 s @ s ! 4 # drop 5 s"
  using assms by (metis Cons_nth_drop_Suc append_take_drop_id eval_nat_numeral(3) less_eq_Suc_le)

lemma network_of_digit:
  "(if c = CHR ''0'' then Some Testnet else if c = CHR ''1'' then Some Mainnet else None) = Some net
     \<longleftrightarrow> c = network_digit net"
  by (cases net) auto

lemma from_string_ok_iff:
  assumes X: "digest_ok X"
  shows "from_string X s = Inr a \<longleftrightarrow> s = as_string X a \<and> length (a_payload a) = 20 \<and> 35 \<le> length s"
    (is "?L \<longleftrightarrow> ?R")
proof
  assume ?L
  then have len: "35 \<le> length s" and "starts_with s ''TIME''"
    by (auto simp: from_string_def split: if_splits)
  then have pre: "take 4 s = ''TIME''" by (simp add: starts_with_def eval_nat_numeral)
  from \<open>?L\<close> obtain net bytes where n: "s ! 4 = network_digit net" and
    d: "decode_ascii (drop 5 s) = Inr bytes" "length bytes = 24"
      "take 4 (drop 20 bytes) = take 4 (base58_checksum X (take 20 bytes))" and
    a: "a = \<lparr>a_network = net, a_payload = take 20 bytes\<rparr>"
    by (auto simp: from_string_def split: if_splits sum.splits)
  have "drop 20 bytes = base58_checksum X (take 20 bytes)"
    using d(2,3) length_checksum [OF X] by simp
  then have "base58_encode (take 20 bytes @ base58_checksum X (take 20 bytes)) = drop 5 s"
    using d(1) by (metis append_take_drop_id base58_iff)
  then have "as_string X a = take 4 s @ s ! 4 # drop 5 s"
    by (simp add: as_string_def a n pre)
  also have "\<dots> = s" using len string_split5 [of s] by simp
  finally show ?R using a d(2) len by simp
next
  assume ?R
  then have s: "s = as_string X a" and p: "length (a_payload a) = 20" and l: "35 \<le> length s" by auto
  let ?data = "a_payload a @ base58_checksum X (a_payload a)"
  have d: "length ?data = 24" using p length_checksum [OF X] by simp
  have "length s \<le> 45" using encode_24_le [OF d] by (simp add: s as_string_def)
  moreover have "decode_ascii (base58_encode ?data) = Inr ?data" by (simp add: base58_iff)
  moreover have "base58_encode ?data = drop 5 s" "s ! 4 = network_digit (a_network a)"
    "starts_with s ''TIME''" by (simp_all add: s as_string_def starts_with_def)
  ultimately show ?L
    using l p d length_checksum [OF X]
    by (cases "a_network a") (simp_all add: from_string_def)
qed

text \<open>
  Parsing accepts exactly the printed form of an address: \<open>from_string\<close> returns an address
  if and only if the string is that address printed, its payload has 20 bytes and the string at
  least 35 characters. So no address has two accepted spellings and the checksum is always right.
\<close>

theorem address_parse_exact:
  assumes X: "\<forall>d. length (sha256 X d) = 32"
  shows "from_string X s = Inr a \<longleftrightarrow> s = as_string X a \<and> length (a_payload a) = 20 \<and> 35 \<le> length s"
  using X by (intro from_string_ok_iff) (simp add: digest_ok_def)

text \<open>External functions for the witnesses: a digest of 32 bytes, everything else empty.\<close>

definition extern0 :: extern where
  "extern0 = \<lparr>sha256 = (\<lambda>d. take 32 (rev d @ replicate 32 7)), hex_encode = (\<lambda>_. []),
     hex_decode = (\<lambda>_. None), tx_json = (\<lambda>_. []), tx_bincode = (\<lambda>_. Some []),
     outputs_bincode = (\<lambda>_. Some []),
     ed_key_ok = (\<lambda>_. True), ed_sig_ok = (\<lambda>_. True), ed_verify = (\<lambda>_ _ _. True),
     ed_verify_strict = (\<lambda>_ _ _. True), ed_sign = (\<lambda>_ _. replicate 64 3),
     sha512 = (\<lambda>d. take 64 (d @ replicate 64 9)), blake3 = (\<lambda>d. take 32 (rev d @ replicate 32 8))\<rparr>"

lemma extern0_digest [simp]: "length (sha256 extern0 d) = 32"
  by (simp add: extern0_def)

theorem address_parse_exact_witness:
  "let a = \<lparr>a_network = Testnet, a_payload = replicate 20 5\<rparr>; s = as_string extern0 a
   in from_string extern0 s = Inr a \<longleftrightarrow>
     s = as_string extern0 a \<and> length (a_payload a) = 20 \<and> 35 \<le> length s"
  unfolding Let_def by (rule address_parse_exact) simp

text \<open>
  An address whose payload starts with a nonzero byte survives printing and parsing, and its
  printed form has 37 or 38 characters.
\<close>

theorem address_roundtrip:
  assumes X: "\<forall>d. length (sha256 X d) = 32"
    and p: "length (a_payload a) = 20" "hd (a_payload a) \<noteq> 0"
  shows "from_string X (as_string X a) = Inr a \<and> length (as_string X a) \<in> {37, 38}"
proof -
  have X': "digest_ok X" using X by (simp add: digest_ok_def)
  let ?data = "a_payload a @ base58_checksum X (a_payload a)"
  have d: "length ?data = 24" using p(1) length_checksum [OF X'] by simp
  have "hd ?data \<noteq> 0" using p by (cases "a_payload a") auto
  then have "length (as_string X a) \<in> {37, 38}"
    using encode_24_le [OF d] encode_24_ge [OF d] by (auto simp: as_string_def)
  then show ?thesis using from_string_ok_iff [OF X'] p(1) by auto
qed

theorem address_roundtrip_witness:
  "let a = \<lparr>a_network = Testnet, a_payload = replicate 20 5\<rparr>
   in from_string extern0 (as_string extern0 a) = Inr a \<and> length (as_string extern0 a) \<in> {37, 38}"
  unfolding Let_def by (rule address_roundtrip) simp_all

text \<open>The printed form of an address with many leading zero bytes is too short to be parsed.\<close>

lemma short_address_rejected:
  "let a = \<lparr>a_network = Mainnet, a_payload = replicate 20 0\<rparr>
   in from_string extern0 (as_string extern0 a) = Inl InvalidLength"
proof -
  let ?a = "\<lparr>a_network = Mainnet, a_payload = replicate 20 (0 :: u8)\<rparr>"
  have "length (as_string extern0 ?a) < 35"
    by code_simp
  then show ?thesis by (simp add: from_string_def)
qed

section \<open>Keys\<close>

lemma list_split_1_32:
  assumes "length bytes = 37"
  shows "bytes = bytes ! 0 # take 32 (drop 1 bytes) @ drop 33 bytes"
    and "take 33 bytes = bytes ! 0 # take 32 (drop 1 bytes)"
proof -
  obtain b bs where "bytes = b # bs" "length bs = 36" using assms by (cases bytes) auto
  then show "bytes = bytes ! 0 # take 32 (drop 1 bytes) @ drop 33 bytes"
    and "take 33 bytes = bytes ! 0 # take 32 (drop 1 bytes)" by (simp_all add: take_Cons')
qed

text \<open>
  A masternode key string decodes to a key exactly when it is the encoding of that 32-byte
  key: encoding and decoding are inverse, and any other string is refused.
\<close>

theorem masternode_key_roundtrip:
  assumes X: "\<forall>d. length (sha256 X d) = 32"
  shows "decode_masternode_key X s = Inr key \<longleftrightarrow> s = encode_masternode_key X key \<and> length key = 32"
    (is "?L \<longleftrightarrow> ?R")
proof
  assume ?L
  then obtain bytes where b: "decode_ascii s = Inr bytes" "length bytes = 37" "bytes ! 0 = 0x80"
    "drop 33 bytes = base58_checksum X (take 33 bytes)" "key = take 32 (drop 1 bytes)"
    by (auto simp: decode_masternode_key_def split: sum.splits if_splits)
  have "bytes = (0x80 # key) @ base58_checksum X (0x80 # key)"
    using list_split_1_32 [OF b(2)] b(3-5) by simp
  then show ?R using b by (simp add: base58_iff encode_masternode_key_def)
next
  have c: "length (base58_checksum X d) = 4" for d
    using X by (intro length_checksum) (simp add: digest_ok_def)
  assume ?R
  then show ?L
    using c [of "0x80 # key"]
    by (simp add: decode_masternode_key_def encode_masternode_key_def base58_iff [THEN iffD2, OF refl])
qed

theorem masternode_key_roundtrip_witness:
  "decode_masternode_key extern0 (encode_masternode_key extern0 (replicate 32 42)) = Inr (replicate 32 42)
   \<longleftrightarrow> encode_masternode_key extern0 (replicate 32 42) = encode_masternode_key extern0 (replicate 32 42)
     \<and> length (replicate 32 (42 :: u8)) = 32"
  by (rule masternode_key_roundtrip) simp

end
