(* ===== verification/Tx_Pool.thy ===== *)
theory Tx_Pool
  imports Addresses
begin

text \<open>
  The transaction pool of \<open>src/transaction_pool.rs\<close> and the ban list of \<open>src/purge_list.rs\<close>:
  admission, eviction, finalization and archival of transactions, the counters kept beside the
  maps, and the copy on disk. An \<open>Instant\<close> is a number of nanoseconds and the clock is the
  argument \<open>now\<close>. The record carries the content of the \<open>mempool\<close> tree of the database in
  \<open>disk\<close>; \<open>sled_tree\<close> says whether the handle to it is set. A value of the tree is \<open>None\<close>
  when it is not JSON, and otherwise the three members that are read, each present or not. Writes
  to the tree are taken to succeed, as the source only logs their errors. A memory pressure above a fraction is compared in integers: both limits times the
  fraction are integers, so the rounded quotient exceeds it exactly when the count does.
\<close>

section \<open>The ban list\<close>

record PhantomTxRecord =
  ph_txid_hex :: string
  ph_real_inputs :: "(string \<times> u32) list"
  ph_phantom_output_vouts :: "u32 list"
  ph_reason :: string

definition PHANTOM_FINALIZED_TXS :: "PhantomTxRecord list" where
  "PHANTOM_FINALIZED_TXS =
     [\<lparr>ph_txid_hex = ''c19c230fe4b8e60545e1e4423710108fbc3d5fe1a15f4984bd99fc3bd12477a5'',
       ph_real_inputs =
         [(''3a99ec9ec2576536bad0490a1c0ef943ffd6e774bec1c46dcc8b74a9df599817'', 0),
          (''b275010b92f69d3b1782f48b6b07d93fe25c6451f8d730a03ff84395da639c7c'', 0)],
       ph_phantom_output_vouts = [0, 1],
       ph_reason = ''Pre-hardening phantom-input TX: third input 20b9365e...:0 never existed on-chain; '' @
         ''minted ~99,900 TIME and cannot be included in a block by post-fix validators.''\<rparr>]"

definition parse_txid :: "extern \<Rightarrow> string \<Rightarrow> hash256 option" where
  "parse_txid X s =
     (case hex_decode X s of
        None \<Rightarrow> None
      | Some bytes \<Rightarrow> if length bytes \<noteq> 32 then None else Some bytes)"

definition is_banned :: "extern \<Rightarrow> hash256 \<Rightarrow> bool" where
  "is_banned X tid = list_ex (\<lambda>r. parse_txid X (ph_txid_hex r) = Some tid) PHANTOM_FINALIZED_TXS"

definition iter_records :: "extern \<Rightarrow> (hash256 \<times> OutPoint list \<times> OutPoint list \<times> string) list" where
  "iter_records X = List.map_filter (\<lambda>r. case parse_txid X (ph_txid_hex r) of
      None \<Rightarrow> None
    | Some tid \<Rightarrow> Some (tid,
        List.map_filter (\<lambda>(t, v). map_option (\<lambda>i. \<lparr>op_txid = i, op_vout = v\<rparr>) (parse_txid X t))
          (ph_real_inputs r),
        map (\<lambda>v. \<lparr>op_txid = tid, op_vout = v\<rparr>) (ph_phantom_output_vouts r),
        ph_reason r)) PHANTOM_FINALIZED_TXS"

section \<open>State\<close>

definition MAX_POOL_SIZE :: usize where "MAX_POOL_SIZE = 10000"
definition MAX_POOL_BYTES :: usize where "MAX_POOL_BYTES = 100 * 1024 * 1024"
definition REJECT_CACHE_SIZE :: nat where "REJECT_CACHE_SIZE = 1000"

type_synonym instant = nat
type_synonym duration = nat

definition as_secs :: "duration \<Rightarrow> nat" where
  "as_secs d = d div 1000000000"

record PoolEntry =
  pe_tx :: Transaction
  pe_fee :: u64
  pe_added_at :: instant
  pe_size :: usize
  pe_submitter_ip :: "string option"

datatype PoolError = PoolFull | AlreadyExists | PreviouslyRejected

record MempoolSyncEntry =
  ms_tx :: Transaction
  ms_fee :: u64
  ms_is_finalized :: bool

record mempool_row =
  row_tx :: "Transaction option"
  row_fee :: "u64 option"
  row_is_finalized :: "bool option"

type_synonym pool_map = "(hash256, PoolEntry) dmap"
type_synonym mempool_tree = "(hash256, mempool_row option) dmap"

record TransactionPool =
  pending :: pool_map
  confirmed :: pool_map
  rejected :: "(hash256, string \<times> instant) dmap"
  pending_count :: usize
  pending_bytes :: usize
  sled_tree :: bool
  loading :: bool
  disk :: mempool_tree

definition pool_new :: "mempool_tree \<Rightarrow> TransactionPool" where
  "pool_new d = \<lparr>pending = [], confirmed = [], rejected = [], pending_count = 0, pending_bytes = 0,
     sled_tree = False, loading = False, disk = d\<rparr>"

text \<open>
  \<open>opened\<close> is the outcome of \<open>open_tree\<close>, which for one database always yields the same tree;
  \<open>OnceLock::set\<close> keeps a handle that is already there.
\<close>

definition enable_persistence :: "bool \<Rightarrow> TransactionPool \<Rightarrow> TransactionPool" where
  "enable_persistence opened p = (if opened then p\<lparr>sled_tree := True\<rparr> else p)"

definition row_json :: "Transaction \<Rightarrow> u64 \<Rightarrow> bool \<Rightarrow> mempool_row option" where
  "row_json tx fee fin = Some \<lparr>row_tx = Some tx, row_fee = Some fee, row_is_finalized = Some fin\<rparr>"

definition sled_persist ::
    "hash256 \<Rightarrow> Transaction \<Rightarrow> u64 \<Rightarrow> bool \<Rightarrow> TransactionPool \<Rightarrow> TransactionPool" where
  "sled_persist tid tx fee fin p =
     (if loading p then p
      else if sled_tree p then p\<lparr>disk := dput tid (row_json tx fee fin) (disk p)\<rparr> else p)"

definition sled_remove :: "hash256 \<Rightarrow> TransactionPool \<Rightarrow> TransactionPool" where
  "sled_remove tid p = (if sled_tree p then p\<lparr>disk := dremove tid (disk p)\<rparr> else p)"

definition sled_clear :: "TransactionPool \<Rightarrow> TransactionPool" where
  "sled_clear p = (if sled_tree p then p\<lparr>disk := []\<rparr> else p)"

text \<open>
  \<open>self.pending.remove(..)\<close> with the two counters, and the removals from a map and from disk
  that seven operations repeat.
\<close>

definition take_pending :: "hash256 \<Rightarrow> TransactionPool \<Rightarrow> TransactionPool" where
  "take_pending tid p =
     (case dget (pending p) tid of
        None \<Rightarrow> p
      | Some e \<Rightarrow> p\<lparr>pending := dremove tid (pending p), pending_count := pending_count p - 1,
                   pending_bytes := pending_bytes p - pe_size e\<rparr>)"

definition drop_pending :: "hash256 \<Rightarrow> TransactionPool \<Rightarrow> TransactionPool" where
  "drop_pending tid p = sled_remove tid (take_pending tid p)"

definition drop_confirmed :: "hash256 \<Rightarrow> TransactionPool \<Rightarrow> TransactionPool" where
  "drop_confirmed tid p = sled_remove tid (p\<lparr>confirmed := dremove tid (confirmed p)\<rparr>)"

section \<open>Admission and eviction\<close>

definition is_block_only_tx :: "Transaction \<Rightarrow> bool" where
  "is_block_only_tx tx \<longleftrightarrow> tx_inputs tx = [] \<or>
     list_ex (\<lambda>out. take 13 (out_script_pubkey out) = as_bytes ''BLOCK_REWARD_'') (tx_outputs tx)"

definition pressure_above :: "nat \<Rightarrow> nat \<Rightarrow> TransactionPool \<Rightarrow> bool" where
  "pressure_above n d p \<longleftrightarrow> n * unat MAX_POOL_BYTES < d * unat (pending_bytes p)
     \<or> n * unat MAX_POOL_SIZE < d * unat (pending_count p)"

definition is_high_pressure :: "TransactionPool \<Rightarrow> bool" where
  "is_high_pressure p = pressure_above 9 10 p"

datatype PressureLevel = Low | Medium | High | Critical

definition pressure_level :: "TransactionPool \<Rightarrow> PressureLevel" where
  "pressure_level p =
     (if pressure_above 9 10 p then Critical
      else if pressure_above 8 10 p then High
      else if pressure_above 5 10 p then Medium else Low)"

definition fee_per_byte :: "PoolEntry \<Rightarrow> u64" where
  "fee_per_byte e = (if 0 < pe_size e then pe_fee e div pe_size e else 0)"

definition evict_one :: "hash256 \<Rightarrow> nat \<times> TransactionPool \<Rightarrow> nat \<times> TransactionPool" where
  "evict_one tid a = (case a of (n, p) \<Rightarrow>
     if dhas (pending p) tid then (Suc n, drop_pending tid p) else (n, p))"

definition evict_low_fee_transactions :: "nat \<Rightarrow> TransactionPool \<Rightarrow> nat \<times> TransactionPool" where
  "evict_low_fee_transactions n p =
     (if pending p = [] then (0, p)
      else let order = sort_key (\<lambda>(_, e). (fee_per_byte e, pe_added_at e)) (pending p)
           in fold evict_one (map fst (take n order)) (0, p))"

definition tx_size_of :: "extern \<Rightarrow> Transaction \<Rightarrow> usize" where
  "tx_size_of X tx = (case tx_bincode X tx of None \<Rightarrow> 0 | Some bytes \<Rightarrow> of_nat (length bytes))"

definition dereg_slot :: "Transaction \<Rightarrow> u32 option" where
  "dereg_slot tx = (case tx_special_data tx of
      Some (MasternodeDeregistration _ slot _ _) \<Rightarrow> Some slot | _ \<Rightarrow> None)"

definition duplicate_dereg :: "Transaction \<Rightarrow> TransactionPool \<Rightarrow> bool" where
  "duplicate_dereg tx p = (case dereg_slot tx of
      None \<Rightarrow> False
    | Some slot \<Rightarrow> list_ex (\<lambda>(_, e). dereg_slot (pe_tx e) = Some slot) (pending p))"

definition insert_pending :: "hash256 \<Rightarrow> PoolEntry \<Rightarrow> TransactionPool \<Rightarrow> TransactionPool" where
  "insert_pending tid e p =
     (let p' = sled_persist tid (pe_tx e) (pe_fee e) False p
      in p'\<lparr>pending := dput tid e (pending p'), pending_count := pending_count p' + 1,
            pending_bytes := pending_bytes p' + pe_size e\<rparr>)"

definition add_pending_with_submitter ::
    "extern \<Rightarrow> instant \<Rightarrow> Transaction \<Rightarrow> u64 \<Rightarrow> string option \<Rightarrow> TransactionPool
      \<Rightarrow> (PoolError + unit) \<times> TransactionPool" where
  "add_pending_with_submitter X now tx fee ip p =
     (let tid = txid X tx
      in if is_banned X tid then (Inl PreviouslyRejected, sled_remove tid p)
         else if is_block_only_tx tx then (Inl PreviouslyRejected, sled_remove tid p)
         else if dhas (pending p) tid \<or> dhas (confirmed p) tid then (Inl AlreadyExists, p)
         else if duplicate_dereg tx p then (Inl AlreadyExists, p)
         else if dhas (rejected p) tid then (Inl PreviouslyRejected, p)
         else let size = tx_size_of X tx;
                  entry = \<lparr>pe_tx = tx, pe_fee = fee, pe_added_at = now, pe_size = size,
                           pe_submitter_ip = ip\<rparr>
              in if MAX_POOL_SIZE \<le> pending_count p \<or> MAX_POOL_BYTES < pending_bytes p + size
                 then if pressure_above 8 10 p
                      then (Inr (), insert_pending tid entry (snd (evict_low_fee_transactions 1 p)))
                      else (Inl PoolFull, p)
                 else (Inr (), insert_pending tid entry p))"

definition add_pending ::
    "extern \<Rightarrow> instant \<Rightarrow> Transaction \<Rightarrow> u64 \<Rightarrow> TransactionPool
      \<Rightarrow> (PoolError + unit) \<times> TransactionPool" where
  "add_pending X now tx fee p = add_pending_with_submitter X now tx fee None p"

section \<open>Finalization, rejection and archival\<close>

definition confirm_transaction :: "extern \<Rightarrow> hash256 \<Rightarrow> TransactionPool \<Rightarrow> bool \<times> TransactionPool" where
  "confirm_transaction X tid p =
     (if is_banned X tid then (False, drop_pending tid p)
      else (case dget (pending p) tid of
          None \<Rightarrow> (False, p)
        | Some e \<Rightarrow>
            (let p' = sled_persist tid (pe_tx e) (pe_fee e) True (take_pending tid p)
             in (True, p'\<lparr>confirmed := dput tid e (confirmed p')\<rparr>))))"

definition finalize_transaction :: "extern \<Rightarrow> hash256 \<Rightarrow> TransactionPool \<Rightarrow> bool \<times> TransactionPool" where
  "finalize_transaction X tid p = confirm_transaction X tid p"

definition has_transaction :: "TransactionPool \<Rightarrow> hash256 \<Rightarrow> bool" where
  "has_transaction p tid \<longleftrightarrow> dhas (pending p) tid \<or> dhas (confirmed p) tid"

definition reject_transaction :: "instant \<Rightarrow> hash256 \<Rightarrow> string \<Rightarrow> TransactionPool \<Rightarrow> TransactionPool" where
  "reject_transaction now tid reason p =
     (let p' = drop_pending tid p
      in p'\<lparr>rejected := dput tid (reason, now) (rejected p')\<rparr>)"

definition get_finalized_transactions_with_fees :: "TransactionPool \<Rightarrow> (Transaction \<times> u64) list" where
  "get_finalized_transactions_with_fees p = map (\<lambda>(_, e). (pe_tx e, pe_fee e)) (confirmed p)"

definition pool_finalized_transactions :: "TransactionPool \<Rightarrow> Transaction list" where
  "pool_finalized_transactions p = map (\<lambda>(_, e). pe_tx e) (confirmed p)"

definition get_all_entries_verbose ::
    "instant \<Rightarrow> TransactionPool \<Rightarrow> (Transaction \<times> u64 \<times> nat \<times> string) list" where
  "get_all_entries_verbose now p =
     map (\<lambda>(_, e). (pe_tx e, pe_fee e, as_secs (now - pe_added_at e), ''pending'')) (pending p) @
     map (\<lambda>(_, e). (pe_tx e, pe_fee e, as_secs (now - pe_added_at e), ''finalized'')) (confirmed p)"

definition row_finalized :: "mempool_row option \<Rightarrow> bool" where
  "row_finalized v = (case v of None \<Rightarrow> False
     | Some r \<Rightarrow> (case row_is_finalized r of None \<Rightarrow> False | Some b \<Rightarrow> b))"

definition clear_finalized :: "TransactionPool \<Rightarrow> TransactionPool" where
  "clear_finalized p =
     (let p' = p\<lparr>confirmed := []\<rparr>
      in if sled_tree p'
         then p'\<lparr>disk := fold dremove (map fst (filter (\<lambda>(_, v). row_finalized v) (disk p'))) (disk p')\<rparr>
         else p')"

definition archive_one :: "hash256 \<Rightarrow> TransactionPool \<Rightarrow> TransactionPool" where
  "archive_one tid p =
     (let p1 = (if dhas (confirmed p) tid
                then drop_confirmed tid p else p)
      in if dhas (pending p1) tid then drop_pending tid p1 else p1)"

definition archive_confirmed_txs :: "hash256 list \<Rightarrow> TransactionPool \<Rightarrow> TransactionPool" where
  "archive_confirmed_txs tids p = fold archive_one tids p"

definition clear_finalized_txs :: "hash256 list \<Rightarrow> TransactionPool \<Rightarrow> TransactionPool" where
  "clear_finalized_txs tids p = archive_confirmed_txs tids p"

definition finalized_count :: "TransactionPool \<Rightarrow> nat" where
  "finalized_count p = length (confirmed p)"

definition cleanup_stale_pending ::
    "instant \<Rightarrow> duration \<Rightarrow> TransactionPool \<Rightarrow> Transaction list \<times> TransactionPool" where
  "cleanup_stale_pending now max_age p =
     (let stale = filter (\<lambda>(_, e). max_age < now - pe_added_at e) (pending p)
      in (map (\<lambda>(_, e). pe_tx e) stale,
          fold drop_pending (map fst stale) p))"

definition get_stale_pending :: "instant \<Rightarrow> duration \<Rightarrow> TransactionPool \<Rightarrow> (hash256 \<times> Transaction) list" where
  "get_stale_pending now min_age p =
     map (\<lambda>(tid, e). (tid, pe_tx e)) (filter (\<lambda>(_, e). min_age < now - pe_added_at e) (pending p))"

section \<open>Conflicts and queries\<close>

definition input_set :: "TxInput list \<Rightarrow> (hash256 \<times> u32) set" where
  "input_set ins = (\<lambda>i. (op_txid (in_previous_output i), op_vout (in_previous_output i))) ` set ins"

definition spends_any :: "(hash256 \<times> u32) set \<Rightarrow> Transaction \<Rightarrow> bool" where
  "spends_any S tx = list_ex (\<lambda>i. (op_txid (in_previous_output i), op_vout (in_previous_output i)) \<in> S)
     (tx_inputs tx)"

definition pool_inputs_overlap :: "pool_map \<Rightarrow> (hash256 \<times> u32) set \<Rightarrow> hash256 \<Rightarrow> bool" where
  "pool_inputs_overlap m S exclude = list_ex (\<lambda>(tid, e). tid \<noteq> exclude \<and> spends_any S (pe_tx e)) m"

definition has_conflicting_transaction :: "TransactionPool \<Rightarrow> TxInput list \<Rightarrow> hash256 \<Rightarrow> bool" where
  "has_conflicting_transaction p ins exclude =
     (if ins = [] then False
      else pool_inputs_overlap (pending p) (input_set ins) exclude
           \<or> pool_inputs_overlap (confirmed p) (input_set ins) exclude)"

definition get_conflicting_pending ::
    "TransactionPool \<Rightarrow> TxInput list \<Rightarrow> hash256 \<Rightarrow> (hash256 \<times> Transaction) list" where
  "get_conflicting_pending p ins exclude =
     (if ins = [] then []
      else map (\<lambda>(tid, e). (tid, pe_tx e))
             (filter (\<lambda>(tid, e). tid \<noteq> exclude \<and> spends_any (input_set ins) (pe_tx e)) (pending p)))"

definition has_conflicting_confirmed :: "TransactionPool \<Rightarrow> TxInput list \<Rightarrow> hash256 \<Rightarrow> bool" where
  "has_conflicting_confirmed p ins exclude =
     (if ins = [] then False else pool_inputs_overlap (confirmed p) (input_set ins) exclude)"

definition pool_is_pending :: "TransactionPool \<Rightarrow> hash256 \<Rightarrow> bool" where
  "pool_is_pending p tid = dhas (pending p) tid"

definition get_all_pending :: "TransactionPool \<Rightarrow> Transaction list" where
  "get_all_pending p = map (\<lambda>(_, e). pe_tx e) (pending p)"

definition get_all_pending_with_metadata ::
    "TransactionPool \<Rightarrow> (Transaction \<times> u64 \<times> string option \<times> instant) list" where
  "get_all_pending_with_metadata p =
     map (\<lambda>(_, e). (pe_tx e, pe_fee e, pe_submitter_ip e, pe_added_at e)) (pending p)"

definition get_pending :: "TransactionPool \<Rightarrow> hash256 \<Rightarrow> Transaction option" where
  "get_pending p tid = map_option pe_tx (dget (pending p) tid)"

definition update_pending_fee :: "hash256 \<Rightarrow> u64 \<Rightarrow> TransactionPool \<Rightarrow> bool \<times> TransactionPool" where
  "update_pending_fee tid fee p =
     (case dget (pending p) tid of
        None \<Rightarrow> (False, p)
      | Some e \<Rightarrow> (True, if pe_fee e \<noteq> fee
          then sled_persist tid (pe_tx e) fee False
                 (p\<lparr>pending := dput tid (e\<lparr>pe_fee := fee\<rparr>) (pending p)\<rparr>)
          else p))"

definition get_transaction :: "TransactionPool \<Rightarrow> hash256 \<Rightarrow> Transaction option" where
  "get_transaction p tid =
     (case dget (pending p) tid of
        Some e \<Rightarrow> Some (pe_tx e)
      | None \<Rightarrow> map_option pe_tx (dget (confirmed p) tid))"

definition is_finalized :: "TransactionPool \<Rightarrow> hash256 \<Rightarrow> bool" where
  "is_finalized p tid = dhas (confirmed p) tid"

definition get_rejection_reason :: "TransactionPool \<Rightarrow> hash256 \<Rightarrow> string option" where
  "get_rejection_reason p tid = map_option fst (dget (rejected p) tid)"

definition get_total_fees :: "TransactionPool \<Rightarrow> u64" where
  "get_total_fees p = sum_list (map (\<lambda>(_, e). pe_fee e) (confirmed p))"

definition get_fee :: "TransactionPool \<Rightarrow> hash256 \<Rightarrow> u64 option" where
  "get_fee p tid =
     (case dget (pending p) tid of
        Some e \<Rightarrow> Some (pe_fee e)
      | None \<Rightarrow> map_option pe_fee (dget (confirmed p) tid))"

record PoolMetrics =
  pm_pending_count :: usize
  pm_pending_bytes :: usize
  pm_finalized_count :: nat
  pm_rejected_count :: nat
  pm_total_fees_pending :: u64
  pm_avg_fee_rate :: u64
  pm_oldest_pending_age_secs :: nat

definition get_metrics :: "instant \<Rightarrow> TransactionPool \<Rightarrow> PoolMetrics" where
  "get_metrics now p =
     (let fees = sum_list (map (\<lambda>(_, e). pe_fee e) (pending p));
          size = sum_list (map (\<lambda>(_, e). pe_size e) (pending p))
      in \<lparr>pm_pending_count = pending_count p, pm_pending_bytes = pending_bytes p,
          pm_finalized_count = finalized_count p, pm_rejected_count = length (rejected p),
          pm_total_fees_pending = fees,
          pm_avg_fee_rate = (if 0 < size then fees div size else 0),
          pm_oldest_pending_age_secs =
            foldr max (map (\<lambda>(_, e). as_secs (now - pe_added_at e)) (pending p)) 0\<rparr>)"

text \<open>The loop that drops the oldest rejections; \<open>min_by_key\<close> returns the first minimum.\<close>

fun oldest_key :: "(hash256, string \<times> instant) dmap \<Rightarrow> hash256 option" where
  "oldest_key [] = None"
| "oldest_key m = Some (fst (hd (sort_key (\<lambda>(_, _, at). at) m)))"

function trim_rejected :: "(hash256, string \<times> instant) dmap \<Rightarrow> (hash256, string \<times> instant) dmap" where
  "trim_rejected m =
     (if REJECT_CACHE_SIZE < length m
      then (case oldest_key m of None \<Rightarrow> m | Some k \<Rightarrow> trim_rejected (dremove k m))
      else m)"
  by auto

lemma oldest_key_in: "oldest_key m = Some k \<Longrightarrow> k \<in> fst ` set m"
proof (cases m)
  case (Cons e es)
  assume "oldest_key m = Some k"
  then have "k = fst (hd (sort_key (\<lambda>(_, _, at). at) m))" by (simp add: Cons)
  moreover have "sort_key (\<lambda>(_, _, at). at) m \<noteq> []" by (metis Cons length_sort list.distinct(1) length_0_conv)
  then have "hd (sort_key (\<lambda>(_, _, at). at) m) \<in> set m" by (metis hd_in_set set_sort)
  ultimately show ?thesis by simp
qed simp

lemma length_dremove_less: "k \<in> fst ` set m \<Longrightarrow> length (dremove k m) < length m"
  by (auto simp: AList.delete_eq intro!: length_filter_less)

termination trim_rejected
  by (relation "measure length") (auto dest!: oldest_key_in length_dremove_less)

definition cleanup_rejected :: "instant \<Rightarrow> nat \<Rightarrow> TransactionPool \<Rightarrow> TransactionPool" where
  "cleanup_rejected now max_age_secs p =
     p\<lparr>rejected := trim_rejected
        (filter (\<lambda>(_, _, at). as_secs (now - at) < max_age_secs) (rejected p))\<rparr>"

section \<open>Purges and the copy on disk\<close>

definition drop_banned :: "hash256 \<Rightarrow> TransactionPool \<Rightarrow> bool \<times> TransactionPool" where
  "drop_banned tid p =
     (has_transaction p tid,
      sled_remove tid ((take_pending tid p)\<lparr>confirmed := dremove tid (confirmed p)\<rparr>))"

definition is_ghost :: "extern \<Rightarrow> Transaction \<Rightarrow> bool" where
  "is_ghost X tx \<longleftrightarrow> tx_inputs tx = [] \<and> tx_outputs tx = [] \<and>
     (case tx_special_data tx of
        None \<Rightarrow> True
      | Some sd \<Rightarrow> isl (validate_fields sd) \<or> isl (verify_signature X sd)
          \<or> isl (verify_address_binding X sd))"

definition purge_ghost_transactions :: "extern \<Rightarrow> TransactionPool \<Rightarrow> nat \<times> TransactionPool" where
  "purge_ghost_transactions X p =
     (let gp = map fst (filter (\<lambda>(_, e). is_ghost X (pe_tx e)) (pending p));
          p1 = fold drop_pending gp p;
          gc = map fst (filter (\<lambda>(_, e). is_ghost X (pe_tx e)) (confirmed p1));
          p2 = fold drop_confirmed gc p1
      in (length gp + length gc, p2))"

definition purge_block_only_finalized :: "(hash256 \<Rightarrow> bool) \<Rightarrow> TransactionPool \<Rightarrow> nat \<times> TransactionPool" where
  "purge_block_only_finalized is_input_coinbase p =
     (let gone = map fst (filter (\<lambda>(_, e). is_block_only_tx (pe_tx e) \<or>
            (length (tx_inputs (pe_tx e)) = 1 \<and>
             is_input_coinbase (op_txid (in_previous_output (hd (tx_inputs (pe_tx e)))))))
            (confirmed p))
      in (length gone,
          fold drop_confirmed gone p))"

definition add_finalized_direct ::
    "extern \<Rightarrow> instant \<Rightarrow> Transaction \<Rightarrow> u64 \<Rightarrow> TransactionPool \<Rightarrow> TransactionPool" where
  "add_finalized_direct X now tx fee p =
     (let tid = txid X tx
      in if is_banned X tid then sled_remove tid p
         else if is_block_only_tx tx then sled_remove tid p
         else if dhas (pending p) tid \<or> dhas (confirmed p) tid then p
         else let e = \<lparr>pe_tx = tx, pe_fee = fee, pe_added_at = now, pe_size = tx_size_of X tx,
                       pe_submitter_ip = None\<rparr>;
                  p' = sled_persist tid tx fee True p
              in p'\<lparr>confirmed := dput tid e (confirmed p')\<rparr>)"

definition get_stale_finalized ::
    "instant \<Rightarrow> duration \<Rightarrow> TransactionPool \<Rightarrow> (hash256 \<times> Transaction) list" where
  "get_stale_finalized now min_age p =
     map (\<lambda>(tid, e). (tid, pe_tx e)) (filter (\<lambda>(_, e). min_age \<le> now - pe_added_at e) (confirmed p))"

definition get_all_for_sync :: "TransactionPool \<Rightarrow> MempoolSyncEntry list" where
  "get_all_for_sync p =
     map (\<lambda>(_, e). \<lparr>ms_tx = pe_tx e, ms_fee = pe_fee e, ms_is_finalized = False\<rparr>) (pending p) @
     map (\<lambda>(_, e). \<lparr>ms_tx = pe_tx e, ms_fee = pe_fee e, ms_is_finalized = True\<rparr>) (confirmed p)"

definition entry_json :: "bool \<Rightarrow> PoolEntry \<Rightarrow> mempool_row option" where
  "entry_json fin e = row_json (pe_tx e) (pe_fee e) fin"

definition save_to_sled :: "bool \<Rightarrow> TransactionPool \<Rightarrow> TransactionPool" where
  "save_to_sled opened p =
     (if opened
      then p\<lparr>disk := fold (\<lambda>(tid, e). dput tid (entry_json True e)) (confirmed p)
               (fold (\<lambda>(tid, e). dput tid (entry_json False e)) (pending p) (disk p))\<rparr>
      else p)"

text \<open>
  What \<open>load_from_sled\<close> reads in a value: nothing if it is not JSON or its transaction does not
  parse, with fee 0 and not finalized where these members are missing.
\<close>

definition parse_row :: "mempool_row option \<Rightarrow> (Transaction \<times> u64 \<times> bool) option" where
  "parse_row v = (case v of None \<Rightarrow> None
     | Some r \<Rightarrow> (case row_tx r of None \<Rightarrow> None
         | Some tx \<Rightarrow> Some (tx, case row_fee r of None \<Rightarrow> 0 | Some f \<Rightarrow> f, row_finalized v)))"

text \<open>One iteration: the number of rows restored, the keys to drop and the pool.\<close>

definition load_row ::
    "extern \<Rightarrow> instant \<Rightarrow> hash256 \<times> mempool_row option
      \<Rightarrow> nat \<times> hash256 list \<times> TransactionPool \<Rightarrow> nat \<times> hash256 list \<times> TransactionPool" where
  "load_row X now kv a = (case (kv, a) of ((key, v), (n, ks, p)) \<Rightarrow>
     (case parse_row v of
        None \<Rightarrow> (n, ks, p)
      | Some (tx, fee, fin) \<Rightarrow>
          if is_banned X (txid X tx) then (n, ks @ [key], p)
          else if fin then (Suc n, ks, add_finalized_direct X now tx fee p)
          else (case add_pending X now tx fee p of
              (Inr _, p') \<Rightarrow> (Suc n, ks, p')
            | (Inl _, p') \<Rightarrow> (n, ks, p'))))"

definition load_from_sled :: "extern \<Rightarrow> instant \<Rightarrow> bool \<Rightarrow> TransactionPool \<Rightarrow> nat \<times> TransactionPool" where
  "load_from_sled X now opened p =
     (if opened
      then (case fold (load_row X now) (disk p) (0, [], p\<lparr>loading := True\<rparr>) of
          (n, ks, p') \<Rightarrow> (n, p'\<lparr>disk := fold dremove ks (disk p'), loading := False\<rparr>))
      else (0, p))"

text \<open>
  What \<open>main.rs\<close> does with the pool when the node starts, up to the purge of ghosts. The sweeps it runs
  next, over banned transactions and over finalized ones with missing inputs, are operations of the
  engine (\<open>evict_finalized_with_missing_inputs\<close> of \<open>Tx_Engine\<close>).
\<close>

definition pool_startup :: "extern \<Rightarrow> instant \<Rightarrow> mempool_tree \<Rightarrow> TransactionPool" where
  "pool_startup X now d =
     snd (purge_ghost_transactions X
       (snd (load_from_sled X now True (enable_persistence True (pool_new d)))))"

end
