(* ===== verification/Tx_Pool_Disk.thy ===== *)
theory Tx_Pool_Disk
  imports Tx_Pool_Props
begin

text \<open>
  The pool and its copy on disk. \<open>pool_content\<close> is the abstract pool, a map from transaction ids
  to transaction, fee and whether it is finalized; \<open>on_disk\<close> is the same view of the disk. Every
  call changes both at the same keys, so a restart finds what the pool held.
\<close>

section \<open>The abstract pool\<close>

type_synonym content = "hash256 \<rightharpoonup> Transaction \<times> u64 \<times> bool"

definition pool_content :: "TransactionPool \<Rightarrow> content" where
  "pool_content p k = (case dget (pending p) k of
     Some e \<Rightarrow> Some (pe_tx e, pe_fee e, False)
   | None \<Rightarrow> map_option (\<lambda>e. (pe_tx e, pe_fee e, True)) (dget (confirmed p) k))"

definition disk_content :: "mempool_tree \<Rightarrow> content" where
  "disk_content d k = (case dget d k of None \<Rightarrow> None | Some v \<Rightarrow> parse_row v)"

lemma disk_content_put [simp]:
  "disk_content (dput k (row_json tx fee fin) d) = (disk_content d)(k \<mapsto> (tx, fee, fin))"
  by (auto simp: disk_content_def fun_eq_iff row_json_def parse_row_def row_finalized_def)

lemma disk_content_remove [simp]: "disk_content (dremove k d) = (disk_content d)(k := None)"
  by (auto simp: disk_content_def fun_eq_iff)

text \<open>The pool is on disk, and with \<open>ex\<close> nothing else is.\<close>

definition mirrored :: "bool \<Rightarrow> content \<Rightarrow> content \<Rightarrow> bool" where
  "mirrored ex m d \<longleftrightarrow> m \<subseteq>\<^sub>m d \<and> (ex \<longrightarrow> d = m)"

lemma mirrored_upd: "mirrored ex m d \<Longrightarrow> mirrored ex (m(k := v)) (d(k := v))"
  by (auto simp: mirrored_def map_le_def)

lemma mirrored_del: "mirrored ex m d \<Longrightarrow> m k = None \<Longrightarrow> mirrored ex m (d(k := None))"
  by (auto simp: mirrored_def map_le_def)

lemma mirroredD: "mirrored ex m d \<Longrightarrow> m k = Some v \<Longrightarrow> d k = Some v"
  by (metis domI map_le_def mirrored_def)

lemma mirrored_comp:
  assumes "mirrored ex m d" "f None = None"
  shows "mirrored ex (\<lambda>k. f (m k)) (\<lambda>k. f (d k))"
proof -
  have "f (m k) = f (d k)" if "f (m k) \<noteq> None" for k
    using that assms(2) mirroredD [OF assms(1), of k] by (cases "m k") auto
  then show ?thesis using assms(1) by (auto simp: mirrored_def map_le_def dom_def)
qed

lemma content_None: "pool_content p k = None \<longleftrightarrow> \<not> dhas (pending p) k \<and> \<not> dhas (confirmed p) k"
  by (auto simp: pool_content_def dhas_def split: option.splits)

lemma banned_not_held: "pool_inv X p \<Longrightarrow> is_banned X k \<Longrightarrow> pool_content p k = None"
  unfolding content_None dhas_def by (metis entry_ok_def pool_inv_get not_None_eq)

lemma content_drop_pending:
  "\<not> dhas (confirmed p) k \<Longrightarrow> pool_content (drop_pending k p) = (pool_content p)(k := None)"
  by (auto simp: pool_content_def fun_eq_iff frame_simps dhas_def split: option.split)

lemma content_drop_confirmed:
  "\<not> dhas (pending p) k \<Longrightarrow> pool_content (drop_confirmed k p) = (pool_content p)(k := None)"
  by (auto simp: pool_content_def fun_eq_iff frame_simps dhas_def split: option.split)

lemma content_insert_pending:
  "pool_content (insert_pending k e p) = (pool_content p)(k \<mapsto> (pe_tx e, pe_fee e, False))"
  by (auto simp: pool_content_def fun_eq_iff frame_simps split: option.split)

lemma content_cong:
  "pending q = pending p \<Longrightarrow> confirmed q = confirmed p \<Longrightarrow> pool_content q = pool_content p"
  by (simp add: pool_content_def fun_eq_iff split: option.split)

section \<open>The invariant of the running pool\<close>

definition disk_ok :: "extern \<Rightarrow> Transaction set \<Rightarrow> mempool_tree \<Rightarrow> bool" where
  "disk_ok X T d \<longleftrightarrow> (\<forall>k tx r. disk_content d k = Some (tx, r) \<longrightarrow> k = txid X tx \<and> tx \<in> T)"

definition live_inv :: "extern \<Rightarrow> Transaction set \<Rightarrow> bool \<Rightarrow> TransactionPool \<Rightarrow> bool" where
  "live_inv X T ex p \<longleftrightarrow> pool_inv X p \<and> sled_tree p \<and> \<not> loading p \<and> disk_ok X T (disk p)
     \<and> mirrored ex (pool_content p) (disk_content (disk p))"

lemma live_disjoint:
  "live_inv X T ex p \<Longrightarrow> dhas (pending p) k \<Longrightarrow> \<not> dhas (confirmed p) k"
  "live_inv X T ex p \<Longrightarrow> dhas (confirmed p) k \<Longrightarrow> \<not> dhas (pending p) k"
  by (auto simp: live_inv_def pool_inv_def maps_ok_def)

lemma disk_okD: "disk_ok X T d \<Longrightarrow> disk_content d k = Some (tx, r) \<Longrightarrow> k = txid X tx \<and> tx \<in> T"
  unfolding disk_ok_def by blast

lemma disk_ok_remove: "disk_ok X T d \<Longrightarrow> disk_ok X T (dremove k d)"
  by (auto simp: disk_ok_def)

lemma live_drop_pending:
  assumes "live_inv X T ex p" "\<not> dhas (confirmed p) k"
  shows "live_inv X T ex (drop_pending k p)"
  using assms unfolding live_inv_def
  by (simp add: pool_inv_drop_pending frame_simps content_drop_pending disk_ok_remove mirrored_upd)

lemma live_drop_confirmed:
  assumes "live_inv X T ex p" "\<not> dhas (pending p) k"
  shows "live_inv X T ex (drop_confirmed k p)"
  using assms unfolding live_inv_def
  by (simp add: pool_inv_drop_confirmed frame_simps content_drop_confirmed disk_ok_remove mirrored_upd)

lemma live_sled_remove:
  assumes "live_inv X T ex p" "pool_content p k = None"
  shows "live_inv X T ex (sled_remove k p)"
  using assms content_cong [of "sled_remove k p" p] unfolding live_inv_def
  by (simp add: pool_inv_sled_remove frame_simps disk_ok_remove mirrored_del)

lemma live_fold_drop_pending:
  "live_inv X T ex p \<Longrightarrow> (\<And>k. k \<in> set ks \<Longrightarrow> \<not> dhas (confirmed p) k) \<Longrightarrow> live_inv X T ex (fold drop_pending ks p)"
  by (induction ks arbitrary: p) (auto simp: live_drop_pending frame_simps)

lemma live_fold_drop_confirmed:
  "live_inv X T ex p \<Longrightarrow> (\<And>k. k \<in> set ks \<Longrightarrow> \<not> dhas (pending p) k) \<Longrightarrow> live_inv X T ex (fold drop_confirmed ks p)"
  by (induction ks arbitrary: p) (auto simp: live_drop_confirmed frame_simps)

text \<open>A transaction that may not enter the pool is not in it under its id.\<close>

lemma forbidden_not_held:
  assumes p: "live_inv X T ex p" and T: "inj_on (txid X) T" "tx \<in> T"
    and bad: "is_banned X (txid X tx) \<or> is_block_only_tx tx"
  shows "pool_content p (txid X tx) = None"
proof (rule ccontr)
  assume "pool_content p (txid X tx) \<noteq> None"
  then obtain e r where e: "dget (pending p) (txid X tx) = Some e \<or> dget (confirmed p) (txid X tx) = Some e"
    and c: "pool_content p (txid X tx) = Some (pe_tx e, r)"
    by (auto simp: pool_content_def split: option.splits)
  have ok: "entry_ok X (txid X tx) e" using p e by (auto simp: live_inv_def intro: pool_inv_get)
  have "disk_content (disk p) (txid X tx) = Some (pe_tx e, r)"
    using p c by (auto simp: live_inv_def dest: mirroredD)
  then have "txid X tx = txid X (pe_tx e)" "pe_tx e \<in> T"
    using p unfolding live_inv_def by (blast dest: disk_okD)+
  then have "pe_tx e = tx" using T by (auto dest: inj_onD)
  with ok bad show False by (simp add: entry_ok_def)
qed

lemma live_insert_pending:
  assumes "live_inv X T ex p" "pe_tx e \<in> T" "k = txid X (pe_tx e)" "pool_inv X (insert_pending k e p)"
  shows "live_inv X T ex (insert_pending k e p)"
  using assms unfolding live_inv_def
  by (simp add: frame_simps content_insert_pending mirrored_upd disk_ok_def)

lemma live_evict_one: "live_inv X T ex p \<Longrightarrow> pending p \<noteq> [] \<Longrightarrow> live_inv X T ex (snd (evict_low_fee_transactions 1 p))"
  using evict_one_is_drop [of p] live_disjoint live_drop_pending by simp

lemma live_add_pending:
  assumes p: "live_inv X T ex p" and T: "inj_on (txid X) T" "tx \<in> T"
  shows "live_inv X T ex (snd (add_pending_with_submitter X now tx fee ip p))"
proof -
  have inv: "pool_inv X p" using p by (simp add: live_inv_def)
  note keep = pool_inv_add_pending [OF inv, of now tx fee ip]
  show ?thesis
  proof (cases rule: add_pending_cases [of X now tx fee ip p])
    case forbidden
    then show ?thesis using live_sled_remove [OF p forbidden_not_held [OF p T]] by simp
  next
    case refused
    then show ?thesis using p by simp
  next
    case inserted
    have "live_inv X T ex (insert_pending (txid X tx) (new_entry X now tx fee ip) p)"
      by (rule live_insert_pending [OF p]) (use keep T inserted in \<open>simp_all add: new_entry_def\<close>)
    with inserted show ?thesis by simp
  next
    case evicting
    have "live_inv X T ex (insert_pending (txid X tx) (new_entry X now tx fee ip)
        (snd (evict_low_fee_transactions 1 p)))"
      by (rule live_insert_pending [OF live_evict_one [OF p full_pool_nonempty [OF inv evicting(3)]]])
        (use keep T evicting in \<open>simp_all add: new_entry_def\<close>)
    with evicting show ?thesis by simp
  qed
qed

lemma live_put_confirmed:
  assumes p: "live_inv X T ex p" and e: "pe_tx e \<in> T" "k = txid X (pe_tx e)"
    and new: "dget (pending q) k = None"
    and q: "q = sled_persist k (pe_tx e) (pe_fee e) True p'" "pool_inv X (q\<lparr>confirmed := dput k e (confirmed q)\<rparr>)"
    and p': "pending p' = dremove k (pending p)" "confirmed p' = confirmed p" "disk p' = disk p"
      "sled_tree p'" "\<not> loading p'"
  shows "live_inv X T ex (q\<lparr>confirmed := dput k e (confirmed q)\<rparr>)"
proof -
  let ?q = "q\<lparr>confirmed := dput k e (confirmed q)\<rparr>"
  have "pool_content ?q = (pool_content p)(k \<mapsto> (pe_tx e, pe_fee e, True))"
    using new p' by (auto simp: pool_content_def fun_eq_iff q(1) frame_simps split: option.splits)
  moreover have "disk_content (disk ?q) = (disk_content (disk p))(k \<mapsto> (pe_tx e, pe_fee e, True))"
    using p' by (simp add: q(1) frame_simps)
  ultimately show ?thesis
    using p e q(2) p' unfolding live_inv_def disk_ok_def by (simp add: mirrored_upd q(1) frame_simps)
qed

lemma live_content_T: "live_inv X T ex p \<Longrightarrow> pool_content p k = Some (tx, r) \<Longrightarrow> tx \<in> T"
  unfolding live_inv_def by (blast dest: disk_okD mirroredD)

lemma live_confirm:
  assumes p: "live_inv X T ex p"
  shows "live_inv X T ex (snd (confirm_transaction X k p))"
proof -
  have inv: "pool_inv X p" using p by (simp add: live_inv_def)
  have banned: "\<not> dhas (confirmed p) k" if "is_banned X k"
    using banned_not_held [OF inv that] by (simp add: content_None)
  have moved: "live_inv X T ex (q\<lparr>confirmed := dput k e (confirmed q)\<rparr>)"
    if k: "dget (pending p) k = Some e" "\<not> is_banned X k"
      and q: "q = sled_persist k (pe_tx e) (pe_fee e) True (take_pending k p)" for e q
  proof (rule live_put_confirmed [OF p _ _ _ q])
    show "pe_tx e \<in> T" using k live_content_T [OF p, of k] by (simp add: pool_content_def)
    show "k = txid X (pe_tx e)" using pool_inv_get(1) [OF inv k(1)] by (simp add: entry_ok_def)
    show "pool_inv X (q\<lparr>confirmed := dput k e (confirmed q)\<rparr>)"
      using pool_inv_confirm [OF inv, of k] k by (simp add: confirm_transaction_def q Let_def)
  qed (use p in \<open>simp_all add: q frame_simps live_inv_def\<close>)
  show ?thesis
    using moved live_drop_pending [OF p banned] p
    by (auto simp: confirm_transaction_def Let_def split: option.splits)
qed

lemma live_add_finalized:
  assumes p: "live_inv X T ex p" and T: "inj_on (txid X) T" "tx \<in> T"
  shows "live_inv X T ex (add_finalized_direct X now tx fee p)"
proof -
  let ?k = "txid X tx"
  let ?e = "new_entry X now tx fee None"
  let ?q = "sled_persist ?k tx fee True p"
  have inv: "pool_inv X p" using p by (simp add: live_inv_def)
  have added: "live_inv X T ex (?q\<lparr>confirmed := dput ?k ?e (confirmed ?q)\<rparr>)"
    if ok: "\<not> is_banned X ?k" "\<not> is_block_only_tx tx" "\<not> dhas (pending p) ?k" "\<not> dhas (confirmed p) ?k"
  proof (rule live_put_confirmed [OF p, where p' = p])
    show "pool_inv X (?q\<lparr>confirmed := dput ?k ?e (confirmed ?q)\<rparr>)"
      using pool_inv_add_finalized [OF inv, of now tx fee] ok
      by (simp add: add_finalized_direct_def new_entry_def Let_def)
  qed (use p T ok in \<open>auto simp: new_entry_def frame_simps live_inv_def dhas_iff map_of_eq_None_iff\<close>)
  show ?thesis
    using added live_sled_remove [OF p forbidden_not_held [OF p T]] p
    by (simp add: add_finalized_direct_def new_entry_def Let_def)
qed

lemma live_reject:
  assumes "live_inv X T ex p" "\<not> dhas (confirmed p) k"
  shows "live_inv X T ex (reject_transaction now k why p)"
proof -
  have "pool_content (reject_transaction now k why p) = pool_content (drop_pending k p)"
    by (rule content_cong) (simp_all add: reject_transaction_def Let_def)
  moreover have "pool_inv X (reject_transaction now k why p)"
    using assms by (simp add: live_inv_def pool_inv_reject)
  ultimately show ?thesis
    using live_drop_pending [OF assms] by (simp add: live_inv_def) (simp add: reject_transaction_def Let_def)
qed

definition only_pending :: "(Transaction \<times> u64 \<times> bool) option \<Rightarrow> (Transaction \<times> u64 \<times> bool) option" where
  "only_pending x = (case x of None \<Rightarrow> None | Some (tx, fee, fin) \<Rightarrow> if fin then None else x)"

lemma disk_clear_finalized:
  assumes "dinv (disk p)" "sled_tree p"
  shows "disk_content (disk (clear_finalized p)) = (\<lambda>k. only_pending (disk_content (disk p) k))"
proof
  fix k
  have "dget (disk (clear_finalized p)) k =
      (case dget (disk p) k of None \<Rightarrow> None | Some v \<Rightarrow> if row_finalized v then None else Some v)"
    using assms(2) in_set_dget [OF assms(1), of k]
    by (force simp: clear_finalized_def Let_def al.get_fold_remove split: option.split)
  then show "disk_content (disk (clear_finalized p)) k = only_pending (disk_content (disk p) k)"
    by (simp add: disk_content_def only_pending_def parse_row_def split: option.split)
qed

lemma live_clear_finalized:
  assumes p: "live_inv X T ex p"
  shows "live_inv X T ex (clear_finalized p)"
proof -
  have fields: "pending (clear_finalized p) = pending p" "confirmed (clear_finalized p) = []"
    "sled_tree (clear_finalized p)" "\<not> loading (clear_finalized p)"
    using p by (simp_all add: clear_finalized_def live_inv_def Let_def)
  have disk: "disk_content (disk (clear_finalized p)) = (\<lambda>k. only_pending (disk_content (disk p) k))"
    using p by (intro disk_clear_finalized) (simp_all add: live_inv_def pool_inv_def)
  have content: "pool_content (clear_finalized p) = (\<lambda>k. only_pending (pool_content p k))"
    by (simp add: pool_content_def fields only_pending_def fun_eq_iff split: option.split)
  have "disk_ok X T (disk (clear_finalized p))"
    unfolding disk_ok_def disk only_pending_def
    by (intro allI impI) (use p in \<open>auto simp: live_inv_def split: option.splits if_splits dest: disk_okD\<close>)
  moreover have "mirrored ex (pool_content (clear_finalized p)) (disk_content (disk (clear_finalized p)))"
    unfolding disk content
    by (rule mirrored_comp) (use p in \<open>simp_all add: live_inv_def only_pending_def\<close>)
  ultimately show ?thesis
    using p fields by (simp add: live_inv_def pool_inv_clear_finalized)
qed

lemma live_archive: "live_inv X T ex p \<Longrightarrow> live_inv X T ex (archive_confirmed_txs ks p)"
proof (induction ks arbitrary: p)
  case (Cons k ks)
  have "live_inv X T ex (archive_one k p)"
    using live_disjoint [OF Cons.prems, of k] live_drop_confirmed [OF Cons.prems, of k]
      live_drop_pending [OF Cons.prems, of k]
    by (auto simp: archive_one_def Let_def frame_simps Cons.prems)
  then show ?case using Cons.IH by (simp add: archive_confirmed_txs_def)
qed (simp add: archive_confirmed_txs_def)

lemma live_update_fee: "live_inv X T ex p \<Longrightarrow> live_inv X T ex (snd (update_pending_fee k fee p))"
proof (cases "dget (pending p) k")
  case (Some e)
  assume p: "live_inv X T ex p"
  let ?q = "snd (update_pending_fee k fee p)"
  have T: "pe_tx e \<in> T" using Some live_content_T [OF p, of k] by (simp add: pool_content_def)
  have k: "k = txid X (pe_tx e)" using Some p by (auto simp: live_inv_def entry_ok_def dest!: pool_inv_get(1))
  have inv: "pool_inv X ?q" using p by (simp add: live_inv_def pool_inv_update_fee)
  have "pool_content ?q = (pool_content p)(k \<mapsto> (pe_tx e, fee, False))"
    "disk_content (disk ?q) = (disk_content (disk p))(k \<mapsto> (pe_tx e, fee, False))" if "pe_fee e \<noteq> fee"
    using that Some p by (auto simp: pool_content_def fun_eq_iff update_pending_fee_def frame_simps
        live_inv_def split: option.split)
  then show ?thesis using p inv T k Some
    unfolding live_inv_def disk_ok_def
    by (cases "pe_fee e = fee") (auto simp: mirrored_upd update_pending_fee_def frame_simps)
qed (simp add: update_pending_fee_def)

lemma live_fold_evict: "live_inv X T ex (snd a) \<Longrightarrow> live_inv X T ex (snd (fold evict_one ks a))"
  by (induction ks arbitrary: a) (auto simp: evict_one_snd live_drop_pending live_disjoint)

lemma live_drop_banned: "live_inv X T ex p \<Longrightarrow> live_inv X T ex (snd (drop_banned k p))"
proof -
  assume p: "live_inv X T ex p"
  have "pool_content (snd (drop_banned k p)) = (pool_content p)(k := None)"
    by (auto simp: drop_banned_def pool_content_def fun_eq_iff frame_simps split: option.split)
  then show ?thesis using p
    by (simp add: live_inv_def pool_inv_drop_banned mirrored_upd)
      (simp add: drop_banned_def frame_simps disk_ok_remove mirrored_upd)
qed

lemma disk_content_save:
  assumes "dinv m"
  shows "disk_content (fold (\<lambda>(k, e). dput k (entry_json fin e)) m d) j =
    (case dget m j of None \<Rightarrow> disk_content d j | Some e \<Rightarrow> Some (pe_tx e, pe_fee e, fin))"
  using assms
proof (induction m arbitrary: d)
  case (Cons a m)
  obtain k e where a: "a = (k, e)" by (cases a)
  have "dinv m" "dget m k = None" using Cons.prems by (simp_all add: a dinv_def map_of_eq_None_iff)
  then show ?case using Cons.IH [of "dput k (entry_json fin e) d"] by (simp add: a entry_json_def split: option.split)
qed simp

lemma live_save: "live_inv X T ex p \<Longrightarrow> live_inv X T ex (save_to_sled ok p)"
proof -
  assume p: "live_inv X T ex p"
  have d: "dinv (pending p)" "dinv (confirmed p)" using p by (auto simp: live_inv_def pool_inv_def maps_ok_def)
  have same: "disk_content (disk (save_to_sled ok p)) = disk_content (disk p)"
  proof
    fix k
    have "disk_content (disk p) k = Some (pe_tx e, pe_fee e, False)" if "dget (pending p) k = Some e" for e
      using p that mirroredD [of ex "pool_content p" _ k] by (auto simp: live_inv_def pool_content_def)
    moreover have "disk_content (disk p) k = Some (pe_tx e, pe_fee e, True)"
      "dget (pending p) k = None" if "dget (confirmed p) k = Some e" for e
      using p that mirroredD [of ex "pool_content p" _ k] live_disjoint(2) [OF p, of k]
      by (auto simp: live_inv_def pool_content_def dhas_def)
    ultimately show "disk_content (disk (save_to_sled ok p)) k = disk_content (disk p) k"
      by (auto simp: save_to_sled_def disk_content_save d split: option.split)
  qed
  have "pool_content (save_to_sled ok p) = pool_content p"
    by (rule content_cong) (simp_all add: save_to_sled_def)
  with p show ?thesis
    unfolding live_inv_def disk_ok_def same
    by (simp add: pool_inv_save) (simp add: save_to_sled_def)
qed

lemma ghosts_none: "pool_inv X p \<Longrightarrow> purge_ghost_transactions X p = (0, p)"
proof -
  assume p: "pool_inv X p"
  then have d: "dinv (pending p)" "dinv (confirmed p)" by (auto simp: pool_inv_def maps_ok_def)
  have "\<not> is_ghost X (pe_tx e)" if "(k, e) \<in> set (pending p) \<union> set (confirmed p)" for k e
    using that pool_inv_get [OF p, of k e] d
    by (auto simp: in_set_dget entry_ok_def is_block_only_tx_def is_ghost_def)
  then have "filter (\<lambda>(_, e). is_ghost X (pe_tx e)) (pending p) = []"
    "filter (\<lambda>(_, e). is_ghost X (pe_tx e)) (confirmed p) = []"
    by (auto simp: filter_empty_conv)
  then show ?thesis by (simp add: purge_ghost_transactions_def)
qed

text \<open>Calls that find their transactions in a set without id collisions.\<close>

definition call_ok :: "Transaction set \<Rightarrow> pool_call \<Rightarrow> TransactionPool \<Rightarrow> bool" where
  "call_ok T c p = (case c of
     AddPending tx _ _ \<Rightarrow> tx \<in> T
   | AddFinalized tx _ \<Rightarrow> tx \<in> T
   | Reject k _ \<Rightarrow> \<not> dhas (confirmed p) k
   | _ \<Rightarrow> True)"

lemma live_exec:
  assumes p: "live_inv X T ex p" and T: "inj_on (txid X) T" and c: "call_ok T c p" "c \<noteq> Restart"
  shows "live_inv X T ex (exec_pool X now c p)"
proof (cases c)
  case (CleanupStale age)
  show ?thesis
    by (auto simp: CleanupStale cleanup_stale_pending_def Let_def intro!: live_fold_drop_pending [OF p]
        dest!: in_set_dhas live_disjoint(1) [OF p])
next
  case (PurgeBlockOnly cb)
  show ?thesis
    by (auto simp: PurgeBlockOnly purge_block_only_finalized_def Let_def
        intro!: live_fold_drop_confirmed [OF p] dest!: in_set_dhas live_disjoint(2) [OF p])
next
  case (Evict n)
  show ?thesis using p by (simp add: Evict evict_low_fee_transactions_def Let_def live_fold_evict)
next
  case PurgeGhosts
  show ?thesis using p ghosts_none [of X p] by (simp add: PurgeGhosts live_inv_def)
next
  case (CleanupRejected secs)
  have "pool_content (cleanup_rejected now secs p) = pool_content p"
    by (rule content_cong) (simp_all add: cleanup_rejected_def)
  then show ?thesis using p pool_inv_exec [of X p now c]
    by (simp add: CleanupRejected live_inv_def) (simp add: cleanup_rejected_def)
qed (use c in \<open>simp_all add: call_ok_def p T live_add_pending live_add_finalized live_confirm
    live_reject live_clear_finalized live_archive live_update_fee live_drop_banned live_save\<close>)

end
