(* ===== verification/Tx_Pool_Restart.thy ===== *)
theory Tx_Pool_Restart
  imports Tx_Pool_Disk
begin

text \<open>
  Loading the pool from disk at a start, and the runs of the pool with restarts anywhere in them.
\<close>

section \<open>The loop over the rows\<close>

text \<open>
  After the rows with keys in \<open>N\<close>: \<open>c\<close> is the content of the disk before the loop, and the keys
  in \<open>must\<close> are to be restored.
\<close>

definition load_inv :: "extern \<Rightarrow> content \<Rightarrow> hash256 set \<Rightarrow> hash256 set \<Rightarrow> TransactionPool \<Rightarrow> bool" where
  "load_inv X c must N p \<longleftrightarrow> pool_inv X p \<and> sled_tree p \<and> loading p \<and> rejected p = []
     \<and> disk_content (disk p) \<subseteq>\<^sub>m c \<and> pool_content p \<subseteq>\<^sub>m disk_content (disk p)
     \<and> dom (pool_content p) \<subseteq> N \<and> (\<forall>k. k \<notin> N \<longrightarrow> disk_content (disk p) k = c k)
     \<and> (\<forall>k \<in> must \<inter> N. pool_content p k = c k)"

lemma map_leD: "m \<subseteq>\<^sub>m d \<Longrightarrow> m k = Some v \<Longrightarrow> d k = Some v"
  by (metis domI map_le_def)

lemma pending_content: "dget (pending p) k = Some e \<Longrightarrow> pool_content p k = Some (pe_tx e, pe_fee e, False)"
  by (simp add: pool_content_def)

lemma map_le_upd_both: "m \<subseteq>\<^sub>m d \<Longrightarrow> m(k := v) \<subseteq>\<^sub>m d(k := v)"
  by (auto simp: map_le_def)

lemma map_le_del_left: "m \<subseteq>\<^sub>m d \<Longrightarrow> m(k := None) \<subseteq>\<^sub>m d"
  by (auto simp: map_le_def)

lemma map_le_del_right: "m \<subseteq>\<^sub>m d \<Longrightarrow> m k = None \<Longrightarrow> m \<subseteq>\<^sub>m d(k := None)"
  by (auto simp: map_le_def)

lemma map_le_put: "m \<subseteq>\<^sub>m d \<Longrightarrow> d k = Some v \<Longrightarrow> m(k \<mapsto> v) \<subseteq>\<^sub>m d"
  by (auto simp: map_le_def)

lemma load_skip: "load_inv X c must N p \<Longrightarrow> k \<notin> must \<Longrightarrow> load_inv X c must (insert k N) p"
  by (auto simp: load_inv_def)

lemma load_unseen: "load_inv X c must N p \<Longrightarrow> k \<notin> N \<Longrightarrow> pool_content p k = None"
  by (auto simp: load_inv_def)

lemma load_remove:
  assumes p: "load_inv X c must N p" and k: "k \<notin> must" "k \<notin> N"
  shows "load_inv X c must (insert k N) (sled_remove k p)"
proof -
  have same: "pool_content (sled_remove k p) = pool_content p"
    by (rule content_cong) (simp_all add: frame_simps)
  show ?thesis
    using p k load_unseen [OF p k(2)] unfolding load_inv_def same
    by (auto simp: frame_simps pool_inv_sled_remove map_le_del_left map_le_del_right)
qed

lemma load_drop:
  assumes p: "load_inv X c must N p" and j: "dhas (pending p) j" "j \<notin> must"
  shows "load_inv X c must N (drop_pending j p)"
proof -
  have nc: "\<not> dhas (confirmed p) j" using p j by (auto simp: load_inv_def pool_inv_def maps_ok_def)
  have "pool_content p j \<noteq> None" using j by (simp add: content_None)
  then have "j \<in> N" using p by (auto simp: load_inv_def)
  then show ?thesis
    using p j unfolding load_inv_def content_drop_pending [OF nc]
    by (auto simp: frame_simps pool_inv_drop_pending map_le_del_left map_le_upd_both)
qed

lemma load_put:
  assumes p: "load_inv X c must N p" and k: "k \<notin> N" "c k = Some x"
    and q: "pool_inv X q" "pool_content q = (pool_content p)(k \<mapsto> x)" "disk q = disk p"
      "sled_tree q" "loading q" "rejected q = []"
  shows "load_inv X c must (insert k N) q"
proof -
  have "disk_content (disk p) k = Some x" using p k by (simp add: load_inv_def)
  then show ?thesis using p k unfolding load_inv_def q(2,3)
    by (auto simp: q map_le_put)
qed

lemma load_finalized:
  assumes p: "load_inv X c must N p" and k: "k \<notin> N" "c k = Some (tx, fee, True)" "k = txid X tx"
    and must: "k \<in> must \<Longrightarrow> \<not> is_block_only_tx tx" and b: "\<not> is_banned X k"
  shows "load_inv X c must (insert k N) (add_finalized_direct X now tx fee p)"
proof (cases "is_block_only_tx tx")
  case True
  then show ?thesis using load_remove [OF p _ k(1)] must b k(3) by (auto simp: add_finalized_direct_def)
next
  case False
  let ?q = "add_finalized_direct X now tx fee p"
  have new: "\<not> dhas (pending p) k" "\<not> dhas (confirmed p) k"
    using load_unseen [OF p k(1)] by (auto simp: content_None)
  have inv: "pool_inv X p" "loading p" "sled_tree p" "rejected p = []" using p by (auto simp: load_inv_def)
  have eq: "?q = p\<lparr>confirmed := dput k (new_entry X now tx fee None) (confirmed p)\<rparr>"
    using False b new inv(2) k(3) by (simp add: add_finalized_direct_def Let_def sled_persist_def new_entry_def)
  have "pool_content ?q = (pool_content p)(k \<mapsto> (tx, fee, True))"
    using new unfolding eq by (auto simp: pool_content_def fun_eq_iff dhas_def new_entry_def split: option.split)
  then show ?thesis
    by (rule load_put [OF p k(1,2) pool_inv_add_finalized [OF inv(1)]]) (simp_all add: eq inv)
qed

lemma load_pending:
  assumes p: "load_inv X c must N p" and k: "k \<notin> N" "c k = Some (tx, fee, False)" "k = txid X tx"
    and must: "k \<in> must \<Longrightarrow> admissible X tx p \<and> \<not> over_limits X tx p"
    and evict: "\<And>j. over_limits X tx p \<Longrightarrow> dhas (pending p) j \<Longrightarrow> j \<notin> must"
  shows "load_inv X c must (insert k N) (snd (add_pending X now tx fee p))"
proof -
  let ?e = "new_entry X now tx fee None"
  have inv: "pool_inv X p" "loading p" "sled_tree p" "rejected p = []" using p by (auto simp: load_inv_def)
  have ins: "load_inv X c must (insert k N) (insert_pending k ?e q)"
    if q: "load_inv X c must N q" "pool_inv X (insert_pending k ?e q)" for q
    using q(1) unfolding load_inv_def [of X c must N]
    by (intro load_put [OF q(1) k(1,2) q(2)])
      (auto simp: content_insert_pending frame_simps new_entry_def)
  note keep = pool_inv_add_pending [OF inv(1), of now tx fee None]
  show ?thesis unfolding add_pending_def
  proof (cases rule: add_pending_cases [of X now tx fee None p])
    case forbidden
    then show "load_inv X c must (insert k N) (snd (add_pending_with_submitter X now tx fee None p))"
      using load_remove [OF p _ k(1)] must k(3) by (auto simp: admissible_def)
  next
    case refused
    then show "load_inv X c must (insert k N) (snd (add_pending_with_submitter X now tx fee None p))"
      using load_skip [OF p, of k] must inv(4) by auto
  next
    case inserted
    then show "load_inv X c must (insert k N) (snd (add_pending_with_submitter X now tx fee None p))"
      using ins [OF p] keep k(3) by simp
  next
    case evicting
    note drop = evict_one_is_drop [OF full_pool_nonempty [OF inv(1) evicting(3)]]
    show "load_inv X c must (insert k N) (snd (add_pending_with_submitter X now tx fee None p))"
      using ins [OF load_drop [OF p drop(2) evict [OF evicting(4) drop(2)]]] evicting(1) keep k(3)
      by (simp add: drop(1) del: One_nat_def)
  qed
qed

text \<open>What the rows must satisfy for the keys in \<open>must\<close> to be restored.\<close>

definition restorable :: "extern \<Rightarrow> content \<Rightarrow> hash256 set \<Rightarrow> bool" where
  "restorable X c must \<longleftrightarrow>
     (\<forall>k tx r. c k = Some (tx, r) \<longrightarrow> k = txid X tx) \<and>
     (\<forall>k \<in> must. \<exists>tx r. c k = Some (tx, r) \<and> \<not> is_banned X k \<and> \<not> is_block_only_tx tx) \<and>
     (\<forall>N p k tx fee. load_inv X c must N p \<longrightarrow> k \<notin> N \<longrightarrow> c k = Some (tx, fee, False) \<longrightarrow>
        (k \<in> must \<longrightarrow> admissible X tx p \<and> \<not> over_limits X tx p) \<and>
        (over_limits X tx p \<longrightarrow> (\<forall>j. dhas (pending p) j \<longrightarrow> j \<notin> must)))"

lemma load_row_step:
  assumes c: "restorable X c must" "c k = parse_row v"
    and p: "load_inv X c must N p" "k \<notin> N" and row: "load_row X now (k, v) (n, ks, p) = (n', ks', p')"
  shows "load_inv X c must (insert k N) p'" "set ks' \<subseteq> set ks \<union> Collect (is_banned X)"
proof -
  have key: "k = txid X tx" if "c k = Some (tx, r)" for tx r
    using c(1) that unfolding restorable_def by blast
  have good: "\<not> is_banned X k \<and> \<not> is_block_only_tx tx" if "k \<in> must" "c k = Some (tx, r)" for tx r
    using c(1) that unfolding restorable_def by (metis fst_conv option.inject)
  have none: "k \<notin> must" if "parse_row v = None"
    using c that unfolding restorable_def by (metis option.distinct(1))
  have lim: "k \<in> must \<Longrightarrow> admissible X tx p \<and> \<not> over_limits X tx p"
    "over_limits X tx p \<Longrightarrow> dhas (pending p) j \<Longrightarrow> j \<notin> must" if "c k = Some (tx, fee, False)" for tx fee j
    using c p that unfolding restorable_def by blast+
  have pend: "load_inv X c must (insert k N) (snd (add_pending X now tx fee p))"
    if "c k = Some (tx, fee, False)" for tx fee
    by (rule load_pending [OF p that key [OF that] lim [OF that]])
  have fin: "load_inv X c must (insert k N) (add_finalized_direct X now tx fee p)"
    if "c k = Some (tx, fee, True)" "\<not> is_banned X (txid X tx)" for tx fee
    using load_finalized [OF p that(1) key [OF that(1)]] good [OF _ that(1)] that key [OF that(1)] by simp
  have ban: "load_inv X c must (insert k N) p" if "c k = Some (tx, r)" "is_banned X (txid X tx)" for tx r
    using load_skip [OF p(1), of k] good [OF _ that(1)] that key [OF that(1)] by blast
  have "load_inv X c must (insert k N) p' \<and> set ks' \<subseteq> set ks \<union> Collect (is_banned X)"
  proof (cases "parse_row v")
    case None
    with row none show ?thesis using load_skip [OF p(1), of k] by (simp add: load_row_def)
  next
    case (Some r)
    obtain tx fee b where r: "r = (tx, fee, b)" by (cases r)
    have ck: "c k = Some (tx, fee, b)" using c(2) Some r by simp
    show ?thesis
    proof (cases "is_banned X (txid X tx)")
      case True
      with row Some r ban [OF ck] key [OF ck] show ?thesis by (auto simp: load_row_def)
    next
      case False
      with row Some r ck fin [of tx fee] pend [of tx fee] show ?thesis
        by (cases b) (auto simp: load_row_def split: prod.splits sum.splits)
    qed
  qed
  then show "load_inv X c must (insert k N) p'" "set ks' \<subseteq> set ks \<union> Collect (is_banned X)" by auto
qed

lemma load_fold:
  assumes "restorable X c must" "load_inv X c must N p" "distinct (map fst rs)" "fst ` set rs \<inter> N = {}"
    "\<And>k v. (k, v) \<in> set rs \<Longrightarrow> c k = parse_row v" "fold (load_row X now) rs (n, ks, p) = (n', ks', p')"
  shows "load_inv X c must (N \<union> fst ` set rs) p' \<and> set ks' \<subseteq> set ks \<union> Collect (is_banned X)"
  using assms(2-)
proof (induction rs arbitrary: N n ks p)
  case (Cons r rs)
  obtain k v where r: "r = (k, v)" by (cases r)
  obtain m js q where q: "load_row X now (k, v) (n, ks, p) = (m, js, q)" by (metis prod_cases3)
  have *: "load_inv X c must (insert k N) q" "set js \<subseteq> set ks \<union> Collect (is_banned X)"
    using load_row_step [OF assms(1) _ Cons.prems(1) _ q] Cons.prems r by auto
  have "load_inv X c must (insert k N \<union> fst ` set rs) p' \<and> set ks' \<subseteq> set js \<union> Collect (is_banned X)"
    using Cons.prems r q by (intro Cons.IH [OF *(1)]) auto
  with * r show ?case by auto
qed auto

section \<open>A start from disk\<close>

lemma map_le_fold_remove:
  "m \<subseteq>\<^sub>m disk_content d \<Longrightarrow> (\<And>k. k \<in> set ks \<Longrightarrow> m k = None) \<Longrightarrow> m \<subseteq>\<^sub>m disk_content (fold dremove ks d)"
  by (induction ks arbitrary: d) (auto simp: map_le_del_right)

lemma fold_remove_map_le: "disk_content (fold dremove ks d) \<subseteq>\<^sub>m disk_content d"
proof (induction ks arbitrary: d)
  case (Cons k ks)
  have "disk_content (fold dremove (k # ks) d) \<subseteq>\<^sub>m (disk_content d)(k := None)" 
    using Cons [of "dremove k d"] by (simp only: disk_content_remove fold_simps)
  then show ?case by (metis map_le_del_left map_le_refl map_le_trans)
qed simp

lemma startup_restores:
  assumes d: "dinv d" and c: "restorable X (disk_content d) must"
    and q_def: "q = pool_startup X now d"
  shows "pool_inv X q" "sled_tree q" "\<not> loading q" "pool_content q \<subseteq>\<^sub>m disk_content (disk q)"
    "disk_content (disk q) \<subseteq>\<^sub>m disk_content d" "\<And>k. k \<in> must \<Longrightarrow> pool_content q k = disk_content d k"
proof -
  define p0 where "p0 = (enable_persistence True (pool_new d))\<lparr>loading := True\<rparr>"
  obtain n ks p where f: "fold (load_row X now) d (0, [], p0) = (n, ks, p)" by (metis prod_cases3)
  have "load_inv X (disk_content d) must {} p0"
    using d by (auto simp: load_inv_def p0_def enable_persistence_def pool_new_def pool_inv_def maps_ok_def
        one_dereg_per_slot_def sizes_def pool_content_def map_le_def dom_def)
  from load_fold [OF c this _ _ _ f] d
  have p: "load_inv X (disk_content d) must (fst ` set d) p" and ks: "set ks \<subseteq> Collect (is_banned X)"
    by (auto simp: dinv_def disk_content_def)
  have load: "snd (load_from_sled X now True (enable_persistence True (pool_new d)))
      = p\<lparr>disk := fold dremove ks (disk p), loading := False\<rparr>"
    using f by (simp add: load_from_sled_def p0_def enable_persistence_def pool_new_def)
  then have inv: "pool_inv X (p\<lparr>disk := fold dremove ks (disk p), loading := False\<rparr>)"
    using pool_inv_load [of X "enable_persistence True (pool_new d)" now True] d
    by (simp add: enable_persistence_def pool_new_def pool_inv_def maps_ok_def one_dereg_per_slot_def sizes_def)
  then have q: "q = p\<lparr>disk := fold dremove ks (disk p), loading := False\<rparr>"
    by (simp add: q_def pool_startup_def load ghosts_none)
  have same: "pool_content q = pool_content p" by (rule content_cong) (simp_all add: q)
  have "pool_content p k = None" if "is_banned X k" for k
    using banned_not_held [OF _ that] p by (simp add: load_inv_def)
  then show "pool_content q \<subseteq>\<^sub>m disk_content (disk q)"
    unfolding same using p ks by (auto simp: q load_inv_def intro!: map_le_fold_remove)
  show "pool_inv X q" "sled_tree q" "\<not> loading q" using inv p by (simp_all add: q load_inv_def)
  show "disk_content (disk q) \<subseteq>\<^sub>m disk_content d"
    using map_le_trans [OF fold_remove_map_le] p by (auto simp: q load_inv_def)
  show "pool_content q k = disk_content d k" if "k \<in> must" for k
  proof -
    have "disk_content d k \<noteq> None" using c that unfolding restorable_def by (metis option.distinct(1))
    then have "k \<in> fst ` set d" by (auto simp: disk_content_def simp flip: dhas_iff simp: dhas_def split: option.splits)
    then show ?thesis using p that unfolding same load_inv_def by blast
  qed
qed

definition finalized_keys :: "extern \<Rightarrow> content \<Rightarrow> hash256 set" where
  "finalized_keys X c = {k. \<exists>tx fee. c k = Some (tx, fee, True) \<and> \<not> is_banned X k \<and> \<not> is_block_only_tx tx}"

lemma restorable_finalized:
  assumes "\<forall>k tx r. c k = Some (tx, r) \<longrightarrow> k = txid X tx"
  shows "restorable X c (finalized_keys X c)"
proof -
  have "j \<notin> finalized_keys X c" if p: "load_inv X c must N p" "dhas (pending p) j" for must N p j
  proof -
    obtain e where e: "dget (pending p) j = Some e" using p by (auto simp: dhas_def)
    have "pool_content p \<subseteq>\<^sub>m c" using p by (auto simp: load_inv_def intro: map_le_trans)
    from map_leD [OF this pending_content [OF e]]
    have "c j = Some (pe_tx e, pe_fee e, False)" .
    then show ?thesis by (simp add: finalized_keys_def)
  qed
  moreover have "k \<notin> finalized_keys X c" if "c k = Some (tx, fee, False)" for k tx fee
    using that by (simp add: finalized_keys_def)
  ultimately show ?thesis
    using assms unfolding restorable_def by (fastforce simp: finalized_keys_def)
qed

text \<open>The whole pool comes back if its pending transactions fit: the limits are met at every row.\<close>

definition bytes_fit :: "TransactionPool \<Rightarrow> bool" where
  "bytes_fit p \<longleftrightarrow> sum_list (map unat (sizes (pending p))) \<le> unat MAX_POOL_BYTES"

definition weight :: "extern \<Rightarrow> content \<Rightarrow> hash256 \<Rightarrow> nat" where
  "weight X c k = unat (tx_size_of X (fst (the (c k))))"

lemma sizes_weight:
  assumes "pool_inv X p" "pool_content p \<subseteq>\<^sub>m c"
  shows "sum_list (map unat (sizes (pending p))) = sum (weight X c) (fst ` set (pending p))"
proof -
  have d: "dinv (pending p)" using assms by (simp add: pool_inv_def maps_ok_def)
  have "unat (pe_size e) = weight X c k" if "(k, e) \<in> set (pending p)" for k e
  proof -
    have e: "dget (pending p) k = Some e" using that in_set_dget [OF d] by simp
    then have "c k = Some (pe_tx e, pe_fee e, False)" by (rule map_leD [OF assms(2) pending_content])
    then show ?thesis using pool_inv_get(1) [OF assms(1) e] by (simp add: weight_def entry_ok_def)
  qed
  then have "map unat (sizes (pending p)) = map (weight X c) (map fst (pending p))"
    by (auto simp: sizes_def)
  then show ?thesis using d sum_list_distinct_conv_sum_set [of "map fst (pending p)" "weight X c"]
    by (simp add: dinv_def)
qed

lemma pending_keys_content:
  "k \<in> fst ` set (pending p) \<longleftrightarrow> (\<exists>tx fee. pool_content p k = Some (tx, fee, False))"
  by (auto simp: pool_content_def dhas_def simp flip: dhas_iff split: option.splits)

lemma room_for_row:
  assumes s: "pool_inv X old" "bytes_fit old" and c: "c = pool_content old"
    and p: "load_inv X c must N p" "k \<notin> N" "c k = Some (tx, fee, False)"
  shows "\<not> over_limits X tx p"
proof -
  let ?P = "fst ` set (pending p)" and ?O = "fst ` set (pending old)"
  have inv: "pool_inv X p" and le: "pool_content p \<subseteq>\<^sub>m c"
    using p(1) by (auto simp: load_inv_def intro: map_le_trans)
  have "?P \<subseteq> ?O"
    using le unfolding c pending_keys_content subset_iff by (metis domI map_le_def)
  moreover have "k \<in> ?O" using p(3) by (auto simp: c pending_keys_content)
  ultimately have sub: "insert k ?P \<subseteq> ?O" by simp
  have new: "k \<notin> ?P" using load_unseen [OF p(1,2)] by (simp add: pending_keys_content)
  have len: "length (pending q) = card (fst ` set (pending q))" if "pool_inv X q" for q
    using that by (metis distinct_card dinv_def length_map list.set_map maps_ok_def pool_inv_def)
  have "card ?P < card ?O" using sub new by (metis List.finite_set card_insert_disjoint card_mono finite_imageI Suc_le_eq)
  then have "length (pending p) < 10000" using len s(1) inv by (simp add: pool_inv_def maps_ok_def)
  then have count: "\<not> MAX_POOL_SIZE \<le> pending_count p"
    using inv by (simp add: pool_inv_def MAX_POOL_SIZE_def word_le_nat_alt unat_of_nat)
  have "sum (weight X c) ?P + weight X c k \<le> sum (weight X c) ?O"
    using sum_mono2 [OF _ sub, of "weight X c"] new by simp
  also have "\<dots> \<le> unat MAX_POOL_BYTES"
    using s sizes_weight [OF s(1), of c] by (simp add: c bytes_fit_def)
  finally have sum: "sum_list (map unat (sizes (pending p))) + unat (tx_size_of X tx) \<le> 104857600"
    using sizes_weight [OF inv le] p(3) by (simp add: weight_def MAX_POOL_BYTES_def)
  then have "unat (sum_list (sizes (pending p))) = sum_list (map unat (sizes (pending p)))"
    by (intro unat_sum_list) simp
  then have "unat (pending_bytes p + tx_size_of X tx) \<le> unat MAX_POOL_BYTES"
    using inv sum by (simp add: pool_inv_def unat_word_ariths MAX_POOL_BYTES_def)
  then show ?thesis using count by (simp add: over_limits_def word_le_nat_alt word_less_nat_alt)
qed

lemma restorable_all:
  assumes s: "pool_inv X old" "bytes_fit old"
  shows "restorable X (pool_content old) (dom (pool_content old))"
proof -
  let ?c = "pool_content old"
  have entry: "\<exists>e. (dget (pending old) k = Some e \<or> dget (confirmed old) k = Some e) \<and> pe_tx e = tx \<and> entry_ok X k e"
    if "?c k = Some (tx, r)" for k tx r
    using that pool_inv_get [OF s(1), of k] by (auto simp: pool_content_def split: option.splits)
  have pend: "\<exists>e. dget (pending old) k = Some e \<and> pe_tx e = tx" if "?c k = Some (tx, fee, False)" for k tx fee
    using that by (auto simp: pool_content_def split: option.splits)
  have "admissible X tx p" if p: "load_inv X ?c must N p" "k \<notin> N" "?c k = Some (tx, fee, False)" for must N p k tx fee
  proof -
    have ok: "k = txid X tx" "\<not> is_banned X k" "\<not> is_block_only_tx tx"
      using entry [OF p(3)] by (auto simp: entry_ok_def)
    have le: "pool_content p \<subseteq>\<^sub>m ?c" using p(1) by (auto simp: load_inv_def intro: map_le_trans)
    have held: "dget (pending p) k = None" using load_unseen [OF p(1,2)] by (simp add: content_None dhas_def)
    have "dereg_slot (pe_tx e) \<noteq> Some sl" if e: "(j, e) \<in> set (pending p)" and sl: "dereg_slot tx = Some sl" for j e sl
    proof
      assume same: "dereg_slot (pe_tx e) = Some sl"
      have "dinv (pending p)" using p(1) by (simp add: load_inv_def pool_inv_def maps_ok_def)
      then have j: "dget (pending p) j = Some e" using e by (simp add: in_set_dget)
      then have "?c j = Some (pe_tx e, pe_fee e, False)"
        by (rule map_leD [OF le pending_content])
      then have "j = k"
        using pend [of j] pend [OF p(3)] s(1) same sl
        unfolding pool_inv_def maps_ok_def one_dereg_per_slot_def by metis
      with j held show False by simp
    qed
    then have "\<not> duplicate_dereg tx p" by (auto simp: duplicate_dereg_def list_ex_iff split: option.splits)
    then show ?thesis using ok load_unseen [OF p(1,2)] by (simp add: admissible_def content_None)
  qed
  moreover have "\<not> over_limits X tx p"
    if "load_inv X ?c must N p" "k \<notin> N" "?c k = Some (tx, fee, False)" for must N p k tx fee
    by (rule room_for_row [OF s refl that])
  ultimately show ?thesis
    using entry unfolding restorable_def entry_ok_def by (auto simp: dom_def) metis+
qed

section \<open>Runs with restarts\<close>

text \<open>
  \<open>ex\<close> says that nothing but the pool is on disk: the first start found an empty disk, and the
  pool was within its byte limit at every restart since.
\<close>

inductive pool_reach :: "extern \<Rightarrow> Transaction set \<Rightarrow> bool \<Rightarrow> TransactionPool \<Rightarrow> bool" for X T where
  first_start: "pool_reach X T True (pool_startup X now [])"
| start: "dinv d \<Longrightarrow> disk_ok X T d \<Longrightarrow> pool_reach X T False (pool_startup X now d)"
| call: "pool_reach X T ex p \<Longrightarrow> call_ok T c p \<Longrightarrow> c \<noteq> Restart \<Longrightarrow> pool_reach X T ex (exec_pool X now c p)"
| restart: "pool_reach X T ex p \<Longrightarrow> pool_reach X T (ex \<and> bytes_fit p) (pool_startup X now (disk p))"

lemma live_start:
  assumes d: "dinv d" "disk_ok X T d"
  shows "live_inv X T False (pool_startup X now d)"
proof -
  have "restorable X (disk_content d) (finalized_keys X (disk_content d))"
    using d(2) by (intro restorable_finalized) (auto simp: disk_ok_def)
  note r = startup_restores [OF d(1) this, of "pool_startup X now d" now, OF refl]
  have "disk_ok X T (disk (pool_startup X now d))"
    unfolding disk_ok_def using r(5) d(2) by (metis disk_okD domI map_le_def)
  with r show ?thesis by (simp add: live_inv_def mirrored_def)
qed

lemma startup_exact:
  assumes p: "live_inv X T True p" "bytes_fit p" and q: "q = pool_startup X now (disk p)"
  shows "pool_content q = pool_content p" "live_inv X T True q"
proof -
  have c: "disk_content (disk p) = pool_content p" and d: "dinv (disk p)" "disk_ok X T (disk p)" and inv: "pool_inv X p"
    using p by (auto simp: live_inv_def mirrored_def pool_inv_def)
  have "restorable X (disk_content (disk p)) (dom (pool_content p))"
    using restorable_all [OF inv p(2)] by (simp add: c)
  note r = startup_restores [OF d(1) this q]
  have le: "pool_content q \<subseteq>\<^sub>m pool_content p" using r(4,5) c by (metis map_le_trans)
  have eq: "pool_content p \<subseteq>\<^sub>m pool_content q" using r(6) c by (simp add: map_le_def)
  show same: "pool_content q = pool_content p" using le eq by (rule map_le_antisym)
  then have "disk_content (disk q) = pool_content q" using r(4,5) c by (metis map_le_antisym)
  then show "live_inv X T True q"
    using live_start [OF d, of now] by (simp add: live_inv_def mirrored_def q)
qed

lemma reach_live:
  assumes "pool_reach X T ex p" "inj_on (txid X) T"
  shows "live_inv X T ex p"
  using assms(1)
proof (induction rule: pool_reach.induct)
  case (first_start now)
  have "live_inv X T False (pool_startup X now [])"
    by (rule live_start) (auto simp: disk_ok_def disk_content_def)
  moreover have "disk_content (disk (pool_startup X now [])) = Map.empty"
    by (simp add: pool_startup_def load_from_sled_def enable_persistence_def pool_new_def
        purge_ghost_transactions_def disk_content_def fun_eq_iff)
  moreover have "pool_content (pool_startup X now []) = Map.empty"
    using calculation by (auto simp: live_inv_def mirrored_def intro!: map_le_antisym)
  ultimately show ?case by (simp add: live_inv_def mirrored_def)
next
  case (start d now)
  then show ?case by (rule live_start)
next
  case (call ex p c now)
  then show ?case using live_exec assms(2) by blast
next
  case (restart ex p now)
  show ?case
  proof (cases "ex \<and> bytes_fit p")
    case True
    then have "live_inv X T True p" "bytes_fit p" using restart by simp_all
    from startup_exact(2) [OF this refl] True show ?thesis by simp
  next
    case False
    then have flag: "(ex \<and> bytes_fit p) = False" by simp
    show ?thesis unfolding flag
      by (rule live_start) (use restart in \<open>simp_all add: live_inv_def pool_inv_def\<close>)
  qed
qed

section \<open>Properties\<close>

text \<open>
  C30. Whatever is called on the pool, in any order and with restarts in between, its counters are
  those of its maps: \<open>pending_count\<close> is the number of pending transactions, at most 10000,
  \<open>pending_bytes\<close> the sum of their sizes; no transaction is both pending and finalized, each is
  filed under its own id, and none is banned or belongs only in a block.
\<close>

theorem pool_accounting:
  assumes "dinv d"
  shows "let p = run_pool X cs (pool_startup X now d) in
    unat (pending_count p) = length (pending p) \<and> length (pending p) \<le> 10000 \<and>
    pending_bytes p = sum_list (map (pe_size \<circ> snd) (pending p)) \<and>
    (\<forall>k. \<not> (pool_is_pending p k \<and> is_finalized p k)) \<and>
    (\<forall>k tx. get_transaction p k = Some tx \<longrightarrow>
       txid X tx = k \<and> \<not> is_banned X k \<and> \<not> is_block_only_tx tx)"
proof -
  define p where "p = run_pool X cs (pool_startup X now d)"
  have inv: "pool_inv X p" unfolding p_def by (rule pool_inv_run [OF pool_inv_startup [OF assms]])
  then have "unat (pending_count p) = length (pending p)" "length (pending p) \<le> 10000"
    "pending_bytes p = sum_list (map (pe_size \<circ> snd) (pending p))"
    "\<forall>k. \<not> (pool_is_pending p k \<and> is_finalized p k)"
    by (auto simp: pool_inv_def maps_ok_def unat_of_nat sizes_def comp_def case_prod_unfold
        pool_is_pending_def is_finalized_def)
  moreover have "txid X tx = k \<and> \<not> is_banned X k \<and> \<not> is_block_only_tx tx"
    if "get_transaction p k = Some tx" for k tx
    using that pool_inv_get [OF inv, of k] by (auto simp: get_transaction_def entry_ok_def split: option.splits)
  ultimately show ?thesis by (simp add: p_def [symmetric])
qed

text \<open>A transaction for the examples.\<close>

definition tx0 :: Transaction where
  "tx0 = \<lparr>tx_version = 1,
     tx_inputs = [\<lparr>in_previous_output = \<lparr>op_txid = replicate 32 1, op_vout = 0\<rparr>, in_script_sig = [], in_sequence = 0\<rparr>],
     tx_outputs = [\<lparr>out_value = 5, out_script_pubkey = []\<rparr>], tx_lock_time = 0, tx_timestamp = 0,
     tx_special_data = None, tx_encrypted_memo = None\<rparr>"

theorem pool_accounting_witness:
  "let p = run_pool extern0 [(1, AddPending tx0 7 None)] (pool_startup extern0 0 []) in
    length (pending p) = 1 \<and>
    unat (pending_count p) = length (pending p) \<and> length (pending p) \<le> 10000 \<and>
    pending_bytes p = sum_list (map (pe_size \<circ> snd) (pending p)) \<and>
    (\<forall>k. \<not> (pool_is_pending p k \<and> is_finalized p k)) \<and>
    (\<forall>k tx. get_transaction p k = Some tx \<longrightarrow>
       txid extern0 tx = k \<and> \<not> is_banned extern0 k \<and> \<not> is_block_only_tx tx)"
proof -
  have "length (pending (run_pool extern0 [(1, AddPending tx0 7 None)] (pool_startup extern0 0 []))) = 1"
    by code_simp
  then show ?thesis
    using pool_accounting [of "[]" extern0 "[(1, AddPending tx0 7 None)]" 0]
    unfolding Let_def by (simp add: dinv_def)
qed

text \<open>
  C9. A finalized transaction survives a crash: at every reachable moment, stopping the node and
  loading its pool again from its disk brings back each finalized transaction as finalized, with its
  fee, even if the pool overflows. The transactions involved have distinct ids, and no finalized
  transaction was rejected. (The node's later start-up sweeps, which may evict finalized transactions
  whose inputs are gone, are operations of their own.)
\<close>

theorem finalized_survives_restart:
  assumes "inj_on (txid X) T" "pool_reach X T ex p" "dget (confirmed p) k = Some e"
  shows "\<exists>e'. dget (confirmed (pool_startup X now (disk p))) k = Some e' \<and> pe_tx e' = pe_tx e \<and> pe_fee e' = pe_fee e"
proof -
  have p: "live_inv X T ex p" by (rule reach_live [OF assms(2,1)])
  then have inv: "pool_inv X p" and d: "dinv (disk p)" "disk_ok X T (disk p)"
    by (simp_all add: live_inv_def pool_inv_def)
  have "pool_content p k = Some (pe_tx e, pe_fee e, True)"
    using live_disjoint(2) [OF p, of k] assms(3) by (simp add: pool_content_def dhas_def)
  then have k: "disk_content (disk p) k = Some (pe_tx e, pe_fee e, True)"
    using p mirroredD by (fastforce simp: live_inv_def)
  have "k \<in> finalized_keys X (disk_content (disk p))"
    using k pool_inv_get(2) [OF inv assms(3)] by (auto simp: finalized_keys_def entry_ok_def)
  moreover have "restorable X (disk_content (disk p)) (finalized_keys X (disk_content (disk p)))"
    using d(2) by (intro restorable_finalized) (auto simp: disk_ok_def)
  ultimately have "pool_content (pool_startup X now (disk p)) k = Some (pe_tx e, pe_fee e, True)"
    using startup_restores(6) [OF d(1) _ refl] k by metis
  then show ?thesis by (auto simp: pool_content_def split: option.splits)
qed

definition pool0 :: TransactionPool where
  "pool0 = run_pool extern0 [(1, AddPending tx0 7 None), (2, Confirm (txid extern0 tx0))] (pool_startup extern0 0 [])"

lemma pool0_reach: "pool_reach extern0 {tx0} True pool0"
  unfolding pool0_def run_pool_def
  by (simp del: exec_pool.simps)
    (intro pool_reach.intros, simp_all add: call_ok_def)

theorem finalized_survives_restart_witness:
  "\<exists>e'. dget (confirmed (pool_startup extern0 3 (disk pool0))) (txid extern0 tx0) = Some e' \<and>
     pe_tx e' = tx0 \<and> pe_fee e' = 7"
proof -
  have "dget (confirmed pool0) (txid extern0 tx0) = Some (new_entry extern0 1 tx0 7 None)"
    by code_simp
  from finalized_survives_restart [OF _ pool0_reach this, of 3]
  show ?thesis by (simp add: new_entry_def)
qed

text \<open>
  C31. Loading restores the pool: if only the pool is on disk and its pending transactions are
  within the byte limit, then the pool loaded at a restart has the same transactions with the same
  fees, pending or finalized as before. (Later start-up sweeps are operations of their own.)
\<close>

theorem restart_restores_pool:
  assumes "inj_on (txid X) T" "pool_reach X T True p" "bytes_fit p"
  shows "pool_content (pool_startup X now (disk p)) = pool_content p"
  by (rule startup_exact(1) [OF reach_live [OF assms(2,1)] assms(3) refl])

theorem restart_restores_pool_witness:
  "pool_content (pool_startup extern0 3 (disk pool0)) = pool_content pool0"
proof -
  have "pending pool0 = []" by code_simp
  then have "bytes_fit pool0" by (simp add: bytes_fit_def sizes_def)
  from restart_restores_pool [OF _ pool0_reach this] show ?thesis by simp
qed

end
