(* ===== verification/Tx_Pool_Limits.thy ===== *)
theory Tx_Pool_Limits
  imports Tx_Pool_Disk
begin

text \<open>
  The limits of the pool: what an admission does on every branch, which transactions an eviction
  takes, and the bound on the memory of rejections.
\<close>

section \<open>The rejection cache\<close>

lemma oldest_key_min:
  assumes "dinv m" "oldest_key m = Some k"
  obtains r at where "dget m k = Some (r, at)" "\<And>j s t. (j, s, t) \<in> set m \<Longrightarrow> at \<le> t"
proof -
  let ?s = "sort_key (\<lambda>(_, _, at). at) m"
  have ne: "m \<noteq> []" using assms(2) by (cases m) auto
  obtain j r at where h: "hd ?s = (j, r, at)" by (metis prod_cases3)
  have "?s \<noteq> []" using ne by (metis length_0_conv length_sort)
  then obtain tl where s: "?s = (j, r, at) # tl" using h by (cases ?s) auto
  have k: "k = j" using assms(2) ne h by (cases m) auto
  have "(j, r, at) \<in> set m" using s by (metis list.set_intros(1) set_sort)
  then have "dget m k = Some (r, at)" using assms(1) k by (simp add: in_set_dget)
  moreover have "at \<le> t" if "(j', s', t) \<in> set m" for j' s' t
  proof -
    have "(j', s', t) \<in> set ?s" using that by simp
    moreover have "sorted (map (\<lambda>(_, _, at). at) ?s)" by simp
    ultimately show ?thesis unfolding s by force
  qed
  ultimately show thesis using that by blast
qed

declare trim_rejected.simps [simp del]

lemma trim_small: "length m \<le> REJECT_CACHE_SIZE \<Longrightarrow> trim_rejected m = m"
  by (subst trim_rejected.simps) simp

lemma trim_step:
  assumes "REJECT_CACHE_SIZE < length m"
  obtains k where "oldest_key m = Some k" "trim_rejected m = trim_rejected (dremove k m)"
proof -
  obtain e es where "m = e # es" using assms by (cases m) auto
  then obtain k where k: "oldest_key m = Some k" by simp
  have "trim_rejected m = trim_rejected (dremove k m)"
    by (subst trim_rejected.simps) (simp add: assms k)
  with k show thesis by (rule that)
qed

lemma set_dremove: "dinv m \<Longrightarrow> dget m k = Some v \<Longrightarrow> set m = insert (k, v) (set (dremove k m))"
  by (auto simp: AList.delete_eq in_set_dget)

lemma trim_rejected_spec:
  assumes "dinv m"
  shows "dinv (trim_rejected m) \<and> set (trim_rejected m) \<subseteq> set m \<and>
    length (trim_rejected m) = min (length m) REJECT_CACHE_SIZE \<and>
    (\<forall>(k, r, at) \<in> set m - set (trim_rejected m). \<forall>(k', r', at') \<in> set (trim_rejected m). at \<le> at')"
  using assms
proof (induction "length m" arbitrary: m rule: less_induct)
  case less
  show ?case
  proof (cases "REJECT_CACHE_SIZE < length m")
    case False
    then show ?thesis using less.prems by (simp add: trim_small)
  next
    case True
    then obtain k where k: "oldest_key m = Some k" and t: "trim_rejected m = trim_rejected (dremove k m)"
      by (rule trim_step)
    obtain r at where e: "dget m k = Some (r, at)" and old: "\<And>j s t. (j, s, t) \<in> set m \<Longrightarrow> at \<le> t"
      using oldest_key_min [OF less.prems k] by blast
    have len: "length (dremove k m) = length m - 1"
      using length_dremove [OF less.prems, of k] e by (simp add: dhas_def)
    note IH = less.hyps [of "dremove k m", OF _ al.invar_remove [OF less.prems]]
    have "length (dremove k m) < length m" using len True by simp
    note IH = IH [OF this]
    have set: "set m = insert (k, r, at) (set (dremove k m))" by (rule set_dremove [OF less.prems e])
    have "min (length (dremove k m)) REJECT_CACHE_SIZE = min (length m) REJECT_CACHE_SIZE"
      using len True by simp
    moreover have "at \<le> u" if "(j, s, u) \<in> set (trim_rejected (dremove k m))" for j s u
    proof (rule old)
      show "(j, s, u) \<in> set m" using that IH unfolding set by blast
    qed
    ultimately show ?thesis using IH unfolding set t by fastforce
  qed
qed

text \<open>
  Cleaning the rejection cache ends with at most 1000 entries, all of them former entries
  younger than the given age; an entry within that age is dropped only when the cache is full,
  and then every entry that stays is at least as recent.
\<close>

theorem cleanup_rejected_bounded:
  assumes "dinv (rejected p)"
  shows "let m = rejected p; m' = rejected (cleanup_rejected now secs p) in
    length m' \<le> 1000 \<and>
    (\<forall>(k, r, at) \<in> set m'. (k, r, at) \<in> set m \<and> as_secs (now - at) < secs) \<and>
    (\<forall>(k, r, at) \<in> set m. as_secs (now - at) < secs \<and> (k, r, at) \<notin> set m' \<longrightarrow>
       length m' = 1000 \<and> (\<forall>(k', r', at') \<in> set m'. at \<le> at'))"
proof -
  define f where "f = filter (\<lambda>(_, _, at). as_secs (now - at) < secs) (rejected p)"
  have d: "dinv f" using assms by (simp add: f_def dinv_filter)
  note spec = trim_rejected_spec [OF d]
  have full: "length (trim_rejected f) = 1000" if "x \<in> set f" "x \<notin> set (trim_rejected f)" for x
    using spec that trim_small [of f] by (cases "REJECT_CACHE_SIZE < length f") (auto simp: REJECT_CACHE_SIZE_def)
  have older: "at \<le> at'" if "(k, r, at) \<in> set f - set (trim_rejected f)" "(k', r', at') \<in> set (trim_rejected f)"
    for k r at k' r' at' using spec that by fastforce
  have mem: "(k, r, at) \<in> set f \<longleftrightarrow> (k, r, at) \<in> set (rejected p) \<and> as_secs (now - at) < secs" for k r at
    by (simp add: f_def)
  have sub: "x \<in> set f" if "x \<in> set (trim_rejected f)" for x using spec that by blast
  have rej: "rejected (cleanup_rejected now secs p) = trim_rejected f"
    by (simp add: cleanup_rejected_def f_def)
  have len: "length (trim_rejected f) \<le> 1000" using spec by (simp add: REJECT_CACHE_SIZE_def)
  show ?thesis
    unfolding Let_def rej using len mem sub full older by (intro conjI ballI) (blast | fastforce)+
qed

theorem cleanup_rejected_bounded_witness:
  "let m = [(replicate 32 1, ''bad'', 5), (replicate 32 2, ''old'', 0)];
       m' = rejected (cleanup_rejected 9000000000 9 ((pool_new [])\<lparr>rejected := m\<rparr>)) in
    length m' \<le> 1000 \<and>
    (\<forall>(k, r, at) \<in> set m'. (k, r, at) \<in> set m \<and> as_secs (9000000000 - at) < 9) \<and>
    (\<forall>(k, r, at) \<in> set m. as_secs (9000000000 - at) < 9 \<and> (k, r, at) \<notin> set m' \<longrightarrow>
       length m' = 1000 \<and> (\<forall>(k', r', at') \<in> set m'. at \<le> at'))"
proof -
  let ?m = "[(replicate 32 1, ''bad'', 5), (replicate 32 2, ''old'', 0)] :: (hash256, string \<times> instant) dmap"
  have "dinv ?m" by (simp add: dinv_def eval_nat_numeral)
  then show ?thesis
    using cleanup_rejected_bounded [of "(pool_new [])\<lparr>rejected := ?m\<rparr>" 9000000000 9] unfolding Let_def by simp
qed

section \<open>Eviction\<close>

text \<open>A fold of evictions over distinct pending keys.\<close>

lemma fold_evict_pending:
  assumes "distinct ks" "\<forall>k \<in> set ks. dhas (pending p) k"
  shows "fst (fold evict_one ks (n, p)) = n + length ks \<and>
    dget (pending (snd (fold evict_one ks (n, p)))) = (\<lambda>k. if k \<in> set ks then None else dget (pending p) k)"
  using assms
proof (induction ks arbitrary: n p)
  case (Cons k ks)
  have "\<forall>j \<in> set ks. dhas (pending (drop_pending k p)) j" using Cons.prems by (auto simp: frame_simps)
  with Cons show ?case by (auto simp: evict_one_def frame_simps fun_eq_iff)
qed auto

lemma cheaper_first:
  assumes d: "dinv m" and k: "dget m k = Some e" "k \<in> set (map fst (take n (eviction_order m)))"
    and k': "dget m k' = Some e'" "k' \<notin> set (map fst (take n (eviction_order m)))"
  shows "fee_per_byte e < fee_per_byte e' \<or> fee_per_byte e = fee_per_byte e' \<and> pe_added_at e \<le> pe_added_at e'"
proof -
  let ?o = "eviction_order m"
  let ?f = "\<lambda>(_ :: hash256, e). (fee_per_byte e, pe_added_at e)"
  have mem: "(j, x) \<in> set ?o \<longleftrightarrow> dget m j = Some x" for j x by (simp add: in_set_dget [OF d])
  obtain x where x: "(k, x) \<in> set (take n ?o)" using k(2) by auto
  then have "x = e" using mem [of k x] k(1) by (auto dest: in_set_takeD)
  then have a: "(k, e) \<in> set (take n ?o)" using x by simp
  have "(k', e') \<in> set (take n ?o) \<union> set (drop n ?o)"
    using mem k'(1) by (metis append_take_drop_id set_append)
  then have b: "(k', e') \<in> set (drop n ?o)" using k'(2) by force
  have "sorted (map ?f (take n ?o @ drop n ?o))" by (simp add: eviction_order_def)
  then have "?f (k, e) \<le> ?f (k', e')" using a b unfolding map_append sorted_append by force
  then show ?thesis by (auto simp: less_eq_prod_def)
qed

text \<open>
  Evicting \<open>n\<close> transactions removes exactly the smaller of \<open>n\<close> and the number of pending
  ones, leaves the other entries as they are, and everything it removes pays at most the fee
  per byte of everything it keeps, with the older one first when they pay the same.
\<close>

theorem eviction_takes_cheapest:
  assumes "pool_inv X p"
  shows "let (removed, p') = evict_low_fee_transactions n p in
    removed = min n (length (pending p)) \<and> length (pending p') = length (pending p) - removed \<and>
    (\<forall>k e. dget (pending p') k = Some e \<longrightarrow> dget (pending p) k = Some e) \<and>
    (\<forall>k e k' e'. dget (pending p) k = Some e \<and> dget (pending p') k = None \<and> dget (pending p') k' = Some e' \<longrightarrow>
       fee_per_byte e < fee_per_byte e' \<or> fee_per_byte e = fee_per_byte e' \<and> pe_added_at e \<le> pe_added_at e')"
proof -
  let ?o = "eviction_order (pending p)"
  let ?ks = "map fst (take n ?o)"
  have d: "dinv (pending p)" using assms by (simp add: pool_inv_def maps_ok_def)
  obtain r p' where ev: "evict_low_fee_transactions n p = (r, p')" by (cases "evict_low_fee_transactions n p")
  have fold: "fold evict_one ?ks (0, p) = (r, p')"
    using ev by (cases "pending p = []")
      (simp_all add: evict_low_fee_transactions_def eviction_order_def)
  have mem: "(k, e) \<in> set ?o \<longleftrightarrow> dget (pending p) k = Some e" for k e by (simp add: in_set_dget [OF d])
  have dist: "distinct (map fst ?o)"
    using d by (simp add: dinv_def distinct_map eviction_order_def)
  have "distinct ?ks" using dist by (metis distinct_take take_map)
  moreover have "\<forall>k \<in> set ?ks. dhas (pending p) k"
    using in_set_takeD [of _ n ?o] in_set_dhas [of _ _ "pending p"] by fastforce
  ultimately have res: "r = length ?ks"
    "dget (pending p') = (\<lambda>k. if k \<in> set ?ks then None else dget (pending p) k)"
    using fold_evict_pending [of ?ks p 0] fold by simp_all
  have inv: "dinv (pending p')" using pool_inv_evict [OF assms, of n] ev by (simp add: pool_inv_def maps_ok_def)
  have len: "length (pending q) = card (dom (dget (pending q)))" if "dinv (pending q)" for q
    using al.set_keys [of "pending q"] distinct_card [of "dkeys (pending q)"] that by (simp add: dkeys_def dinv_def)
  have sub: "set ?ks \<subseteq> dom (dget (pending p))" by (auto simp: in_set_dget [OF d] dest!: in_set_takeD)
  have "dom (dget (pending p')) = dom (dget (pending p)) - set ?ks" by (auto simp: res dom_def split: if_splits)
  then have "length (pending p') = length (pending p) - length ?ks"
    using len [OF inv] len [OF d] sub distinct_card [OF \<open>distinct ?ks\<close>] by (simp add: card_Diff_subset)
  moreover have "length ?ks = min n (length (pending p))" by (simp add: eviction_order_def)
  moreover have "fee_per_byte e < fee_per_byte e' \<or> fee_per_byte e = fee_per_byte e' \<and> pe_added_at e \<le> pe_added_at e'"
    if k: "dget (pending p) k = Some e" "k \<in> set ?ks" and k': "dget (pending p) k' = Some e'" "k' \<notin> set ?ks" for k e k' e'
    by (rule cheaper_first [OF d k k'])
  ultimately show ?thesis by (simp add: ev res split: if_splits) (metis option.distinct(1))
qed

text \<open>A pool with two transactions of different fees.\<close>

definition extern1 :: extern where
  "extern1 = extern0\<lparr>tx_json := (\<lambda>tx. [ucast (tx_version tx)]), tx_bincode := (\<lambda>_. Some [0, 0])\<rparr>"

definition tx_v :: "u32 \<Rightarrow> Transaction" where
  "tx_v v = \<lparr>tx_version = v,
     tx_inputs = [\<lparr>in_previous_output = \<lparr>op_txid = replicate 32 1, op_vout = 0\<rparr>, in_script_sig = [], in_sequence = 0\<rparr>],
     tx_outputs = [], tx_lock_time = 0, tx_timestamp = 0, tx_special_data = None, tx_encrypted_memo = None\<rparr>"

definition pool1 :: TransactionPool where
  "pool1 = run_pool extern1 [(1, AddPending (tx_v 1) 90 None), (2, AddPending (tx_v 2) 20 None)]
     (pool_startup extern1 0 [])"

lemma pool1_inv: "pool_inv extern1 pool1"
  unfolding pool1_def by (rule pool_inv_run [OF pool_inv_startup]) simp

theorem eviction_takes_cheapest_witness:
  "length (pending pool1) = 2 \<and> (let (removed, p') = evict_low_fee_transactions 1 pool1 in
    removed = min 1 (length (pending pool1)) \<and> length (pending p') = length (pending pool1) - removed \<and>
    (\<forall>k e. dget (pending p') k = Some e \<longrightarrow> dget (pending pool1) k = Some e) \<and>
    (\<forall>k e k' e'. dget (pending pool1) k = Some e \<and> dget (pending p') k = None \<and> dget (pending p') k' = Some e' \<longrightarrow>
       fee_per_byte e < fee_per_byte e' \<or> fee_per_byte e = fee_per_byte e' \<and> pe_added_at e \<le> pe_added_at e'))"
proof
  show "length (pending pool1) = 2" by code_simp
qed (rule eviction_takes_cheapest [OF pool1_inv])

section \<open>Admission\<close>

text \<open>
  C32. Every outcome of an admission. An error leaves the maps, the counters and the rejections as
  they were; \<open>PoolFull\<close> is reported exactly for an admissible transaction beyond a limit while
  the pool is at most 80 percent full. Success means the id was unknown, not banned and not
  rejected, and adds the transaction as pending; it costs at most one other transaction, the first in the order of
  eviction, and only when a limit was reached.
\<close>

theorem add_pending_outcomes:
  assumes p: "pool_inv X p" and add: "add_pending_with_submitter X now tx fee ip p = (r, p')"
  shows "(r \<noteq> Inr () \<longrightarrow> pending p' = pending p \<and> confirmed p' = confirmed p \<and> rejected p' = rejected p
        \<and> pending_count p' = pending_count p \<and> pending_bytes p' = pending_bytes p)
    \<and> (r = Inl PoolFull \<longleftrightarrow> admissible X tx p \<and> \<not> dhas (rejected p) (txid X tx) \<and> over_limits X tx p
        \<and> \<not> pressure_above 8 10 p)
    \<and> (r = Inr () \<longrightarrow> admissible X tx p \<and> \<not> dhas (rejected p) (txid X tx) \<and>
        pool_content p' = (if over_limits X tx p
          then (pool_content p)(fst (hd (eviction_order (pending p))) := None) else pool_content p)
          (txid X tx \<mapsto> (tx, fee, False)))"
proof -
  have evict: "pool_content (snd (evict_low_fee_transactions 1 p))
      = (pool_content p)(fst (hd (eviction_order (pending p))) := None)" if "pressure_above 8 10 p"
  proof -
    have ne: "pending p \<noteq> []" by (rule full_pool_nonempty [OF p that])
    then have "\<not> dhas (confirmed p) (fst (hd (eviction_order (pending p))))"
      using evict_one_is_drop(2) [OF ne] p by (auto simp: pool_inv_def maps_ok_def)
    then show ?thesis unfolding evict_one_is_drop(1) [OF ne] by (rule content_drop_pending)
  qed
  show ?thesis
    using add evict unfolding add_pending_eq
    by (auto simp: frame_simps content_insert_pending new_entry_def admissible_def simp del: One_nat_def
        split: if_splits)
qed

theorem add_pending_outcomes_witness:
  "\<exists>p'. add_pending_with_submitter extern1 3 (tx_v 3) 50 None pool1 = (Inr (), p') \<and>
     (Inr () = Inr () \<longrightarrow> admissible extern1 (tx_v 3) pool1 \<and> \<not> dhas (rejected pool1) (txid extern1 (tx_v 3)) \<and>
        pool_content p' = (if over_limits extern1 (tx_v 3) pool1
          then (pool_content pool1)(fst (hd (eviction_order (pending pool1))) := None) else pool_content pool1)
          (txid extern1 (tx_v 3) \<mapsto> (tx_v 3, 50, False)))"
proof -
  obtain r p' where add: "add_pending_with_submitter extern1 3 (tx_v 3) 50 None pool1 = (r, p')"
    by (cases "add_pending_with_submitter extern1 3 (tx_v 3) 50 None pool1")
  have "fst (add_pending_with_submitter extern1 3 (tx_v 3) 50 None pool1) = Inr ()" by code_simp
  then have "r = Inr ()" by (simp add: add)
  with add add_pending_outcomes [OF pool1_inv add] show ?thesis by blast
qed

end
