(* ===== verification/Rewards.thy ===== *)
theory Rewards
  imports Core_Types
begin

text \<open>
  The block reward calculator of \<open>src/reward_calculator.rs\<close>: the All-Free and the tier-based
  distribution, the one-slot-per-payout-address rule, and \<open>normalize\<close>. A \<open>HashSet\<close> of
  addresses is a set, the fairness counters are a map from node address to counter.
\<close>

section \<open>Masternode records\<close>

datatype RegistrationSource = Handshake | OnChain u64

record MasternodeInfo =
  mi_masternode :: Masternode
  mi_reward_address :: string
  mi_uptime_start :: u64
  mi_total_uptime :: u64
  mi_is_active :: bool
  mi_consensus_suspended :: bool
  mi_daemon_started_at :: u64
  mi_last_reward_height :: u64
  mi_blocks_without_reward :: u64
  mi_registration_height :: u64
  mi_registration_source :: RegistrationSource
  mi_peer_reports :: "(string, u64) dmap"
  mi_operator_pubkey :: "string option"
  mi_is_publicly_reachable :: bool
  mi_reachability_checked_at :: u64
  mi_first_seen_at :: u64
  mi_last_seen_at :: u64

definition mi_address :: "MasternodeInfo \<Rightarrow> string" where
  "mi_address mn = mn_address (mi_masternode mn)"

definition mi_tier :: "MasternodeInfo \<Rightarrow> MasternodeTier" where
  "mi_tier mn = mn_tier (mi_masternode mn)"

definition payout_addr :: "MasternodeInfo \<Rightarrow> string" where
  "payout_addr mn = (if mi_reward_address mn \<noteq> [] then mi_reward_address mn
     else mn_wallet_address (mi_masternode mn))"

section \<open>The calculator\<close>

record RewardInput =
  ri_height :: u64
  ri_producer_wallet :: string
  ri_active_nodes :: "MasternodeInfo list"
  ri_fairness_map :: "(string, u64) dmap"
  ri_fees :: u64
  ri_total_reward :: u64
  ri_free_tier_registered :: "string set"

type_synonym rewards = "(string \<times> u64) list"
type_synonym candidate = "MasternodeInfo \<times> u64"

fun push_reward :: "string \<Rightarrow> u64 \<Rightarrow> rewards \<Rightarrow> rewards" where
  "push_reward addr amount [] = [(addr, amount)]"
| "push_reward addr amount ((a, x) # rs) =
     (if a = addr then (a, x + amount) # rs else (a, x) # push_reward addr amount rs)"

text \<open>\<open>rewards[0].1 += amount\<close>; the list is never empty there.\<close>

fun credit_first :: "u64 \<Rightarrow> rewards \<Rightarrow> rewards" where
  "credit_first amount [] = []"
| "credit_first amount ((a, x) # rs) = (a, x + amount) # rs"

definition with_bonus :: "RewardInput \<Rightarrow> MasternodeInfo \<Rightarrow> candidate" where
  "with_bonus inp mn = (mn, case dget (ri_fairness_map inp) (mi_address mn) of None \<Rightarrow> 0 | Some b \<Rightarrow> b)"

definition onchain_ok :: "RewardInput \<Rightarrow> MasternodeInfo \<Rightarrow> bool" where
  "onchain_ok inp mn = (if ri_free_tier_registered inp \<noteq> {}
     then mi_address mn \<in> ri_free_tier_registered inp else True)"

text \<open>One slot per payout address; \<open>seen\<close> gives the index of the slot.\<close>

fun dedup_step :: "candidate \<Rightarrow> (string, nat) dmap \<times> candidate list \<Rightarrow> (string, nat) dmap \<times> candidate list" where
  "dedup_step (mn, bonus) (seen, deduped) =
     (case dget seen (payout_addr mn) of
        Some idx \<Rightarrow> (seen, if snd (deduped ! idx) < bonus then deduped[idx := (mn, bonus)] else deduped)
      | None \<Rightarrow> (dput (payout_addr mn) (length deduped) seen, deduped @ [(mn, bonus)]))"

definition dedup_by_payout :: "candidate list \<Rightarrow> candidate list" where
  "dedup_by_payout cs = snd (fold dedup_step cs ([], []))"

text \<open>Highest bonus first, then by node address; the sort is stable.\<close>

definition sort_candidates :: "candidate list \<Rightarrow> candidate list" where
  "sort_candidates cs = sort_key (\<lambda>(mn, bonus). (- uint bonus, mi_address mn)) cs"

definition free_candidates :: "RewardInput \<Rightarrow> candidate list" where
  "free_candidates inp =
     (let free_nodes = map (with_bonus inp)
            (filter (onchain_ok inp)
              (filter (\<lambda>mn. payout_addr mn \<noteq> [])
                (filter (\<lambda>mn. mi_tier mn = Free) (ri_active_nodes inp))))
      in sort_candidates
           (if FREE_TIER_SYBIL_FORK_HEIGHT \<le> ri_height inp then dedup_by_payout free_nodes else free_nodes))"

fun pay_free :: "u64 \<Rightarrow> u64 \<Rightarrow> nat \<Rightarrow> nat \<Rightarrow> u64 \<Rightarrow> candidate list \<Rightarrow> rewards \<Rightarrow> rewards" where
  "pay_free total_reward per_node n i distributed [] rs = rs"
| "pay_free total_reward per_node n i distributed ((mn, b) # cs) rs =
     (let share = (if i = n - 1 then saturating_sub total_reward distributed else per_node)
      in pay_free total_reward per_node n (Suc i) (distributed + share) cs (push_reward (payout_addr mn) share rs))"

definition compute_all_free :: "RewardInput \<Rightarrow> rewards" where
  "compute_all_free inp =
     (let free_nodes = free_candidates inp;
          recipient_count = min (length free_nodes) MAX_FREE_TIER_RECIPIENTS
      in if recipient_count = 0 then []
         else pay_free (ri_total_reward inp) (ri_total_reward inp div of_nat recipient_count)
                recipient_count 0 0 (take recipient_count free_nodes) [])"

definition paid_tier_wallet_set :: "RewardInput \<Rightarrow> string set" where
  "paid_tier_wallet_set inp = payout_addr ` set (filter (\<lambda>mn. mi_tier mn \<noteq> Free) (ri_active_nodes inp))"

definition tier_candidates :: "RewardInput \<Rightarrow> MasternodeTier \<Rightarrow> candidate list" where
  "tier_candidates inp tier =
     (let tier_nodes = map (with_bonus inp)
            (filter (\<lambda>mn. if tier = Free then onchain_ok inp mn else True)
              (filter (\<lambda>mn. if tier = Free then payout_addr mn \<notin> paid_tier_wallet_set inp else True)
                (filter (\<lambda>mn. payout_addr mn \<noteq> ri_producer_wallet inp)
                  (filter (\<lambda>mn. payout_addr mn \<noteq> [])
                    (filter (\<lambda>mn. mi_tier mn = tier) (ri_active_nodes inp))))))
      in if tier = Free \<and> FREE_TIER_SYBIL_FORK_HEIGHT \<le> ri_height inp
         then dedup_by_payout tier_nodes else tier_nodes)"

fun pay_tier_nodes :: "u64 \<Rightarrow> candidate list \<Rightarrow> u64 \<times> rewards \<Rightarrow> u64 \<times> rewards" where
  "pay_tier_nodes per_node [] (distributed, rs) = (distributed, rs)"
| "pay_tier_nodes per_node ((mn, b) # cs) (distributed, rs) =
     pay_tier_nodes per_node cs (distributed + per_node, push_reward (payout_addr mn) per_node rs)"

definition pay_tier :: "RewardInput \<Rightarrow> MasternodeTier \<Rightarrow> u64 \<times> rewards \<Rightarrow> u64 \<times> rewards" where
  "pay_tier inp tier a = (case a of (rounding_dust, rs) \<Rightarrow>
     (let tier_pool = pool_allocation tier; tier_nodes = tier_candidates inp tier
      in if tier_nodes = [] then (rounding_dust, credit_first tier_pool rs)
         else let sorted_nodes = sort_candidates tier_nodes;
                  recipient_count = (if tier = Free then min (length sorted_nodes) MAX_FREE_TIER_RECIPIENTS else 1);
                  per_node = tier_pool div of_nat recipient_count;
                  paid = pay_tier_nodes per_node (take recipient_count sorted_nodes) (0, rs)
              in (rounding_dust + saturating_sub tier_pool (fst paid), snd paid)))"

definition compute_tiered :: "RewardInput \<Rightarrow> rewards" where
  "compute_tiered inp =
     (case fold (pay_tier inp) [Gold, Silver, Bronze, Free]
             (0, push_reward (ri_producer_wallet inp) (PRODUCER_REWARD_SATOSHIS + ri_fees inp) []) of
        (rounding_dust, rs) \<Rightarrow> if 0 < rounding_dust then credit_first rounding_dust rs else rs)"

definition has_paid_tier_nodes :: "RewardInput \<Rightarrow> bool" where
  "has_paid_tier_nodes inp = list_ex (\<lambda>mn. mi_tier mn \<noteq> Free) (ri_active_nodes inp)"

definition compute_rewards :: "RewardInput \<Rightarrow> rewards" where
  "compute_rewards inp =
     (if ri_active_nodes inp = [] then []
      else if \<not> has_paid_tier_nodes inp then compute_all_free inp
      else compute_tiered inp)"

definition normalize_step :: "string \<times> u64 \<Rightarrow> (string, u64) dmap \<Rightarrow> (string, u64) dmap" where
  "normalize_step r m = (case r of (addr, amt) \<Rightarrow>
     if 0 < amt then dput addr ((case dget m addr of None \<Rightarrow> 0 | Some x \<Rightarrow> x) + amt) m else m)"

definition normalize_rewards :: "rewards \<Rightarrow> (string, u64) dmap" where
  "normalize_rewards rs = fold normalize_step rs []"

section \<open>Sums\<close>

definition paid :: "rewards \<Rightarrow> nat" where
  "paid rs = sum_list (map (\<lambda>(_, x). unat x) rs)"

lemma paid_eq: "paid rs = sum_list (map (unat \<circ> snd) rs)"
  by (simp add: paid_def comp_def case_prod_unfold)

lemma paid_push: "paid rs + unat x < 2 ^ 64 \<Longrightarrow> paid (push_reward a x rs) = paid rs + unat x"
proof (induction a x rs rule: push_reward.induct)
  case (2 addr amount a x rs)
  have "unat (x + amount) = unat x + unat amount" using 2(2) by (simp add: paid_def unat_word_ariths)
  then show ?case using 2 by (simp add: paid_def)
qed (simp add: paid_def)

lemma paid_credit: "paid rs + unat x < 2 ^ 64 \<Longrightarrow> rs \<noteq> [] \<Longrightarrow> paid (credit_first x rs) = paid rs + unat x"
  by (cases "(x, rs)" rule: credit_first.cases) (auto simp: paid_def unat_word_ariths)

lemma push_nonempty [simp]: "push_reward a x rs \<noteq> []"
  by (induction a x rs rule: push_reward.induct) auto

lemma map_fst_push: "map fst (push_reward a x rs) = (if a \<in> fst ` set rs then map fst rs else map fst rs @ [a])"
  by (induction a x rs rule: push_reward.induct) auto

lemma map_fst_credit [simp]: "map fst (credit_first x rs) = map fst rs"
  by (cases "(x, rs)" rule: credit_first.cases) auto

text \<open>
  The state between two tiers: the producer comes first with at least \<open>lo\<close>, no address appears
  twice, and what is paid and the rounding dust make up \<open>B\<close>.
\<close>

definition tier_inv :: "string \<Rightarrow> nat \<Rightarrow> nat \<Rightarrow> u64 \<times> rewards \<Rightarrow> bool" where
  "tier_inv w lo B a \<longleftrightarrow> distinct (map fst (snd a)) \<and> snd a \<noteq> [] \<and> fst (hd (snd a)) = w
     \<and> lo \<le> unat (snd (hd (snd a))) \<and> paid (snd a) + unat (fst a) = B"

lemma push_hd:
  assumes "rs \<noteq> []" "paid rs + unat x < 2 ^ 64"
  shows "fst (hd (push_reward a x rs)) = fst (hd rs) \<and> unat (snd (hd rs)) \<le> unat (snd (hd (push_reward a x rs)))"
proof (cases rs)
  case (Cons r rs')
  obtain b y where r: "r = (b, y)" by (cases r)
  have "unat (y + x) = unat y + unat x" using assms(2) by (simp add: Cons r paid_def unat_word_ariths)
  then show ?thesis by (simp add: Cons r)
qed (use assms in simp)

lemma credit_hd:
  assumes "rs \<noteq> []" "paid rs + unat x < 2 ^ 64"
  shows "fst (hd (credit_first x rs)) = fst (hd rs) \<and> unat (snd (hd rs)) \<le> unat (snd (hd (credit_first x rs)))"
    "credit_first x rs \<noteq> []"
proof -
  obtain b y rs' where rs: "rs = (b, y) # rs'" using assms(1) by (metis neq_Nil_conv surj_pair)
  have "unat (y + x) = unat y + unat x" using assms(2) by (simp add: rs paid_def unat_word_ariths)
  then show "fst (hd (credit_first x rs)) = fst (hd rs) \<and> unat (snd (hd rs)) \<le> unat (snd (hd (credit_first x rs)))"
    "credit_first x rs \<noteq> []" by (simp_all add: rs)
qed

lemma pay_tier_nodes_inv:
  assumes "distinct (map fst rs)" "rs \<noteq> []" "fst (hd rs) = w" "lo \<le> unat (snd (hd rs))"
    and "paid rs + length cs * unat per < 2 ^ 64" "unat dist + length cs * unat per < 2 ^ 64"
    and "pay_tier_nodes per cs (dist, rs) = (dist', rs')"
  shows "distinct (map fst rs') \<and> rs' \<noteq> [] \<and> fst (hd rs') = w \<and> lo \<le> unat (snd (hd rs')) \<and>
    paid rs' = paid rs + length cs * unat per \<and> unat dist' = unat dist + length cs * unat per"
  using assms
proof (induction cs arbitrary: dist rs)
  case (Cons c cs)
  obtain mn b where c: "c = (mn, b)" by (cases c)
  let ?rs = "push_reward (payout_addr mn) per rs"
  have p: "paid ?rs = paid rs + unat per" using Cons.prems(5) by (intro paid_push) simp
  have d: "unat (dist + per) = unat dist + unat per" using Cons.prems(6) by (simp add: unat_word_ariths)
  have h: "fst (hd ?rs) = fst (hd rs) \<and> unat (snd (hd rs)) \<le> unat (snd (hd ?rs))"
    using Cons.prems(2,5) by (intro push_hd) auto
  have "distinct (map fst rs') \<and> rs' \<noteq> [] \<and> fst (hd rs') = w \<and> lo \<le> unat (snd (hd rs')) \<and>
      paid rs' = paid ?rs + length cs * unat per \<and> unat dist' = unat (dist + per) + length cs * unat per"
    using Cons.prems h p d by (intro Cons.IH) (auto simp: c map_fst_push)
  then show ?case by (simp add: p d)
qed simp

lemma pay_tier_inv:
  assumes a: "tier_inv w lo B a" and B: "B + unat (pool_allocation tier) < 2 ^ 64"
  shows "tier_inv w lo (B + unat (pool_allocation tier)) (pay_tier inp tier a)"
proof -
  obtain dust rs where ar: "a = (dust, rs)" by (cases a)
  let ?pool = "pool_allocation tier" and ?cs = "sort_candidates (tier_candidates inp tier)"
  have inv: "distinct (map fst rs)" "rs \<noteq> []" "fst (hd rs) = w" "lo \<le> unat (snd (hd rs))" "paid rs + unat dust = B"
    using a by (simp_all add: tier_inv_def ar)
  show ?thesis
  proof (cases "tier_candidates inp tier = []")
    case True
    then show ?thesis
      using inv B credit_hd [of rs ?pool] paid_credit [of rs ?pool]
      by (auto simp: tier_inv_def pay_tier_def ar Let_def)
  next
    case False
    define n where "n = (if tier = Free then min (length ?cs) MAX_FREE_TIER_RECIPIENTS else 1)"
    define per where "per = ?pool div of_nat n"
    obtain d' rs' where pd: "pay_tier_nodes per (take n ?cs) (0, rs) = (d', rs')"
      by (cases "pay_tier_nodes per (take n ?cs) (0, rs)")
    have pos: "0 < length ?cs" using False by (simp add: sort_candidates_def)
    then have n: "0 < n" "n \<le> 25" and len: "n \<le> length ?cs"
      by (auto simp: n_def MAX_FREE_TIER_RECIPIENTS_def Suc_le_eq)
    from len have n3: "length (take n ?cs) = n" by simp
    have "unat per = unat ?pool div n" using n by (simp add: per_def unat_div unat_of_nat)
    then have le: "n * unat per \<le> unat ?pool" by simp
    have "distinct (map fst rs') \<and> rs' \<noteq> [] \<and> fst (hd rs') = w \<and> lo \<le> unat (snd (hd rs')) \<and>
        paid rs' = paid rs + length (take n ?cs) * unat per \<and> unat d' = unat (0 :: u64) + length (take n ?cs) * unat per"
      using inv(5) B le n3 by (intro pay_tier_nodes_inv [OF inv(1-4) _ _ pd]) (simp_all add: less_le_trans)
    then have res: "distinct (map fst rs')" "rs' \<noteq> []" "fst (hd rs') = w" "lo \<le> unat (snd (hd rs'))"
      "paid rs' = paid rs + n * unat per" "unat d' = n * unat per" using n3 by auto
    have dust: "unat (dust + saturating_sub ?pool d') = unat dust + (unat ?pool - n * unat per)"
      using inv(5) B res(6) by (simp add: unat_word_ariths)
    have "pay_tier inp tier a = (dust + saturating_sub ?pool d', rs')"
      using False pd by (simp add: pay_tier_def ar Let_def n_def per_def)
    then show ?thesis using res inv(5) le dust by (simp add: tier_inv_def)
  qed
qed

lemma compute_tiered_inv:
  assumes fees: "unat (ri_fees inp) + 9500000000 < 2 ^ 64"
  shows "tier_inv (ri_producer_wallet inp) (unat (PRODUCER_REWARD_SATOSHIS + ri_fees inp))
    (9500000000 + unat (ri_fees inp)) (0, compute_tiered inp)"
proof -
  let ?w = "ri_producer_wallet inp" and ?p = "PRODUCER_REWARD_SATOSHIS + ri_fees inp"
  let ?lo = "unat ?p"
  have lo: "?lo = 3000000000 + unat (ri_fees inp)"
    using fees by (simp add: unat_word_ariths PRODUCER_REWARD_SATOSHIS_def SATOSHIS_PER_TIME_def)
  have "tier_inv ?w ?lo ?lo (0, push_reward ?w ?p [])" by (simp add: tier_inv_def paid_def)
  from pay_tier_inv [OF this, of Gold inp]
  have "tier_inv ?w ?lo (?lo + 2500000000) (pay_tier inp Gold (0, push_reward ?w ?p []))"
    using fees lo by (simp add: GOLD_POOL_SATOSHIS_def SATOSHIS_PER_TIME_def)
  from pay_tier_inv [OF this, of Silver inp]
  have "tier_inv ?w ?lo (?lo + 4300000000) (pay_tier inp Silver (pay_tier inp Gold (0, push_reward ?w ?p [])))"
    using fees lo by (simp add: SILVER_POOL_SATOSHIS_def SATOSHIS_PER_TIME_def)
  from pay_tier_inv [OF this, of Bronze inp]
  have "tier_inv ?w ?lo (?lo + 5700000000)
      (pay_tier inp Bronze (pay_tier inp Silver (pay_tier inp Gold (0, push_reward ?w ?p []))))"
    using fees lo by (simp add: BRONZE_POOL_SATOSHIS_def SATOSHIS_PER_TIME_def)
  from pay_tier_inv [OF this, of Free inp]
  have last: "tier_inv ?w ?lo (?lo + 6500000000)
      (fold (pay_tier inp) [Gold, Silver, Bronze, Free] (0, push_reward ?w ?p []))"
    using fees lo by (simp add: FREE_POOL_SATOSHIS_def SATOSHIS_PER_TIME_def)
  obtain dust rs where f: "fold (pay_tier inp) [Gold, Silver, Bronze, Free] (0, push_reward ?w ?p []) = (dust, rs)"
    by (cases "fold (pay_tier inp) [Gold, Silver, Bronze, Free] (0, push_reward ?w ?p [])")
  have "compute_tiered inp = (if 0 < dust then credit_first dust rs else rs)"
    using f by (simp add: compute_tiered_def)
  moreover have inv: "tier_inv ?w ?lo (9500000000 + unat (ri_fees inp)) (dust, rs)"
    using last lo unfolding f by simp
  moreover have "paid rs + unat dust < 2 ^ 64" "rs \<noteq> []" using inv fees by (simp_all add: tier_inv_def)
  ultimately show ?thesis
    using credit_hd [of rs dust] paid_credit [of rs dust]
    by (auto simp: tier_inv_def word_less_nat_alt)
qed

lemma pay_free_inv:
  assumes "n = i + length cs" "unat dist = i * unat per" "n * unat per \<le> unat tot"
    and "paid rs = unat dist" "distinct (map fst rs)" "cs \<noteq> []"
  shows "paid (pay_free tot per n i dist cs rs) = unat tot \<and> distinct (map fst (pay_free tot per n i dist cs rs))"
  using assms
proof (induction cs arbitrary: i dist rs)
  case (Cons c cs)
  obtain mn b where c: "c = (mn, b)" by (cases c)
  define share where "share = (if i = n - 1 then saturating_sub tot dist else per)"
  have tot: "unat tot < 2 ^ 64" using unsigned_less [of tot, where ?'a = nat] by simp
  have i: "i * unat per + unat per \<le> unat tot"
  proof -
    have "Suc i \<le> n" using Cons.prems(1) by simp
    then have "Suc i * unat per \<le> n * unat per" by (rule mult_le_mono1)
    then show ?thesis using Cons.prems(3) by simp
  qed
  then have sh: "unat dist + unat share \<le> unat tot" using Cons.prems(2) by (auto simp: share_def)
  have p: "paid (push_reward (payout_addr mn) share rs) = unat dist + unat share"
    using Cons.prems(4) sh tot by (subst paid_push) linarith+
  have dst: "unat (dist + share) = unat dist + unat share" using sh tot by (simp add: unat_word_ariths)
  have d: "distinct (map fst (push_reward (payout_addr mn) share rs))"
    using Cons.prems(5) by (auto simp: map_fst_push)
  show ?case
  proof (cases "cs = []")
    case True
    then have "unat share = unat tot - unat dist" using Cons.prems(1) by (simp add: share_def)
    with True p d sh show ?thesis by (simp add: c share_def Let_def)
  next
    case False
    then have per: "share = per" using Cons.prems(1) by (cases cs) (auto simp: share_def)
    have step: "pay_free tot per n i dist (c # cs) rs
        = pay_free tot per n (Suc i) (dist + share) cs (push_reward (payout_addr mn) share rs)"
      by (simp add: c share_def Let_def)
    show ?thesis unfolding step
      by (rule Cons.IH) (use False Cons.prems dst d p per in simp_all)
  qed
qed simp

section \<open>Properties of the distribution\<close>

text \<open>
  C4. With a paid-tier node among the active ones, the distribution pays out exactly 95 TIME and
  the fees, whatever the nodes, the counters and the registrations are; the producer comes first
  and gets at least its 30 TIME and all fees; and no address is listed twice.
\<close>

theorem tiered_rewards_exact:
  assumes "has_paid_tier_nodes inp" "unat (ri_fees inp) + 9500000000 < 2 ^ 64"
  shows "let rs = compute_rewards inp in
    sum_list (map (unat \<circ> snd) rs) = 9500000000 + unat (ri_fees inp) \<and>
    distinct (map fst rs) \<and> fst (hd rs) = ri_producer_wallet inp \<and>
    3000000000 + unat (ri_fees inp) \<le> unat (snd (hd rs))"
proof -
  have "compute_rewards inp = compute_tiered inp"
    using assms(1) by (auto simp: compute_rewards_def has_paid_tier_nodes_def)
  moreover have "unat (PRODUCER_REWARD_SATOSHIS + ri_fees inp) = 3000000000 + unat (ri_fees inp)"
    using assms(2) by (simp add: unat_word_ariths PRODUCER_REWARD_SATOSHIS_def SATOSHIS_PER_TIME_def)
  ultimately show ?thesis
    using compute_tiered_inv [OF assms(2)]
    by (simp add: tier_inv_def paid_def comp_def case_prod_unfold Let_def)
qed

text \<open>Nodes for the examples.\<close>

definition node :: "string \<Rightarrow> string \<Rightarrow> MasternodeTier \<Rightarrow> MasternodeInfo" where
  "node addr wallet tier = \<lparr>mi_masternode = new_legacy addr wallet 0 (replicate 32 0) tier 0,
     mi_reward_address = [], mi_uptime_start = 0, mi_total_uptime = 0, mi_is_active = True,
     mi_consensus_suspended = False, mi_daemon_started_at = 0, mi_last_reward_height = 0,
     mi_blocks_without_reward = 0, mi_registration_height = 0, mi_registration_source = Handshake,
     mi_peer_reports = [], mi_operator_pubkey = None, mi_is_publicly_reachable = True,
     mi_reachability_checked_at = 0, mi_first_seen_at = 0, mi_last_seen_at = 0\<rparr>"

definition input1 :: RewardInput where
  "input1 = \<lparr>ri_height = 2000, ri_producer_wallet = ''P'',
     ri_active_nodes = [node ''1.1.1.1'' ''A'' Gold, node ''2.2.2.2'' ''B'' Gold, node ''3.3.3.3'' ''C'' Free],
     ri_fairness_map = [(''2.2.2.2'', 4)], ri_fees = 1000, ri_total_reward = 9500001000,
     ri_free_tier_registered = {}\<rparr>"

definition input2 :: RewardInput where
  "input2 = input1\<lparr>ri_active_nodes := [node ''1.1.1.1'' ''A'' Free, node ''2.2.2.2'' ''B'' Free, node ''3.3.3.3'' ''B'' Free]\<rparr>"

theorem tiered_rewards_exact_witness:
  "compute_rewards input1 = [(''P'', 6200001000), (''B'', 2500000000), (''C'', 800000000)] \<and>
   (let rs = compute_rewards input1 in
    sum_list (map (unat \<circ> snd) rs) = 9500000000 + unat (ri_fees input1) \<and>
    distinct (map fst rs) \<and> fst (hd rs) = ri_producer_wallet input1 \<and>
    3000000000 + unat (ri_fees input1) \<le> unat (snd (hd rs)))"
proof
  show "compute_rewards input1 = [(''P'', 6200001000), (''B'', 2500000000), (''C'', 800000000)]" by code_simp
  have "has_paid_tier_nodes input1" by code_simp
  moreover have "unat (ri_fees input1) + 9500000000 < 2 ^ 64" by (simp add: input1_def)
  ultimately show "let rs = compute_rewards input1 in
    sum_list (map (unat \<circ> snd) rs) = 9500000000 + unat (ri_fees input1) \<and>
    distinct (map fst rs) \<and> fst (hd rs) = ri_producer_wallet input1 \<and>
    3000000000 + unat (ri_fees input1) \<le> unat (snd (hd rs))"
    by (rule tiered_rewards_exact)
qed

subsection \<open>Who is paid in the All-Free mode\<close>

lemma set_fst_push: "fst ` set (push_reward a x rs) = insert a (fst ` set rs)"
proof -
  have "set (map fst (push_reward a x rs)) = insert a (set (map fst rs))" unfolding map_fst_push by auto
  then show ?thesis by simp
qed

lemma length_push: "length (push_reward a x rs) \<le> Suc (length rs)"
  by (induction a x rs rule: push_reward.induct) auto

lemma pay_free_payees:
  "fst ` set (pay_free t p n i d cs rs) = (payout_addr \<circ> fst) ` set cs \<union> fst ` set rs \<and>
   length (pay_free t p n i d cs rs) \<le> length cs + length rs"
proof (induction cs arbitrary: i d rs)
  case (Cons c cs)
  obtain mn b where c: "c = (mn, b)" by (cases c)
  define share where "share = (if i = n - 1 then saturating_sub t d else p)"
  let ?rs = "push_reward (payout_addr mn) share rs"
  have step: "pay_free t p n i d (c # cs) rs = pay_free t p n (Suc i) (d + share) cs ?rs"
    by (simp add: c share_def Let_def)
  have "length ?rs \<le> Suc (length rs)" by (rule length_push)
  then show ?case
    using Cons [of "Suc i" "d + share" ?rs] unfolding step by (auto simp: c set_fst_push)
qed simp

definition free_eligible :: "RewardInput \<Rightarrow> MasternodeInfo \<Rightarrow> bool" where
  "free_eligible inp mn \<longleftrightarrow> mn \<in> set (ri_active_nodes inp) \<and> mi_tier mn = Free \<and> payout_addr mn \<noteq> [] \<and> onchain_ok inp mn"

subsection \<open>One slot per payout address\<close>

definition slots_ok :: "candidate set \<Rightarrow> (string, nat) dmap \<times> candidate list \<Rightarrow> bool" where
  "slots_ok C a \<longleftrightarrow>
     (\<forall>addr. dget (fst a) addr = None \<longleftrightarrow> addr \<notin> payout_addr ` fst ` set (snd a)) \<and>
     (\<forall>addr i. dget (fst a) addr = Some i \<longrightarrow> i < length (snd a) \<and> payout_addr (fst (snd a ! i)) = addr) \<and>
     distinct (map (payout_addr \<circ> fst) (snd a)) \<and> set (snd a) \<subseteq> C \<and>
     (\<forall>c \<in> C. \<exists>d \<in> set (snd a). payout_addr (fst d) = payout_addr (fst c) \<and> snd c \<le> snd d)"

lemma slots_okD:
  assumes "slots_ok C (seen, ds)"
  shows "dget seen addr = None \<longleftrightarrow> addr \<notin> payout_addr ` fst ` set ds"
    "dget seen addr = Some i \<Longrightarrow> i < length ds \<and> payout_addr (fst (ds ! i)) = addr"
    "distinct (map (payout_addr \<circ> fst) ds)" "set ds \<subseteq> C"
    "c \<in> C \<Longrightarrow> \<exists>d \<in> set ds. payout_addr (fst d) = payout_addr (fst c) \<and> snd c \<le> snd d"
  using assms by (auto simp: slots_ok_def)

lemma slots_new:
  assumes a: "slots_ok C (seen, ds)" and new: "dget seen (payout_addr mn) = None"
  shows "slots_ok (insert (mn, b) C) (dput (payout_addr mn) (length ds) seen, ds @ [(mn, b)])"
proof -
  note D = slots_okD [OF a]
  have fresh: "payout_addr mn \<notin> payout_addr ` fst ` set ds" using D(1) new by blast
  have idx: "i < Suc (length ds) \<and> payout_addr (fst ((ds @ [(mn, b)]) ! i)) = addr"
    if "dget (dput (payout_addr mn) (length ds) seen) addr = Some i" for addr i
    using that D(2) [of addr i] by (auto simp: nth_append split: if_splits)
  have best: "\<exists>d \<in> set (ds @ [(mn, b)]). payout_addr (fst d) = payout_addr (fst c) \<and> snd c \<le> snd d"
    if "c \<in> insert (mn, b) C" for c
  proof (cases "c = (mn, b)")
    case False
    then have "c \<in> C" using that by simp
    from D(5) [OF this] show ?thesis by auto
  qed auto
  have "distinct (map (payout_addr \<circ> fst) (ds @ [(mn, b)]))" using D(3) fresh by (auto simp: image_comp)
  then show ?thesis unfolding slots_ok_def using D(1,4) idx best by auto
qed

lemma slots_replace_best:
  assumes a: "slots_ok C (seen, ds)" and i: "i < length ds" "payout_addr (fst (ds ! i)) = payout_addr mn"
    and b: "snd (ds ! i) < b" and x: "x \<in> insert (mn, b) C"
  shows "\<exists>d \<in> set (ds[i := (mn, b)]). payout_addr (fst d) = payout_addr (fst x) \<and> snd x \<le> snd d"
proof (cases "x = (mn, b)")
  case True
  then show ?thesis using i by (intro bexI [of _ "(mn, b)"]) (simp_all add: set_update_memI)
next
  case False
  then have "x \<in> C" using x by simp
  from slots_okD(5) [OF a this] obtain d where d: "d \<in> set ds" "payout_addr (fst d) = payout_addr (fst x)" "snd x \<le> snd d"
    by blast
  then obtain j where j: "j < length ds" "ds ! j = d" by (auto simp: in_set_conv_nth)
  show ?thesis
  proof (cases "j = i")
    case True
    then have "payout_addr mn = payout_addr (fst x)" "snd x \<le> b" using i j d b by auto
    then show ?thesis using i by (intro bexI [of _ "(mn, b)"]) (simp_all add: set_update_memI)
  next
    case False
    then have "ds[i := (mn, b)] ! j = d" using j by simp
    then have "d \<in> set (ds[i := (mn, b)])" using j by (metis length_list_update nth_mem)
    then show ?thesis using d by blast
  qed
qed

lemma slots_replace:
  assumes a: "slots_ok C (seen, ds)" and i: "dget seen (payout_addr mn) = Some i" and b: "snd (ds ! i) < b"
  shows "slots_ok (insert (mn, b) C) (seen, ds[i := (mn, b)])"
proof -
  note D = slots_okD [OF a]
  have i': "i < length ds" "payout_addr (fst (ds ! i)) = payout_addr mn" using D(2) [OF i] by simp_all
  have pay: "map (payout_addr \<circ> fst) (ds[i := (mn, b)]) = map (payout_addr \<circ> fst) ds"
    using i' by (simp add: map_update) (metis comp_apply length_map list_update_id nth_map)
  have img: "payout_addr ` fst ` set (ds[i := (mn, b)]) = payout_addr ` fst ` set ds"
    using arg_cong [OF pay, of set] by (simp add: image_comp)
  have nth: "payout_addr (fst (ds[i := (mn, b)] ! j)) = payout_addr (fst (ds ! j))" if "j < length ds" for j
    using arg_cong [OF pay, of "\<lambda>l. l ! j"] that by simp
  have "set (ds[i := (mn, b)]) \<subseteq> insert (mn, b) C"
    using D(4) set_update_subset_insert [of ds i "(mn, b)"] by blast
  then show ?thesis
    unfolding slots_ok_def using D(1-3) nth pay slots_replace_best [OF a i' b] by (simp add: img)
qed

lemma slots_step: "slots_ok C a \<Longrightarrow> slots_ok (insert c C) (dedup_step c a)"
proof -
  assume a: "slots_ok C a"
  obtain mn b where c: "c = (mn, b)" by (cases c)
  obtain seen ds where sd: "a = (seen, ds)" by (cases a)
  note a = a [unfolded sd]
  show ?thesis
  proof (cases "dget seen (payout_addr mn)")
    case None
    then show ?thesis using slots_new [OF a None] by (simp add: c sd)
  next
    case (Some i)
    note i = slots_okD(2) [OF a Some]
    have "slots_ok (insert (mn, b) C) (seen, ds)" if le: "\<not> snd (ds ! i) < b"
    proof -
      have "ds ! i \<in> set ds" using i by simp
      then have "\<exists>d \<in> set ds. payout_addr (fst d) = payout_addr mn \<and> b \<le> snd d" using i le by force
      then show ?thesis using a by (auto simp: slots_ok_def)
    qed
    then show ?thesis using slots_replace [OF a Some] Some by (simp add: c sd)
  qed
qed

lemma dedup_slots: "slots_ok (set cs) (fold dedup_step cs ([], []))"
proof -
  have "slots_ok (C \<union> set cs) (fold dedup_step cs a)" if "slots_ok C a" for C a
    using that
  proof (induction cs arbitrary: C a)
    case (Cons c cs)
    from Cons.IH [OF slots_step [OF Cons.prems, of c]] show ?case by simp
  qed simp
  from this [of "{}" "([], [])"] show ?thesis by (simp add: slots_ok_def)
qed

lemma dedup_spec:
  "distinct (map (payout_addr \<circ> fst) (dedup_by_payout cs))" "set (dedup_by_payout cs) \<subseteq> set cs"
  "c \<in> set cs \<Longrightarrow> \<exists>d \<in> set (dedup_by_payout cs). payout_addr (fst d) = payout_addr (fst c) \<and> snd c \<le> snd d"
  using dedup_slots [of cs] by (auto simp: slots_ok_def dedup_by_payout_def)

lemma dedup_empty [simp]: "dedup_by_payout cs = [] \<longleftrightarrow> cs = []"
proof (cases cs)
  case (Cons c cs')
  then have "\<exists>d. d \<in> set (dedup_by_payout cs)" using dedup_spec(3) [of c cs] by auto
  then show ?thesis using Cons by auto
qed (simp add: dedup_by_payout_def)

lemma sort_empty [simp]: "sort_candidates cs = [] \<longleftrightarrow> cs = []"
  by (metis length_0_conv length_sort sort_candidates_def)

lemma set_sort_candidates [simp]: "set (sort_candidates cs) = set cs"
  by (simp add: sort_candidates_def)

lemma free_candidates_eligible: "c \<in> set (free_candidates inp) \<Longrightarrow> free_eligible inp (fst c)"
  using dedup_spec(2) by (fastforce simp: free_candidates_def Let_def free_eligible_def with_bonus_def split: if_splits)

lemma free_candidates_empty: "free_candidates inp = [] \<longleftrightarrow> (\<forall>mn. \<not> free_eligible inp mn)"
  by (auto simp: free_candidates_def Let_def free_eligible_def filter_empty_conv)

text \<open>
  In a block without paid-tier nodes that has an eligible Free node, the total reward is paid
  out exactly, to at most 25 addresses, none listed twice, each the payout address of an active
  Free node that passes the registration filter.
\<close>

theorem all_free_rewards_exact:
  assumes "\<not> has_paid_tier_nodes inp" "free_eligible inp mn"
  shows "let rs = compute_rewards inp in
    sum_list (map (unat \<circ> snd) rs) = unat (ri_total_reward inp) \<and>
    distinct (map fst rs) \<and> length rs \<le> 25 \<and>
    (\<forall>addr \<in> fst ` set rs. \<exists>mn. free_eligible inp mn \<and> payout_addr mn = addr)"
proof -
  define cs n tot where "cs = free_candidates inp" and "n = min (length cs) MAX_FREE_TIER_RECIPIENTS"
    and "tot = ri_total_reward inp"
  have ne: "cs \<noteq> []" using assms(2) free_candidates_empty unfolding cs_def by blast
  then have n: "0 < n" "n \<le> 25" "n \<le> length cs" by (auto simp: n_def MAX_FREE_TIER_RECIPIENTS_def)
  let ?rs = "pay_free tot (tot div of_nat n) n 0 0 (take n cs) []"
  have "ri_active_nodes inp \<noteq> []" using assms(2) by (auto simp: free_eligible_def)
  then have rs: "compute_rewards inp = ?rs"
    using assms(1) n by (simp add: compute_rewards_def compute_all_free_def cs_def n_def tot_def Let_def)
  have "unat (tot div of_nat n) = unat tot div n" using n by (simp add: unat_div unat_of_nat)
  then have "paid ?rs = unat tot \<and> distinct (map fst ?rs)"
    using n by (intro pay_free_inv) (auto simp: paid_def)
  moreover have len: "length ?rs \<le> 25" and payees: "fst ` set ?rs = (payout_addr \<circ> fst) ` set (take n cs)"
    using pay_free_payees [of tot "tot div of_nat n" n 0 0 "take n cs" "[]"] n by auto
  have "\<exists>mn. free_eligible inp mn \<and> payout_addr mn = payout_addr (fst c)" if "c \<in> set (take n cs)" for c
    using free_candidates_eligible [of c inp] in_set_takeD [OF that] by (auto simp: cs_def)
  then have "\<forall>addr \<in> fst ` set ?rs. \<exists>mn. free_eligible inp mn \<and> payout_addr mn = addr"
    unfolding payees by auto
  ultimately show ?thesis
    using len unfolding rs Let_def paid_eq [symmetric] tot_def [symmetric] by blast
qed

theorem all_free_rewards_exact_witness:
  "compute_rewards input2 = [(''B'', 4750000500), (''A'', 4750000500)] \<and>
   (let rs = compute_rewards input2 in
    sum_list (map (unat \<circ> snd) rs) = unat (ri_total_reward input2) \<and>
    distinct (map fst rs) \<and> length rs \<le> 25 \<and>
    (\<forall>addr \<in> fst ` set rs. \<exists>mn. free_eligible input2 mn \<and> payout_addr mn = addr))"
proof -
  have "\<not> has_paid_tier_nodes input2" "free_eligible input2 (node ''1.1.1.1'' ''A'' Free)" by code_simp+
  note exact = all_free_rewards_exact [OF this]
  have "compute_rewards input2 = [(''B'', 4750000500), (''A'', 4750000500)]" by code_simp
  from conjI [OF this exact] show ?thesis .
qed

text \<open>
  The distribution is empty exactly when no masternode is active, or when all active ones are
  Free and none of them is eligible.
\<close>

theorem rewards_empty_iff:
  "compute_rewards inp = [] \<longleftrightarrow> ri_active_nodes inp = [] \<or>
     (\<not> has_paid_tier_nodes inp \<and> (\<forall>mn. \<not> free_eligible inp mn))"
proof -
  have credit: "credit_first x rs = [] \<longleftrightarrow> rs = []" for x rs by (metis map_fst_credit map_is_Nil_conv)
  have nodes: "snd (pay_tier_nodes per cs (d, rs)) = [] \<longleftrightarrow> cs = [] \<and> rs = []" for per cs d rs
  proof (induction cs arbitrary: d rs)
    case (Cons c cs)
    then show ?case by (cases c) simp
  qed simp
  have tier: "snd (pay_tier inp t a) \<noteq> []" if "snd a \<noteq> []" for t a
    using that by (cases a) (auto simp: pay_tier_def Let_def credit nodes)
  have fold: "snd (fold (pay_tier inp) ts a) \<noteq> []" if "snd a \<noteq> []" for ts a
    using that tier by (induction ts arbitrary: a) auto
  have "compute_tiered inp \<noteq> []"
    using fold [of "(0, push_reward (ri_producer_wallet inp) (PRODUCER_REWARD_SATOSHIS + ri_fees inp) [])"
        "[Gold, Silver, Bronze, Free]"]
    by (auto simp: compute_tiered_def credit split: prod.splits)
  moreover have "compute_all_free inp = [] \<longleftrightarrow> free_candidates inp = []"
  proof -
    have some: "pay_free t p n 0 0 cs [] \<noteq> []" if "cs \<noteq> []" for t p n cs
      using pay_free_payees [of t p n 0 0 cs "[]"] that by auto
    show ?thesis
      by (cases "free_candidates inp = []")
        (auto simp: compute_all_free_def Let_def MAX_FREE_TIER_RECIPIENTS_def min_def some)
  qed
  ultimately show ?thesis
    by (auto simp: compute_rewards_def free_candidates_empty)
qed

subsection \<open>The order of the active nodes\<close>

text \<open>Whether two Free nodes with one payout address ever have the same counter.\<close>

definition free_ties_apart :: "RewardInput \<Rightarrow> bool" where
  "free_ties_apart inp \<longleftrightarrow> (\<forall>a \<in> set (ri_active_nodes inp). \<forall>b \<in> set (ri_active_nodes inp).
     mi_tier a = Free \<and> mi_tier b = Free \<and> payout_addr a = payout_addr b \<and>
     snd (with_bonus inp a) = snd (with_bonus inp b) \<longrightarrow> a = b)"

lemma set_dedup:
  assumes "\<forall>a \<in> set cs. \<forall>b \<in> set cs. payout_addr (fst a) = payout_addr (fst b) \<and> snd a = snd b \<longrightarrow> a = b"
  shows "set (dedup_by_payout cs) =
    {c \<in> set cs. \<forall>d \<in> set cs. payout_addr (fst d) = payout_addr (fst c) \<longrightarrow> snd d \<le> snd c}" (is "_ = ?best")
proof
  have uniq: "d = c" if "c \<in> set (dedup_by_payout cs)" "d \<in> set (dedup_by_payout cs)"
      "payout_addr (fst d) = payout_addr (fst c)" for c d
    using dedup_spec(1) [of cs] that by (auto simp: distinct_map inj_on_def)
  show "set (dedup_by_payout cs) \<subseteq> ?best"
  proof
    fix c assume c: "c \<in> set (dedup_by_payout cs)"
    have "snd d \<le> snd c" if d: "d \<in> set cs" "payout_addr (fst d) = payout_addr (fst c)" for d
      using dedup_spec(3) [OF d(1)] uniq [OF c] d(2) by metis
    then show "c \<in> ?best" using c dedup_spec(2) by auto
  qed
  show "?best \<subseteq> set (dedup_by_payout cs)"
  proof
    fix c assume c: "c \<in> ?best"
    then obtain d where d: "d \<in> set (dedup_by_payout cs)" "payout_addr (fst d) = payout_addr (fst c)" "snd c \<le> snd d"
      using dedup_spec(3) [of c cs] by auto
    then have "d \<in> set cs" using dedup_spec(2) by auto
    with c d have "snd d = snd c" by (auto intro: antisym)
    with assms c d \<open>d \<in> set cs\<close> have "d = c" by auto
    with d show "c \<in> set (dedup_by_payout cs)" by simp
  qed
qed

lemma mset_dedup:
  assumes "mset cs = mset ds"
    and "\<forall>a \<in> set cs. \<forall>b \<in> set cs. payout_addr (fst a) = payout_addr (fst b) \<and> snd a = snd b \<longrightarrow> a = b"
  shows "mset (dedup_by_payout cs) = mset (dedup_by_payout ds)"
proof -
  have set: "set cs = set ds" using assms(1) by (metis set_mset_mset)
  then have "set (dedup_by_payout cs) = set (dedup_by_payout ds)"
    using set_dedup [of cs] set_dedup [of ds] assms(2) by simp
  moreover have "distinct (dedup_by_payout xs)" for xs
    using dedup_spec(1) [of xs] by (simp add: distinct_map)
  ultimately show ?thesis by (metis set_eq_iff_mset_eq_distinct)
qed

lemma sort_candidates_perm:
  assumes "mset cs = mset ds" "inj_on (mi_address \<circ> fst) (set cs)"
  shows "sort_candidates cs = sort_candidates ds"
  unfolding sort_candidates_def
  by (rule sort_key_perm) (use assms in \<open>simp_all add: inj_on_def case_prod_beta\<close>)

lemma with_bonus_active [simp]: "with_bonus (inp\<lparr>ri_active_nodes := ns\<rparr>) = with_bonus inp"
  "onchain_ok (inp\<lparr>ri_active_nodes := ns\<rparr>) = onchain_ok inp"
  by (simp_all add: with_bonus_def onchain_ok_def fun_eq_iff)

lemma fst_with_bonus [simp]: "fst (with_bonus inp mn) = mn"
  by (simp add: with_bonus_def)

lemma candidates_perm:
  assumes perm: "mset ns = mset (ri_active_nodes inp)" and addrs: "inj_on mi_address (set (ri_active_nodes inp))"
    and ties: "free_ties_apart inp" and P: "\<And>mn. P mn \<Longrightarrow> b \<Longrightarrow> mi_tier mn = Free"
  defines "L \<equiv> \<lambda>xs. map (with_bonus inp) (filter P xs)"
  shows "mset (if b then dedup_by_payout (L ns) else L ns)
       = mset (if b then dedup_by_payout (L (ri_active_nodes inp)) else L (ri_active_nodes inp))"
    "inj_on (mi_address \<circ> fst) (set (if b then dedup_by_payout (L ns) else L ns))"
proof -
  have m: "mset (L ns) = mset (L (ri_active_nodes inp))" using perm by (simp add: L_def)
  have set: "set ns = set (ri_active_nodes inp)" using perm by (metis set_mset_mset)
  have "x = y" if h: "x \<in> set (L ns)" "y \<in> set (L ns)" "payout_addr (fst x) = payout_addr (fst y)" "snd x = snd y" b for x y
  proof -
    obtain u v where u: "x = with_bonus inp u" "P u" "u \<in> set ns" and v: "y = with_bonus inp v" "P v" "v \<in> set ns"
      using h by (auto simp: L_def)
    have "mi_tier u = Free" "mi_tier v = Free" using P u v h(5) by blast+
    then have "u = v" using ties h u v set unfolding free_ties_apart_def by auto
    then show ?thesis using u v by simp
  qed
  then have "\<forall>x \<in> set (L ns). \<forall>y \<in> set (L ns). payout_addr (fst x) = payout_addr (fst y) \<and> snd x = snd y \<longrightarrow> x = y" if b
    using that by blast
  then show "mset (if b then dedup_by_payout (L ns) else L ns)
       = mset (if b then dedup_by_payout (L (ri_active_nodes inp)) else L (ri_active_nodes inp))"
    using m mset_dedup by auto
  have "inj_on (mi_address \<circ> fst) (set (L ns))"
    using addrs set by (auto simp: inj_on_def L_def with_bonus_def)
  then show "inj_on (mi_address \<circ> fst) (set (if b then dedup_by_payout (L ns) else L ns))"
    using dedup_spec(2) [of "L ns"] by (auto intro: inj_on_subset)
qed

lemma tier_candidates_perm:
  assumes perm: "mset ns = mset (ri_active_nodes inp)" and addrs: "inj_on mi_address (set (ri_active_nodes inp))"
    and ties: "free_ties_apart inp"
  shows "sort_candidates (tier_candidates (inp\<lparr>ri_active_nodes := ns\<rparr>) t) = sort_candidates (tier_candidates inp t)"
proof -
  let ?P = "\<lambda>mn. (((mi_tier mn = t \<and> payout_addr mn \<noteq> []) \<and> payout_addr mn \<noteq> ri_producer_wallet inp) \<and>
      (if t = Free then payout_addr mn \<notin> paid_tier_wallet_set inp else True)) \<and> (if t = Free then onchain_ok inp mn else True)"
  let ?b = "t = Free \<and> FREE_TIER_SYBIL_FORK_HEIGHT \<le> ri_height inp"
  have wal: "paid_tier_wallet_set (inp\<lparr>ri_active_nodes := ns\<rparr>) = paid_tier_wallet_set inp"
    using perm by (simp add: paid_tier_wallet_set_def) (metis set_mset_mset)
  have shape: "tier_candidates (inp\<lparr>ri_active_nodes := xs\<rparr>) t =
      (if ?b then dedup_by_payout (map (with_bonus inp) (filter ?P xs)) else map (with_bonus inp) (filter ?P xs))"
    if "paid_tier_wallet_set (inp\<lparr>ri_active_nodes := xs\<rparr>) = paid_tier_wallet_set inp" for xs
    using that by (simp add: tier_candidates_def Let_def conj_commute cong: if_cong)
  note shape0 = shape [of "ri_active_nodes inp", simplified]
  note c = candidates_perm [OF perm addrs ties, of ?P ?b]
  show ?thesis
    unfolding shape [OF wal] shape0 by (rule sort_candidates_perm) (use c in auto)
qed

lemma free_candidates_perm:
  assumes perm: "mset ns = mset (ri_active_nodes inp)" and addrs: "inj_on mi_address (set (ri_active_nodes inp))"
    and ties: "free_ties_apart inp"
  shows "free_candidates (inp\<lparr>ri_active_nodes := ns\<rparr>) = free_candidates inp"
proof -
  let ?P = "\<lambda>mn. (mi_tier mn = Free \<and> payout_addr mn \<noteq> []) \<and> onchain_ok inp mn"
  let ?b = "FREE_TIER_SYBIL_FORK_HEIGHT \<le> ri_height inp"
  have shape: "free_candidates (inp\<lparr>ri_active_nodes := xs\<rparr>) = sort_candidates
      (if ?b then dedup_by_payout (map (with_bonus inp) (filter ?P xs)) else map (with_bonus inp) (filter ?P xs))" for xs
    by (simp add: free_candidates_def Let_def conj_commute)
  note shape0 = shape [of "ri_active_nodes inp", simplified]
  note c = candidates_perm [OF perm addrs ties, of ?P ?b]
  show ?thesis
    unfolding shape shape0 by (rule sort_candidates_perm) (use c in auto)
qed

text \<open>
  C8. The order in which a node lists the active masternodes does not change the distribution, so
  a producer and a validator that hold the same nodes in different order agree: provided the
  nodes have distinct addresses and no two Free nodes of one payout address have waited equally
  long.
\<close>

theorem rewards_order_independent:
  assumes "mset ns = mset (ri_active_nodes inp)" "inj_on mi_address (set (ri_active_nodes inp))" "free_ties_apart inp"
  shows "compute_rewards (inp\<lparr>ri_active_nodes := ns\<rparr>) = compute_rewards inp"
proof -
  let ?q = "inp\<lparr>ri_active_nodes := ns\<rparr>"
  have set: "set ns = set (ri_active_nodes inp)" using assms(1) by (metis set_mset_mset)
  have tier: "pay_tier ?q t a = pay_tier inp t a" for t a
  proof -
    have same: "sort_candidates (tier_candidates ?q t) = sort_candidates (tier_candidates inp t)"
      by (rule tier_candidates_perm [OF assms])
    then have empty: "tier_candidates ?q t = [] \<longleftrightarrow> tier_candidates inp t = []" by (metis sort_empty)
    show ?thesis unfolding pay_tier_def Let_def same empty ..
  qed
  have "pay_tier ?q = pay_tier inp" by (intro ext) (rule tier)
  then have "compute_tiered ?q = compute_tiered inp" by (simp add: compute_tiered_def)
  moreover have "compute_all_free ?q = compute_all_free inp"
    unfolding compute_all_free_def free_candidates_perm [OF assms] by (simp add: Let_def)
  moreover have "has_paid_tier_nodes ?q = has_paid_tier_nodes inp"
    using set by (simp add: has_paid_tier_nodes_def list_ex_iff)
  moreover have "ns = [] \<longleftrightarrow> ri_active_nodes inp = []" using set by (metis set_empty)
  ultimately show ?thesis by (simp add: compute_rewards_def)
qed

theorem rewards_order_independent_witness:
  "compute_rewards (input1\<lparr>ri_active_nodes := rev (ri_active_nodes input1)\<rparr>) = compute_rewards input1"
proof -
  have "free_ties_apart input1" by code_simp
  moreover have "inj_on mi_address (set (ri_active_nodes input1))" by (simp add: input1_def) code_simp
  ultimately show ?thesis by (intro rewards_order_independent) simp_all
qed

text \<open>
  The whole pool of a paid tier goes to one node: among the nodes of that tier with a payout
  address other than the producer's, the one that has gone longest without a reward, and of
  several such the one with the least node address. Without such a node the pool goes to the
  producer.
\<close>

theorem paid_tier_winner:
  assumes "tier \<noteq> Free"
  shows "let E = {mn \<in> set (ri_active_nodes inp). mi_tier mn = tier \<and> payout_addr mn \<noteq> []
                    \<and> payout_addr mn \<noteq> ri_producer_wallet inp};
             waited = (\<lambda>mn. snd (with_bonus inp mn)) in
    if E = {} then pay_tier inp tier (dust, rs) = (dust, credit_first (pool_allocation tier) rs)
    else \<exists>w \<in> E. pay_tier inp tier (dust, rs) = (dust, push_reward (payout_addr w) (pool_allocation tier) rs) \<and>
      (\<forall>mn \<in> E. waited mn < waited w \<or> waited mn = waited w \<and> mi_address w \<le> mi_address mn)"
proof -
  define E where "E = {mn \<in> set (ri_active_nodes inp). mi_tier mn = tier \<and> payout_addr mn \<noteq> []
                    \<and> payout_addr mn \<noteq> ri_producer_wallet inp}"
  let ?cs = "tier_candidates inp tier"
  have set: "set ?cs = with_bonus inp ` E" using assms by (auto simp: tier_candidates_def Let_def E_def)
  show ?thesis
  proof (cases "E = {}")
    case True
    then have "?cs = []" using set by (metis image_empty set_empty)
    with True show ?thesis by (simp add: pay_tier_def E_def [symmetric])
  next
    case False
    then have ne: "?cs \<noteq> []" using set by (metis image_is_empty set_empty)
    then obtain c rest where s: "sort_candidates ?cs = c # rest" by (metis neq_Nil_conv sort_empty)
    then have "c \<in> set ?cs" by (metis list.set_intros(1) set_sort_candidates)
    then obtain w where w: "w \<in> E" "c = with_bonus inp w" using set by auto
    have best: "waited_mn < waited_w \<or> waited_mn = waited_w \<and> mi_address w \<le> mi_address mn"
      if mn: "mn \<in> E" "waited_mn = snd (with_bonus inp mn)" "waited_w = snd (with_bonus inp w)" for mn waited_mn waited_w
    proof -
      have "with_bonus inp mn \<in> set (c # rest)" using mn set s by (metis imageI set_sort_candidates)
      moreover have "sorted (map (\<lambda>(mn, bonus). (- uint bonus, mi_address mn)) (c # rest))"
        unfolding s [symmetric] by (simp add: sort_candidates_def)
      ultimately have "(- uint waited_w, mi_address w) \<le> (- uint waited_mn, mi_address mn)"
        using w mn by (auto simp: with_bonus_def)
      then show ?thesis by (auto simp: less_eq_prod_def word_less_def word_uint_eq_iff)
    qed
    have "pay_tier inp tier (dust, rs) = (dust, push_reward (payout_addr w) (pool_allocation tier) rs)"
      using ne assms by (simp add: pay_tier_def Let_def s w with_bonus_def saturating_sub_def)
    with w best [OF _ refl refl]
    have "\<exists>w \<in> E. pay_tier inp tier (dust, rs) = (dust, push_reward (payout_addr w) (pool_allocation tier) rs) \<and>
      (\<forall>mn \<in> E. snd (with_bonus inp mn) < snd (with_bonus inp w) \<or>
         snd (with_bonus inp mn) = snd (with_bonus inp w) \<and> mi_address w \<le> mi_address mn)" by blast
    then show ?thesis using False unfolding Let_def E_def [symmetric] by simp
  qed
qed

theorem paid_tier_winner_witness:
  "let E = {mn \<in> set (ri_active_nodes input1). mi_tier mn = Gold \<and> payout_addr mn \<noteq> []
                    \<and> payout_addr mn \<noteq> ri_producer_wallet input1};
       waited = (\<lambda>mn. snd (with_bonus input1 mn)) in
    if E = {} then pay_tier input1 Gold (0, [(''P'', 1)]) = (0, credit_first (pool_allocation Gold) [(''P'', 1)])
    else \<exists>w \<in> E. pay_tier input1 Gold (0, [(''P'', 1)]) = (0, push_reward (payout_addr w) (pool_allocation Gold) [(''P'', 1)]) \<and>
      (\<forall>mn \<in> E. waited mn < waited w \<or> waited mn = waited w \<and> mi_address w \<le> mi_address mn)"
  by (rule paid_tier_winner) simp

subsection \<open>Comparing distributions\<close>

definition paid_to :: "string \<Rightarrow> rewards \<Rightarrow> nat" where
  "paid_to a rs = sum_list (map (\<lambda>(addr, x). if addr = a then unat x else 0) rs)"

definition held :: "(string, u64) dmap \<Rightarrow> string \<Rightarrow> nat" where
  "held m a = (case dget m a of None \<Rightarrow> 0 | Some x \<Rightarrow> unat x)"

lemma normalize_step_held:
  assumes "dget m a \<noteq> Some 0" "held m a + unat (if addr = a then x else 0) < 2 ^ 64"
  shows "held (normalize_step (addr, x) m) a = held m a + unat (if addr = a then x else 0) \<and>
    dget (normalize_step (addr, x) m) a \<noteq> Some 0"
proof (cases "addr = a \<and> 0 < x")
  case True
  let ?old = "case dget m a of None \<Rightarrow> 0 | Some y \<Rightarrow> y"
  have old: "unat ?old = held m a" by (simp add: held_def split: option.split)
  then have u: "unat (?old + x) = held m a + unat x" using assms(2) True by (simp add: unat_word_ariths)
  moreover have "?old + x \<noteq> 0"
  proof
    assume "?old + x = 0"
    then have "unat (?old + x) = 0" by simp
    with u True show False by (simp add: unat_eq_zero word_less_nat_alt)
  qed
  ultimately show ?thesis using True by (simp add: normalize_step_def held_def)
next
  case False
  then show ?thesis using assms(1) by (auto simp: normalize_step_def held_def word_less_nat_alt)
qed

lemma normalize_fold_held:
  assumes "dget m a \<noteq> Some 0" "held m a + paid_to a rs < 2 ^ 64"
  shows "held (fold normalize_step rs m) a = held m a + paid_to a rs \<and> dget (fold normalize_step rs m) a \<noteq> Some 0"
  using assms
proof (induction rs arbitrary: m)
  case (Cons r rs)
  obtain addr x where r: "r = (addr, x)" by (cases r)
  have p: "paid_to a (r # rs) = unat (if addr = a then x else 0) + paid_to a rs" by (simp add: paid_to_def r)
  have s: "held (normalize_step r m) a = held m a + unat (if addr = a then x else 0) \<and>
      dget (normalize_step r m) a \<noteq> Some 0"
    unfolding r by (rule normalize_step_held) (use Cons.prems p in linarith)+
  then have "held (fold normalize_step rs (normalize_step r m)) a = held (normalize_step r m) a + paid_to a rs
      \<and> dget (fold normalize_step rs (normalize_step r m)) a \<noteq> Some 0"
    using Cons.prems p by (intro Cons.IH) auto
  then show ?case using s p by simp
qed (simp add: paid_to_def)

text \<open>
  Two reward lists normalize to the same map exactly when they pay every address the same
  total, in whatever order and in however many entries, as long as each total fits 64 bits.
\<close>

theorem normalize_compares_totals:
  assumes "\<forall>a. paid_to a rs < 2 ^ 64" "\<forall>a. paid_to a ss < 2 ^ 64"
  shows "(\<forall>a. dget (normalize_rewards rs) a = dget (normalize_rewards ss) a) \<longleftrightarrow>
    (\<forall>a. paid_to a rs = paid_to a ss)"
proof -
  have norm: "dget (normalize_rewards ts) a = (if paid_to a ts = 0 then None else Some (of_nat (paid_to a ts)))"
    if "paid_to a ts < 2 ^ 64" for a ts
  proof -
    have h: "paid_to a ts = held (normalize_rewards ts) a" "dget (normalize_rewards ts) a \<noteq> Some 0"
      unfolding normalize_rewards_def using that normalize_fold_held [of "[]" a ts] by (simp_all add: held_def)
    then show ?thesis
      by (cases "dget (normalize_rewards ts) a") (simp_all add: held_def unat_eq_zero)
  qed
  have "(of_nat m :: u64) = of_nat n \<longleftrightarrow> m = n" if "m < 2 ^ 64" "n < 2 ^ 64" for m n
    using that by (simp add: word_unat_eq_iff unat_of_nat)
  then show ?thesis
    using assms by (auto simp: norm split: if_splits)
qed

theorem normalize_compares_totals_witness:
  "(\<forall>a. dget (normalize_rewards [(''A'', 3), (''B'', 4), (''A'', 2)]) a = dget (normalize_rewards [(''B'', 4), (''C'', 0), (''A'', 5)]) a) \<longleftrightarrow>
    (\<forall>a. paid_to a [(''A'', 3), (''B'', 4), (''A'', 2)] = paid_to a [(''B'', 4), (''C'', 0), (''A'', 5)])"
  by (rule normalize_compares_totals) (simp_all add: paid_to_def)

end
