(* ===== verification/Finality.thy ===== *)
theory Finality
  imports Addresses
begin

text \<open>
  Votes and finality proofs: the signed messages and certificates of \<open>src/types.rs\<close> (TimeVote,
  VerifiableFinality, TimeProof, AVSSnapshot, and the messages of the liveness fallback) and the
  manager of \<open>src/finality_proof.rs\<close>. Error strings are constructors. A signature check is that
  of \<open>ed25519_dalek\<close>: \<open>ed_sig_ok\<close> for \<open>Signature::from_slice\<close>, \<open>ed_verify\<close> for \<open>verify\<close>.
\<close>

section \<open>Votes\<close>

datatype VoteDecision = Accept | Reject

fun decision_byte :: "VoteDecision \<Rightarrow> u8" where
  "decision_byte Accept = 1"
| "decision_byte Reject = 0"

record TimeVote =
  tv_chain_id :: u32
  tv_txid :: hash256
  tv_tx_hash_commitment :: hash256
  tv_slot_index :: u64
  tv_decision :: VoteDecision
  tv_voter_mn_id :: string
  tv_voter_weight :: u64
  tv_signature :: "u8 list"

definition vote_message :: "TimeVote \<Rightarrow> u8 list" where
  "vote_message v = le_bytes 4 (tv_chain_id v) @ tv_txid v @ tv_tx_hash_commitment v
     @ le_bytes 8 (tv_slot_index v) @ [decision_byte (tv_decision v)]
     @ as_bytes (tv_voter_mn_id v) @ le_bytes 8 (tv_voter_weight v)"

definition vote_verify :: "extern \<Rightarrow> TimeVote \<Rightarrow> pubkey \<Rightarrow> bool" where
  "vote_verify X v pk = signed_by X pk (vote_message v) (tv_signature v)"

definition calculate_tx_commitment :: "extern \<Rightarrow> Transaction \<Rightarrow> hash256" where
  "calculate_tx_commitment X tx = txid X tx"

definition contributes_to_finality :: "TimeVote \<Rightarrow> bool" where
  "contributes_to_finality v = (tv_decision v = Accept)"

section \<open>Verifiable finality\<close>

record VerifiableFinality =
  vf_tx :: Transaction
  vf_slot_index :: u64
  vf_votes :: "TimeVote list"

datatype FinalityError =
    ChainIdMismatch | TxIdMismatch | SerializeFailed | CommitmentMismatch | SlotMismatch
  | DuplicateVoter string | NotInAvs string | BadSignature
  | NoVotes | FieldsMismatch | NonAccept | InsufficientWeight u64 u64

type_synonym avs_entry = "string \<times> u64 \<times> pubkey"

definition find_entry :: "avs_entry list \<Rightarrow> string \<Rightarrow> avs_entry option" where
  "find_entry avs mn = find (\<lambda>(i, _, _). i = mn) avs"

fun vfp_loop ::
    "extern \<Rightarrow> u32 \<Rightarrow> avs_entry list \<Rightarrow> Transaction \<Rightarrow> u64 \<Rightarrow> TimeVote list \<Rightarrow> u64 \<Rightarrow> string set
      \<Rightarrow> FinalityError + u64" where
  "vfp_loop X cid avs tx slot [] tot seen = Inr tot"
| "vfp_loop X cid avs tx slot (v # vs) tot seen =
     (if tv_chain_id v \<noteq> cid then Inl ChainIdMismatch
      else if tv_txid v \<noteq> txid X tx then Inl TxIdMismatch
      else (case tx_bincode X tx of None \<Rightarrow> Inl SerializeFailed
        | Some bytes \<Rightarrow>
            if tv_tx_hash_commitment v \<noteq> sha256 X bytes then Inl CommitmentMismatch
            else if tv_slot_index v \<noteq> slot then Inl SlotMismatch
            else if tv_voter_mn_id v \<in> seen then Inl (DuplicateVoter (tv_voter_mn_id v))
            else (case find_entry avs (tv_voter_mn_id v) of None \<Rightarrow> Inl (NotInAvs (tv_voter_mn_id v))
              | Some (_, w, pk) \<Rightarrow>
                  if vote_verify X v pk
                  then vfp_loop X cid avs tx slot vs (tot + w) (insert (tv_voter_mn_id v) seen)
                  else Inl BadSignature)))"

definition vfp_validate ::
    "extern \<Rightarrow> VerifiableFinality \<Rightarrow> u32 \<Rightarrow> avs_entry list \<Rightarrow> FinalityError + u64" where
  "vfp_validate X f cid avs = vfp_loop X cid avs (vf_tx f) (vf_slot_index f) (vf_votes f) 0 {}"

section \<open>Time proofs\<close>

record TimeProof =
  tp_txid :: hash256
  tp_slot_index :: u64
  tp_votes :: "TimeVote list"

definition finality_threshold :: "u64 \<Rightarrow> u64" where
  "finality_threshold total_avs_weight = div_ceil (total_avs_weight * 67) 100"

fun proof_loop ::
    "extern \<Rightarrow> (string \<Rightarrow> pubkey option) \<Rightarrow> TimeVote \<Rightarrow> TimeVote list \<Rightarrow> u64 \<Rightarrow> string set
      \<Rightarrow> FinalityError + u64" where
  "proof_loop X get_key r [] acc seen = Inr acc"
| "proof_loop X get_key r (v # vs) acc seen =
     (if tv_chain_id v \<noteq> tv_chain_id r \<or> tv_txid v \<noteq> tv_txid r
         \<or> tv_tx_hash_commitment v \<noteq> tv_tx_hash_commitment r \<or> tv_slot_index v \<noteq> tv_slot_index r
      then Inl FieldsMismatch
      else if tv_decision v \<noteq> Accept then Inl NonAccept
      else if tv_voter_mn_id v \<in> seen then Inl (DuplicateVoter (tv_voter_mn_id v))
      else (case get_key (tv_voter_mn_id v) of None \<Rightarrow> Inl (NotInAvs (tv_voter_mn_id v))
        | Some pk \<Rightarrow>
            if vote_verify X v pk
            then proof_loop X get_key r vs (acc + tv_voter_weight v) (insert (tv_voter_mn_id v) seen)
            else Inl BadSignature))"

definition proof_verify ::
    "extern \<Rightarrow> TimeProof \<Rightarrow> u64 \<Rightarrow> (string \<Rightarrow> pubkey option) \<Rightarrow> FinalityError + u64" where
  "proof_verify X p total_avs_weight get_key =
     (case tp_votes p of [] \<Rightarrow> Inl NoVotes
      | r # _ \<Rightarrow> (case proof_loop X get_key r (tp_votes p) 0 {} of
          Inl e \<Rightarrow> Inl e
        | Inr acc \<Rightarrow>
            if acc < finality_threshold total_avs_weight
            then Inl (InsufficientWeight acc (finality_threshold total_avs_weight)) else Inr acc))"

definition proof_hash :: "extern \<Rightarrow> TimeProof \<Rightarrow> hash256" where
  "proof_hash X p = sha256 X (tp_txid p @ le_bytes 8 (tp_slot_index p)
     @ le_bytes 8 (of_nat (length (tp_votes p)) :: u64) @ concat (map tv_signature (tp_votes p)))"

section \<open>Snapshots of the validator set\<close>

record ValidatorInfo =
  vi_address :: string
  vi_weight :: u64

record AVSSnapshot =
  av_slot_index :: u64
  av_validators_ref :: "ValidatorInfo list option"
  av_validators :: "(string \<times> u64) list"
  av_total_weight :: u64
  av_timestamp :: u64

definition avs_new_with_ref :: "u64 \<Rightarrow> u64 \<Rightarrow> ValidatorInfo list \<Rightarrow> AVSSnapshot" where
  "avs_new_with_ref now slot vs = \<lparr>av_slot_index = slot, av_validators_ref = Some vs, av_validators = [],
     av_total_weight = sum_list (map vi_weight vs), av_timestamp = now\<rparr>"

definition avs_new :: "u64 \<Rightarrow> u64 \<Rightarrow> (string \<times> u64) list \<Rightarrow> AVSSnapshot" where
  "avs_new now slot vs = \<lparr>av_slot_index = slot, av_validators_ref = None, av_validators = vs,
     av_total_weight = sum_list (map snd vs), av_timestamp = now\<rparr>"

definition contains_validator :: "AVSSnapshot \<Rightarrow> string \<Rightarrow> bool" where
  "contains_validator s mn = (case av_validators_ref s of
     Some vs \<Rightarrow> list_ex (\<lambda>v. vi_address v = mn) vs
   | None \<Rightarrow> list_ex (\<lambda>(i, _). i = mn) (av_validators s))"

definition get_validator_weight :: "AVSSnapshot \<Rightarrow> string \<Rightarrow> u64 option" where
  "get_validator_weight s mn = (case av_validators_ref s of
     Some vs \<Rightarrow> map_option vi_weight (find (\<lambda>v. vi_address v = mn) vs)
   | None \<Rightarrow> map_option snd (find (\<lambda>(i, _). i = mn) (av_validators s)))"

definition voting_threshold :: "AVSSnapshot \<Rightarrow> u64" where
  "voting_threshold s = div_ceil (av_total_weight s * 67) 100"

section \<open>Messages of the liveness fallback\<close>

record PollResult =
  po_round :: u64
  po_votes_valid :: u32
  po_votes_invalid :: u32
  po_votes_unknown :: u32
  po_timestamp_ms :: u64

record LivenessAlert =
  la_chain_id :: u32
  la_txid :: hash256
  la_tx_hash_commitment :: hash256
  la_slot_index :: u64
  la_poll_history :: "PollResult list"
  la_current_confidence :: u32
  la_stall_duration_ms :: u64
  la_reporter_mn_id :: string
  la_reporter_signature :: "u8 list"

definition alert_message :: "LivenessAlert \<Rightarrow> u8 list" where
  "alert_message a = le_bytes 4 (la_chain_id a) @ la_txid a @ la_tx_hash_commitment a
     @ le_bytes 8 (la_slot_index a) @ le_bytes 4 (la_current_confidence a)
     @ le_bytes 8 (la_stall_duration_ms a) @ as_bytes (la_reporter_mn_id a)"

definition alert_verify :: "extern \<Rightarrow> LivenessAlert \<Rightarrow> pubkey \<Rightarrow> bool" where
  "alert_verify X a pk = signed_by X pk (alert_message a) (la_reporter_signature a)"

datatype FallbackDecision = FallbackAccept | FallbackReject

fun fallback_byte :: "FallbackDecision \<Rightarrow> u8" where
  "fallback_byte FallbackAccept = 1"
| "fallback_byte FallbackReject = 0"

record FinalityProposal =
  fp_chain_id :: u32
  fp_txid :: hash256
  fp_tx_hash_commitment :: hash256
  fp_slot_index :: u64
  fp_decision :: FallbackDecision
  fp_justification :: string
  fp_leader_mn_id :: string
  fp_leader_signature :: "u8 list"

definition proposal_message :: "FinalityProposal \<Rightarrow> u8 list" where
  "proposal_message f = le_bytes 4 (fp_chain_id f) @ fp_txid f @ fp_tx_hash_commitment f
     @ le_bytes 8 (fp_slot_index f) @ [fallback_byte (fp_decision f)] @ as_bytes (fp_leader_mn_id f)"

definition proposal_hash :: "extern \<Rightarrow> FinalityProposal \<Rightarrow> hash256" where
  "proposal_hash X f = sha256 X (le_bytes 4 (fp_chain_id f) @ fp_txid f @ fp_tx_hash_commitment f
     @ le_bytes 8 (fp_slot_index f) @ [fallback_byte (fp_decision f)] @ as_bytes (fp_leader_mn_id f))"

definition proposal_verify :: "extern \<Rightarrow> FinalityProposal \<Rightarrow> pubkey \<Rightarrow> bool" where
  "proposal_verify X f pk = signed_by X pk (proposal_message f) (fp_leader_signature f)"

datatype FallbackVoteDecision = Approve | FvReject

fun fallback_vote_byte :: "FallbackVoteDecision \<Rightarrow> u8" where
  "fallback_vote_byte Approve = 1"
| "fallback_vote_byte FvReject = 0"

record FallbackVote =
  fv_chain_id :: u32
  fv_proposal_hash :: hash256
  fv_vote :: FallbackVoteDecision
  fv_voter_mn_id :: string
  fv_voter_weight :: u64
  fv_voter_signature :: "u8 list"

definition fallback_vote_message :: "FallbackVote \<Rightarrow> u8 list" where
  "fallback_vote_message v = le_bytes 4 (fv_chain_id v) @ fv_proposal_hash v
     @ [fallback_vote_byte (fv_vote v)] @ as_bytes (fv_voter_mn_id v) @ le_bytes 8 (fv_voter_weight v)"

definition fallback_vote_verify :: "extern \<Rightarrow> FallbackVote \<Rightarrow> pubkey \<Rightarrow> bool" where
  "fallback_vote_verify X v pk = signed_by X pk (fallback_vote_message v) (fv_voter_signature v)"

section \<open>The proof manager\<close>

record FinalityProofManager =
  fm_votes :: "(hash256, TimeVote list) dmap"
  fm_finalized_txs :: "(hash256, VerifiableFinality) dmap"
  fm_timeproofs :: "(hash256, TimeProof) dmap"
  fm_chain_id :: u32

definition finality_manager_new :: "u32 \<Rightarrow> FinalityProofManager" where
  "finality_manager_new cid = \<lparr>fm_votes = [], fm_finalized_txs = [], fm_timeproofs = [], fm_chain_id = cid\<rparr>"

definition get_votes :: "FinalityProofManager \<Rightarrow> hash256 \<Rightarrow> TimeVote list" where
  "get_votes m tid = (case dget (fm_votes m) tid of None \<Rightarrow> [] | Some vs \<Rightarrow> vs)"

definition add_vote :: "hash256 \<Rightarrow> TimeVote \<Rightarrow> FinalityProofManager \<Rightarrow> bool \<times> FinalityProofManager" where
  "add_vote tid v m =
     (if tv_chain_id v \<noteq> fm_chain_id m then (False, m)
      else if tv_txid v \<noteq> tid then (False, m)
      else (False, m\<lparr>fm_votes := dput tid (get_votes m tid @ [v]) (fm_votes m)\<rparr>))"

definition check_finality_threshold :: "FinalityProofManager \<Rightarrow> hash256 \<Rightarrow> u64 \<Rightarrow> u64 option" where
  "check_finality_threshold m tid total_avs_weight =
     (case dget (fm_votes m) tid of
        Some vs \<Rightarrow>
          (let total_weight = sum_list (map tv_voter_weight vs)
           in if finality_threshold total_avs_weight \<le> total_weight then Some total_weight else None)
      | None \<Rightarrow> None)"

definition fm_finalize_transaction ::
    "extern \<Rightarrow> Transaction \<Rightarrow> u64 \<Rightarrow> avs_entry list \<Rightarrow> FinalityProofManager
      \<Rightarrow> (FinalityError + VerifiableFinality) \<times> FinalityProofManager" where
  "fm_finalize_transaction X tx slot avs m =
     (let f = \<lparr>vf_tx = tx, vf_slot_index = slot, vf_votes = get_votes m (txid X tx)\<rparr>
      in case vfp_validate X f (fm_chain_id m) avs of
           Inl e \<Rightarrow> (Inl e, m)
         | Inr _ \<Rightarrow> (Inr f, m\<lparr>fm_finalized_txs := dput (txid X tx) f (fm_finalized_txs m)\<rparr>))"

definition is_globally_finalized :: "FinalityProofManager \<Rightarrow> hash256 \<Rightarrow> bool" where
  "is_globally_finalized m tid = dhas (fm_finalized_txs m) tid"

definition get_finality_proof :: "FinalityProofManager \<Rightarrow> hash256 \<Rightarrow> VerifiableFinality option" where
  "get_finality_proof m tid = dget (fm_finalized_txs m) tid"

definition clear_votes :: "hash256 \<Rightarrow> FinalityProofManager \<Rightarrow> FinalityProofManager" where
  "clear_votes tid m = m\<lparr>fm_votes := dremove tid (fm_votes m)\<rparr>"

definition store_timeproof :: "TimeProof \<Rightarrow> FinalityProofManager \<Rightarrow> FinalityProofManager" where
  "store_timeproof p m = m\<lparr>fm_timeproofs := dput (tp_txid p) p (fm_timeproofs m)\<rparr>"

definition get_timeproof :: "FinalityProofManager \<Rightarrow> hash256 \<Rightarrow> TimeProof option" where
  "get_timeproof m tid = dget (fm_timeproofs m) tid"

definition has_timeproof :: "FinalityProofManager \<Rightarrow> hash256 \<Rightarrow> bool" where
  "has_timeproof m tid = dhas (fm_timeproofs m) tid"

definition remove_timeproof :: "hash256 \<Rightarrow> FinalityProofManager \<Rightarrow> TimeProof option \<times> FinalityProofManager" where
  "remove_timeproof tid m = (dget (fm_timeproofs m) tid, m\<lparr>fm_timeproofs := dremove tid (fm_timeproofs m)\<rparr>)"

definition timeproof_count :: "FinalityProofManager \<Rightarrow> nat" where
  "timeproof_count m = length (fm_timeproofs m)"

definition cleanup_old_timeproofs :: "nat \<Rightarrow> FinalityProofManager \<Rightarrow> nat \<times> FinalityProofManager" where
  "cleanup_old_timeproofs keep_count m =
     (if timeproof_count m \<le> keep_count then (0, m)
      else fold (\<lambda>k (removed, m). if dhas (fm_timeproofs m) k
                  then (Suc removed, snd (remove_timeproof k m)) else (removed, m))
             (map fst (take (timeproof_count m - keep_count) (fm_timeproofs m))) (0, m))"

end
