(* ===== verification/Finality_Props.thy ===== *)
theory Finality_Props
  imports Finality
begin

text \<open>
  What a signature on a vote binds, what an accepted proof shows, why two accepted proofs share
  voters, and what the proof manager stores.
\<close>

section \<open>What a vote signs\<close>

lemma decision_byte_inject [simp]: "decision_byte a = decision_byte b \<longleftrightarrow> a = b"
  by (cases a; cases b) auto

text \<open>
  Two votes with the same signed message agree in everything but the signature: a signature
  for one decision, slot, transaction, voter or weight is never one for another.
\<close>

theorem vote_message_binds:
  assumes "length (tv_txid v) = 32" "length (tv_txid w) = 32"
    and "length (tv_tx_hash_commitment v) = 32" "length (tv_tx_hash_commitment w) = 32"
    and "vote_message v = vote_message w"
  shows "v\<lparr>tv_signature := tv_signature w\<rparr> = w"
proof -
  have "tv_chain_id v = tv_chain_id w \<and> tv_txid v = tv_txid w \<and> tv_tx_hash_commitment v = tv_tx_hash_commitment w
      \<and> tv_slot_index v = tv_slot_index w \<and> tv_decision v = tv_decision w
      \<and> tv_voter_mn_id v = tv_voter_mn_id w \<and> tv_voter_weight v = tv_voter_weight w"
    using assms unfolding vote_message_def
    by (simp add: append_eq_split suffix_eq_split le_bytes_eq)
  then show ?thesis by simp
qed

definition vote1 :: TimeVote where
  "vote1 = \<lparr>tv_chain_id = 1, tv_txid = replicate 32 1, tv_tx_hash_commitment = replicate 32 2, tv_slot_index = 9,
     tv_decision = Accept, tv_voter_mn_id = ''10.0.0.1'', tv_voter_weight = 70, tv_signature = [1]\<rparr>"

theorem vote_message_binds_witness:
  "vote1\<lparr>tv_signature := []\<rparr>\<lparr>tv_signature := tv_signature vote1\<rparr> = vote1"
  by (rule vote_message_binds) (simp_all add: vote1_def vote_message_def)

section \<open>Accepted proofs\<close>

lemma proof_loop_iff:
  "proof_loop X gk r vs acc seen = Inr w \<longleftrightarrow>
     (\<forall>v \<in> set vs. tv_chain_id v = tv_chain_id r \<and> tv_txid v = tv_txid r
        \<and> tv_tx_hash_commitment v = tv_tx_hash_commitment r \<and> tv_slot_index v = tv_slot_index r
        \<and> tv_decision v = Accept \<and> tv_voter_mn_id v \<notin> seen
        \<and> (\<exists>pk. gk (tv_voter_mn_id v) = Some pk \<and> vote_verify X v pk))
     \<and> distinct (map tv_voter_mn_id vs) \<and> w = acc + sum_list (map tv_voter_weight vs)"
proof (induction vs arbitrary: acc seen)
  case (Cons v vs)
  show ?case
    by (cases "gk (tv_voter_mn_id v)") (auto simp: Cons.IH add.assoc image_iff dest: sym)
qed auto

text \<open>
  C19. A time proof is accepted with weight \<open>w\<close> exactly when it has votes, they agree on chain,
  transaction, commitment and slot, all accept, come from distinct voters known to the caller,
  carry their signatures, and \<open>w\<close> is the sum of the declared weights and reaches the threshold.
\<close>

theorem proof_verify_exact:
  "proof_verify X p total_avs gk = Inr w \<longleftrightarrow>
     tp_votes p \<noteq> [] \<and>
     (\<forall>v \<in> set (tp_votes p). tv_chain_id v = tv_chain_id (hd (tp_votes p)) \<and> tv_txid v = tv_txid (hd (tp_votes p))
        \<and> tv_tx_hash_commitment v = tv_tx_hash_commitment (hd (tp_votes p))
        \<and> tv_slot_index v = tv_slot_index (hd (tp_votes p)) \<and> tv_decision v = Accept
        \<and> (\<exists>pk. gk (tv_voter_mn_id v) = Some pk \<and> vote_verify X v pk)) \<and>
     distinct (map tv_voter_mn_id (tp_votes p)) \<and>
     w = sum_list (map tv_voter_weight (tp_votes p)) \<and> finality_threshold total_avs \<le> w"
proof (cases "tp_votes p")
  case (Cons r vs)
  have step: "proof_verify X p total_avs gk = Inr w \<longleftrightarrow>
      proof_loop X gk (hd (tp_votes p)) (tp_votes p) 0 {} = Inr w \<and> finality_threshold total_avs \<le> w"
    by (auto simp: proof_verify_def Cons not_less simp del: proof_loop.simps split: sum.splits if_splits)
  show ?thesis unfolding step proof_loop_iff using Cons by auto
qed (simp add: proof_verify_def)

definition proof1 :: TimeProof where
  "proof1 = \<lparr>tp_txid = replicate 32 1, tp_slot_index = 9, tp_votes = [vote1]\<rparr>"

theorem proof_verify_exact_witness:
  "proof_verify extern0 proof1 100 (\<lambda>_. Some (replicate 32 0)) = Inr 70"
proof (rule iffD2 [OF proof_verify_exact], intro conjI ballI exI [of _ "replicate 32 0"])
  show "finality_threshold 100 \<le> 70" by code_simp
  show "vote_verify extern0 v (replicate 32 0)" if "v \<in> set (tp_votes proof1)" for v
  proof -
    have "vote_verify extern0 vote1 (replicate 32 0)" by code_simp
    with that show ?thesis by (simp add: proof1_def)
  qed
qed (simp_all add: proof1_def vote1_def)

section \<open>Quorums\<close>

text \<open>Weighted voters, and sets of them that carry 67 percent of the weight.\<close>

locale quorum_system =
  fixes members :: "'v set" and weight :: "'v \<Rightarrow> nat" and quorum :: "'v set \<Rightarrow> bool"
  assumes finite_members: "finite members"
    and quorum_members: "quorum S \<Longrightarrow> S \<subseteq> members"
    and quorum_weight: "quorum S \<Longrightarrow> 67 * sum weight members \<le> 100 * sum weight S"
begin

lemma overlap:
  assumes "quorum S" "quorum T"
  shows "34 * sum weight members \<le> 100 * sum weight (S \<inter> T)"
proof -
  have fin: "finite S" "finite T"
    using assms finite_members quorum_members by (metis finite_subset)+
  have "sum weight (S \<union> T) \<le> sum weight members"
    using assms finite_members quorum_members by (intro sum_mono2) auto
  moreover have "sum weight (S \<union> T) + sum weight (S \<inter> T) = sum weight S + sum weight T"
    using fin by (simp add: sum.union_inter)
  ultimately show ?thesis using quorum_weight [OF assms(1)] quorum_weight [OF assms(2)] by linarith
qed

lemma honest_overlap:
  assumes "quorum S" "quorum T" "B \<subseteq> members" "100 * sum weight B < 34 * sum weight members"
  shows "\<exists>v \<in> S \<inter> T. v \<notin> B"
proof (rule ccontr)
  assume "\<not> ?thesis"
  then have "S \<inter> T \<subseteq> B" by auto
  then have "sum weight (S \<inter> T) \<le> sum weight B"
    using assms(3) finite_members by (intro sum_mono2) (auto intro: finite_subset)
  with overlap [OF assms(1,2)] assms(4) show False by linarith
qed

end

text \<open>
  The validators of a snapshot as voters. A set is a quorum if its weight reaches the voting
  threshold of the snapshot, whose total is the sum of the weights and small enough for the
  multiplication by 67.
\<close>

definition avs_members :: "AVSSnapshot \<Rightarrow> string set" where
  "avs_members s = {mn. contains_validator s mn}"

definition avs_weight :: "AVSSnapshot \<Rightarrow> string \<Rightarrow> nat" where
  "avs_weight s mn = (case get_validator_weight s mn of None \<Rightarrow> 0 | Some w \<Rightarrow> unat w)"

definition avs_exact :: "AVSSnapshot \<Rightarrow> bool" where
  "avs_exact s \<longleftrightarrow> unat (av_total_weight s) = sum (avs_weight s) (avs_members s) \<and> unat (av_total_weight s) * 67 < 2 ^ 64"

definition avs_quorum :: "AVSSnapshot \<Rightarrow> string set \<Rightarrow> bool" where
  "avs_quorum s S \<longleftrightarrow> avs_exact s \<and> S \<subseteq> avs_members s \<and> unat (voting_threshold s) \<le> sum (avs_weight s) S"

lemma finite_avs_members: "finite (avs_members s)"
proof (cases "av_validators_ref s")
  case None
  then have "avs_members s \<subseteq> fst ` set (av_validators s)"
    by (force simp: avs_members_def contains_validator_def list_ex_iff)
  then show ?thesis by (rule finite_subset) simp
next
  case (Some vs)
  then have "avs_members s \<subseteq> vi_address ` set vs"
    by (force simp: avs_members_def contains_validator_def list_ex_iff)
  then show ?thesis by (rule finite_subset) simp
qed

lemma threshold_exact:
  assumes "unat t * 67 < 2 ^ 64"
  shows "67 * unat t \<le> 100 * unat (div_ceil (t * 67) (100 :: u64))"
proof -
  have "unat (t * 67) = unat t * 67" using assms by (simp add: unat_word_ariths)
  then have "unat (div_ceil (t * 67) (100 :: u64)) = (unat t * 67 + 99) div 100"
    by (subst unat_div_ceil) simp_all
  then show ?thesis by linarith
qed

interpretation avs: quorum_system "avs_members s" "avs_weight s" "avs_quorum s" for s
proof
  show "finite (avs_members s)" by (rule finite_avs_members)
  show "S \<subseteq> avs_members s" if "avs_quorum s S" for S using that by (simp add: avs_quorum_def)
  show "67 * sum (avs_weight s) (avs_members s) \<le> 100 * sum (avs_weight s) S" if "avs_quorum s S" for S
    using that threshold_exact [of "av_total_weight s"]
    by (simp add: avs_quorum_def avs_exact_def voting_threshold_def)
qed

definition voters :: "TimeProof \<Rightarrow> string set" where
  "voters p = set (map tv_voter_mn_id (tp_votes p))"

definition declared_weights :: "AVSSnapshot \<Rightarrow> TimeProof \<Rightarrow> bool" where
  "declared_weights s p \<longleftrightarrow>
     (\<forall>v \<in> set (tp_votes p). get_validator_weight s (tv_voter_mn_id v) = Some (tv_voter_weight v))"

lemma find_list_ex: "(find P xs = None) = (\<not> list_ex P xs)"
  by (induction xs) auto

lemma weight_contains: "get_validator_weight s mn \<noteq> None \<longleftrightarrow> contains_validator s mn"
  by (cases "av_validators_ref s")
    (simp_all add: get_validator_weight_def contains_validator_def find_list_ex del: not_None_eq)

lemma proof_is_quorum:
  assumes s: "avs_exact s" and d: "declared_weights s p"
    and v: "proof_verify X p (av_total_weight s) gk = Inr w"
  shows "avs_quorum s (voters p)"
proof -
  let ?vs = "tp_votes p"
  from v have dist: "distinct (map tv_voter_mn_id ?vs)" and w: "w = sum_list (map tv_voter_weight ?vs)"
    and thr: "finality_threshold (av_total_weight s) \<le> w"
    by (cases ?vs; auto simp: proof_verify_def not_less proof_loop_iff simp del: proof_loop.simps
        split: sum.splits if_splits)+
  have sub: "voters p \<subseteq> avs_members s"
    using d weight_contains unfolding voters_def avs_members_def declared_weights_def by fastforce
  have "map unat (map tv_voter_weight ?vs) = map (avs_weight s) (map tv_voter_mn_id ?vs)"
    using d by (simp add: declared_weights_def avs_weight_def)
  then have sum: "sum_list (map unat (map tv_voter_weight ?vs)) = sum (avs_weight s) (voters p)"
    using dist by (simp add: voters_def sum_list_distinct_conv_sum_set flip: map_map)
  have "sum (avs_weight s) (voters p) \<le> sum (avs_weight s) (avs_members s)"
    using sub finite_avs_members by (intro sum_mono2) auto
  then have "sum (avs_weight s) (voters p) < 2 ^ 64" using s by (simp add: avs_exact_def)
  then have "unat w = sum (avs_weight s) (voters p)"
    using unat_sum_list [of "map tv_voter_weight ?vs"] sum w by simp
  then show ?thesis
    using s sub thr by (simp add: avs_quorum_def voting_threshold_def finality_threshold_def word_le_nat_alt)
qed

text \<open>
  C6. Two time proofs accepted against one snapshot, whether for the same transaction or for
  conflicting ones, have voters in common, and these carry at least 34 percent of the weight of
  the snapshot: as long as less than that is Byzantine, a correct validator accepted both. The
  votes must declare the weights of the snapshot, which \<open>verify\<close> does not check itself.
\<close>

theorem accepted_proofs_overlap:
  assumes "avs_exact s" "declared_weights s p" "declared_weights s q"
    and "proof_verify X p (av_total_weight s) gk = Inr w" "proof_verify X q (av_total_weight s) gk = Inr u"
  shows "34 * sum (avs_weight s) (avs_members s) \<le> 100 * sum (avs_weight s) (voters p \<inter> voters q)
    \<and> (\<forall>B \<subseteq> avs_members s. 100 * sum (avs_weight s) B < 34 * sum (avs_weight s) (avs_members s) \<longrightarrow>
         (\<exists>v \<in> voters p \<inter> voters q. v \<notin> B))"
  using avs.overlap avs.honest_overlap proof_is_quorum [OF assms(1,2,4)] proof_is_quorum [OF assms(1,3,5)] by blast

definition avs1 :: AVSSnapshot where
  "avs1 = avs_new 0 9 [(''10.0.0.1'', 70), (''10.0.0.2'', 30)]"

definition proof2 :: TimeProof where
  "proof2 = \<lparr>tp_txid = replicate 32 5, tp_slot_index = 9,
     tp_votes = [vote1\<lparr>tv_txid := replicate 32 5\<rparr>,
                 vote1\<lparr>tv_txid := replicate 32 5, tv_voter_mn_id := ''10.0.0.2'', tv_voter_weight := 30\<rparr>]\<rparr>"

lemma avs1_members: "avs_members avs1 = {''10.0.0.1'', ''10.0.0.2''}"
  by (auto simp: avs_members_def contains_validator_def avs1_def avs_new_def)

theorem accepted_proofs_overlap_witness:
  "34 * sum (avs_weight avs1) (avs_members avs1) \<le> 100 * sum (avs_weight avs1) (voters proof1 \<inter> voters proof2)
    \<and> (\<exists>v. v \<in> voters proof1 \<inter> voters proof2 \<and> v \<noteq> ''10.0.0.2'')"
proof -
  have avs: "avs_exact avs1"
    by (simp add: avs_exact_def avs1_members avs_weight_def get_validator_weight_def)
      (simp add: avs1_def avs_new_def)
  have weights: "declared_weights avs1 proof1" "declared_weights avs1 proof2" by code_simp+
  have acc: "proof_verify extern0 proof1 (av_total_weight avs1) (\<lambda>_. Some (replicate 32 0)) = Inr 70"
    "proof_verify extern0 proof2 (av_total_weight avs1) (\<lambda>_. Some (replicate 32 0)) = Inr 100" by code_simp+
  have small: "100 * sum (avs_weight avs1) {''10.0.0.2''} < 34 * sum (avs_weight avs1) (avs_members avs1)"
    unfolding avs1_members by (simp add: avs_weight_def get_validator_weight_def) (simp add: avs1_def avs_new_def)
  show ?thesis
    using accepted_proofs_overlap [OF avs weights acc] small by (auto simp: avs1_members)
qed

text \<open>
  The two representations of a snapshot, by reference to the validators and by a list of
  names and weights, answer every query alike, and a name has a weight exactly if it is contained.
\<close>

theorem snapshot_representations_agree:
  "let r = avs_new_with_ref now slot vs; l = avs_new now slot (map (\<lambda>v. (vi_address v, vi_weight v)) vs) in
     contains_validator r mn = contains_validator l mn \<and> get_validator_weight r mn = get_validator_weight l mn \<and>
     voting_threshold r = voting_threshold l \<and> (get_validator_weight r mn \<noteq> None \<longleftrightarrow> contains_validator r mn)"
proof -
  have "map_option vi_weight (find (\<lambda>v. vi_address v = mn) vs)
      = map_option snd (find (\<lambda>(i, _). i = mn) (map (\<lambda>v. (vi_address v, vi_weight v)) vs))"
    by (induction vs) auto
  then show ?thesis
    unfolding Let_def by (intro conjI weight_contains)
      (simp_all add: avs_new_with_ref_def avs_new_def contains_validator_def get_validator_weight_def
        voting_threshold_def list_ex_iff comp_def)
qed

section \<open>The proof manager\<close>

datatype fm_call =
    FmAddVote hash256 TimeVote
  | FmFinalize Transaction u64 "avs_entry list"
  | FmClearVotes hash256
  | FmStore TimeProof
  | FmRemove hash256
  | FmCleanup nat

fun exec_fm :: "extern \<Rightarrow> fm_call \<Rightarrow> FinalityProofManager \<Rightarrow> FinalityProofManager" where
  "exec_fm X (FmAddVote tid v) m = snd (add_vote tid v m)"
| "exec_fm X (FmFinalize tx slot avs) m = snd (fm_finalize_transaction X tx slot avs m)"
| "exec_fm X (FmClearVotes tid) m = clear_votes tid m"
| "exec_fm X (FmStore p) m = store_timeproof p m"
| "exec_fm X (FmRemove tid) m = snd (remove_timeproof tid m)"
| "exec_fm X (FmCleanup n) m = snd (cleanup_old_timeproofs n m)"

lemma vfp_loop_iff:
  "vfp_loop X cid avs tx slot vs tot seen = Inr w \<longleftrightarrow>
     (\<forall>v \<in> set vs. tv_chain_id v = cid \<and> tv_txid v = txid X tx
        \<and> (\<exists>bytes. tx_bincode X tx = Some bytes \<and> tv_tx_hash_commitment v = sha256 X bytes)
        \<and> tv_slot_index v = slot \<and> tv_voter_mn_id v \<notin> seen
        \<and> (\<exists>i u pk. find_entry avs (tv_voter_mn_id v) = Some (i, u, pk) \<and> vote_verify X v pk))
     \<and> distinct (map tv_voter_mn_id vs)
     \<and> w = tot + sum_list (map (\<lambda>v. fst (snd (the (find_entry avs (tv_voter_mn_id v))))) vs)"
proof (induction vs arbitrary: tot seen cid slot w)
  case (Cons v vs)
  show ?case
    by (cases "tx_bincode X tx"; cases "find_entry avs (tv_voter_mn_id v)")
      (auto simp: Cons.IH add.assoc image_iff split: if_splits, metis)
qed auto

definition proof_sound :: "extern \<Rightarrow> u32 \<Rightarrow> hash256 \<Rightarrow> VerifiableFinality \<Rightarrow> bool" where
  "proof_sound X cid tid f \<longleftrightarrow> txid X (vf_tx f) = tid \<and> distinct (map tv_voter_mn_id (vf_votes f)) \<and>
     (\<exists>avs. \<forall>v \<in> set (vf_votes f). tv_chain_id v = cid \<and> tv_txid v = tid \<and> tv_slot_index v = vf_slot_index f \<and>
        (\<exists>i w pk. find_entry avs (tv_voter_mn_id v) = Some (i, w, pk) \<and> vote_verify X v pk))"

lemma cleanup_other_fields:
  "fm_finalized_txs (snd (cleanup_old_timeproofs n m)) = fm_finalized_txs m \<and>
   fm_votes (snd (cleanup_old_timeproofs n m)) = fm_votes m \<and> fm_chain_id (snd (cleanup_old_timeproofs n m)) = fm_chain_id m"
proof -
  have "fm_finalized_txs (snd (fold (\<lambda>k (removed, m). if dhas (fm_timeproofs m) k
          then (Suc removed, snd (remove_timeproof k m)) else (removed, m)) ks a)) = fm_finalized_txs (snd a) \<and>
      fm_votes (snd (fold (\<lambda>k (removed, m). if dhas (fm_timeproofs m) k
          then (Suc removed, snd (remove_timeproof k m)) else (removed, m)) ks a)) = fm_votes (snd a) \<and>
      fm_chain_id (snd (fold (\<lambda>k (removed, m). if dhas (fm_timeproofs m) k
          then (Suc removed, snd (remove_timeproof k m)) else (removed, m)) ks a)) = fm_chain_id (snd a)" for ks a
    by (induction ks arbitrary: a) (auto simp: remove_timeproof_def split: prod.splits)
  then show ?thesis by (simp add: cleanup_old_timeproofs_def)
qed

text \<open>
  C21. Whatever is done to the proof manager, every finality proof it stores is filed under the id
  of its transaction and holds votes of distinct validators of one snapshot, for that
  transaction, chain and slot, each with the validator's signature.
\<close>

theorem stored_proofs_sound:
  "get_finality_proof (fold (exec_fm X) cs (finality_manager_new cid)) tid = Some f \<longrightarrow> proof_sound X cid tid f"
proof -
  let ?I = "\<lambda>m. fm_chain_id m = cid \<and> (\<forall>tid f. dget (fm_finalized_txs m) tid = Some f \<longrightarrow> proof_sound X cid tid f)"
  have step: "?I (exec_fm X c m)" if m: "?I m" for c m
  proof (cases c)
    case (FmFinalize tx slot avs)
    let ?f = "\<lparr>vf_tx = tx, vf_slot_index = slot, vf_votes = get_votes m (txid X tx)\<rparr>"
    have "proof_sound X cid (txid X tx) ?f" if "vfp_validate X ?f cid avs = Inr w" for w
      unfolding proof_sound_def using that
      by (intro conjI exI [of _ avs]) (auto simp: vfp_validate_def vfp_loop_iff)
    then show ?thesis
      using m by (auto simp: FmFinalize fm_finalize_transaction_def Let_def split: sum.splits)
  qed (use m cleanup_other_fields in \<open>auto simp: add_vote_def clear_votes_def store_timeproof_def remove_timeproof_def\<close>)
  have "?I (fold (exec_fm X) cs m)" if "?I m" for m
    using that
  proof (induction cs arbitrary: m)
    case (Cons c cs)
    from Cons.IH [OF step [OF Cons.prems]] show ?case by simp
  qed simp
  from this [of "finality_manager_new cid"] show ?thesis
    by (simp add: finality_manager_new_def get_finality_proof_def)
qed

definition tx1 :: Transaction where
  "tx1 = \<lparr>tx_version = 1, tx_inputs = [], tx_outputs = [\<lparr>out_value = 5, out_script_pubkey = []\<rparr>],
     tx_lock_time = 0, tx_timestamp = 0, tx_special_data = None, tx_encrypted_memo = None\<rparr>"

definition calls1 :: "fm_call list" where
  "calls1 = [FmAddVote (replicate 32 7) (vote1\<lparr>tv_txid := replicate 32 7, tv_tx_hash_commitment := replicate 32 7\<rparr>),
     FmFinalize tx1 9 [(''10.0.0.1'', 70, replicate 32 0)]]"

theorem stored_proofs_sound_witness:
  "\<exists>f. get_finality_proof (fold (exec_fm extern0) calls1 (finality_manager_new 1)) (replicate 32 7) = Some f \<and>
     proof_sound extern0 1 (replicate 32 7) f"
proof -
  have "is_globally_finalized (fold (exec_fm extern0) calls1 (finality_manager_new 1)) (replicate 32 7)"
    by code_simp
  then obtain f where f: "get_finality_proof (fold (exec_fm extern0) calls1 (finality_manager_new 1)) (replicate 32 7) = Some f"
    by (auto simp: is_globally_finalized_def get_finality_proof_def dhas_def)
  with stored_proofs_sound [of extern0 calls1 1 "replicate 32 7" f] show ?thesis by blast
qed

section \<open>Two observations\<close>

text \<open>
  A proof assembled from votes that commit to the transaction with \<open>calculate_tx_commitment\<close> is
  refused, since \<open>validate\<close> compares with the hash of the binary encoding.
\<close>

lemma own_commitments_refused:
  assumes "vf_votes f = v # vs" "tv_tx_hash_commitment v = calculate_tx_commitment X (vf_tx f)"
    and "tx_bincode X (vf_tx f) = Some bytes" "txid X (vf_tx f) \<noteq> sha256 X bytes"
  shows "\<exists>e. vfp_validate X f cid avs = Inl e"
  using assms by (auto simp: vfp_validate_def calculate_tx_commitment_def)

text \<open>A proof without a single vote passes \<open>validate\<close>, and the manager stores it.\<close>

lemma empty_proof_validates:
  "vf_votes f = [] \<Longrightarrow> vfp_validate X f cid avs = Inr 0"
  "fst (fm_finalize_transaction X tx slot avs (finality_manager_new cid)) =
     Inr \<lparr>vf_tx = tx, vf_slot_index = slot, vf_votes = []\<rparr>"
  by (simp_all add: vfp_validate_def fm_finalize_transaction_def finality_manager_new_def get_votes_def Let_def)

end
