(* ===== verification/Block_Types.thy ===== *)
theory Block_Types
  imports Addresses
begin

text \<open>
  Blocks (\<open>src/block/types.rs\<close>): the header and its hash, the Merkle root of the transactions, the
  producer's signature, and the verifiable random function a proposer draws its score with
  (\<open>src/block/vrf.rs\<close>, \<open>src/crypto/ecvrf.rs\<close>). A secret key is its 32 bytes; a panic has no
  counterpart here, since every index below is in range.
\<close>

section \<open>Merkle roots\<close>

text \<open>One round of the loop: the last hash of an odd level is doubled, then pairs are hashed.\<close>

definition pad_even :: "'a list \<Rightarrow> 'a list" where
  "pad_even hs = (if odd (length hs) then hs @ [last hs] else hs)"

fun hash_pairs :: "extern \<Rightarrow> hash256 list \<Rightarrow> hash256 list" where
  "hash_pairs X (a # b # hs) = sha256 X (a @ b) # hash_pairs X hs"
| "hash_pairs X hs = []"

lemma length_hash_pairs [simp]: "length (hash_pairs X hs) = length hs div 2"
  by (induction X hs rule: hash_pairs.induct) auto

lemma length_pad_even: "length (pad_even hs) = length hs + length hs mod 2"
  by (simp add: pad_even_def odd_iff_mod_2_eq_one)

function merkle_loop :: "extern \<Rightarrow> hash256 list \<Rightarrow> hash256 list" where
  "merkle_loop X hs = (if 1 < length hs then merkle_loop X (hash_pairs X (pad_even hs)) else hs)"
  by pat_completeness auto
termination
proof (relation "measure (\<lambda>(X, hs). length hs)")
  fix X :: extern and hs :: "hash256 list"
  assume "1 < length hs"
  then show "((X, hash_pairs X (pad_even hs)), X, hs) \<in> measure (\<lambda>(X, hs). length hs)"
    by (simp add: length_pad_even)
qed simp

declare merkle_loop.simps [simp del]

definition build_merkle_root :: "extern \<Rightarrow> hash256 list \<Rightarrow> hash256" where
  "build_merkle_root X hs = (if hs = [] then zero_hash else hd (merkle_loop X hs))"

definition calculate_merkle_root :: "extern \<Rightarrow> Transaction list \<Rightarrow> hash256" where
  "calculate_merkle_root X txs = build_merkle_root X (map (txid X) txs)"

definition calculate_merkle_root_legacy :: "extern \<Rightarrow> Transaction list \<Rightarrow> hash256" where
  "calculate_merkle_root_legacy X txs = build_merkle_root X (map (\<lambda>tx. sha256 X (tx_json X tx)) txs)"

section \<open>Blocks\<close>

record WitnessRecord =
  wr_witness_address :: string
  wr_witness_pubkey :: string
  wr_witness_timestamp :: i64
  wr_signature :: string

record TimeAttestation =
  ta_masternode_address :: string
  ta_sequence_number :: u64
  ta_heartbeat_timestamp :: i64
  ta_masternode_pubkey :: string
  ta_heartbeat_signature :: string
  ta_witnesses :: "WitnessRecord list"

record MasternodeTierCounts =
  tc_free :: u32
  tc_bronze :: u32
  tc_silver :: u32
  tc_gold :: u32

definition tier_counts_default :: MasternodeTierCounts where
  "tier_counts_default = \<lparr>tc_free = 0, tc_bronze = 0, tc_silver = 0, tc_gold = 0\<rparr>"

definition tier_counts_total :: "MasternodeTierCounts \<Rightarrow> u32" where
  "tier_counts_total c = tc_free c + tc_bronze c + tc_silver c + tc_gold c"

record BlockHeader =
  bh_version :: u32
  bh_height :: u64
  bh_previous_hash :: hash256
  bh_merkle_root :: hash256
  bh_timestamp :: i64
  bh_block_reward :: u64
  bh_leader :: string
  bh_attestation_root :: hash256
  bh_masternode_tiers :: MasternodeTierCounts
  bh_vrf_proof :: "u8 list"
  bh_vrf_output :: hash256
  bh_vrf_score :: u64
  bh_active_masternodes_bitmap :: "u8 list"
  bh_liveness_recovery :: "bool option"
  bh_producer_signature :: "u8 list"
  bh_total_fees :: u64
  bh_treasury_balance :: u64

text \<open>\<open>BlockHeader::default()\<close>.\<close>

definition header_default :: BlockHeader where
  "header_default = \<lparr>bh_version = 0, bh_height = 0, bh_previous_hash = zero_hash, bh_merkle_root = zero_hash,
     bh_timestamp = 0, bh_block_reward = 0, bh_leader = [], bh_attestation_root = zero_hash,
     bh_masternode_tiers = tier_counts_default, bh_vrf_proof = [], bh_vrf_output = zero_hash, bh_vrf_score = 0,
     bh_active_masternodes_bitmap = [], bh_liveness_recovery = None, bh_producer_signature = [],
     bh_total_fees = 0, bh_treasury_balance = 0\<rparr>"

record Block =
  blk_header :: BlockHeader
  blk_transactions :: "Transaction list"
  blk_masternode_rewards :: "(string \<times> u64) list"
  blk_time_attestations :: "TimeAttestation list"
  blk_consensus_participants_bitmap :: "u8 list"
  blk_liveness_recovery :: "bool option"

definition header_bytes :: "BlockHeader \<Rightarrow> u8 list" where
  "header_bytes h = le_bytes 4 (bh_version h) @ le_bytes 8 (bh_height h) @ bh_previous_hash h
     @ bh_merkle_root h @ le_bytes 8 (bh_timestamp h) @ le_bytes 8 (bh_block_reward h)
     @ as_bytes (bh_leader h) @ bh_vrf_output h @ le_bytes 8 (bh_vrf_score h)
     @ bh_active_masternodes_bitmap h @ le_bytes 8 (bh_treasury_balance h)"

definition block_hash :: "extern \<Rightarrow> Block \<Rightarrow> hash256" where
  "block_hash X b = blake3 X (header_bytes (blk_header b))"

definition block_sign :: "extern \<Rightarrow> u8 list \<Rightarrow> Block \<Rightarrow> Block" where
  "block_sign X sk b =
     b\<lparr>blk_header := (blk_header b)\<lparr>bh_producer_signature := ed_sign X sk (block_hash X b)\<rparr>\<rparr>"

datatype SignatureError = BadSignatureLength nat | SignatureRejected

definition block_verify_signature :: "extern \<Rightarrow> Block \<Rightarrow> pubkey \<Rightarrow> SignatureError + unit" where
  "block_verify_signature X b pk =
     (let sg = bh_producer_signature (blk_header b)
      in if sg = [] then Inr ()
         else if length sg \<noteq> 64 then Inl (BadSignatureLength (length sg))
         else if ed_verify_strict X pk (block_hash X b) sg then Inr ()
         else Inl SignatureRejected)"

definition attested_masternode_count :: "Block \<Rightarrow> nat" where
  "attested_masternode_count b = 0"

definition has_attestation_for :: "Block \<Rightarrow> string \<Rightarrow> bool" where
  "has_attestation_for b address = False"

section \<open>The verifiable random function\<close>

datatype ECVRFError = InvalidProof | VerificationFailed | InvalidKey

definition vrf_signing_message :: "u8 list \<Rightarrow> u8 list \<Rightarrow> u8 list" where
  "vrf_signing_message out input = as_bytes ''ECVRF-sign'' @ out @ input"

definition ecvrf_evaluate :: "extern \<Rightarrow> u8 list \<Rightarrow> u8 list \<Rightarrow> ECVRFError + (hash256 \<times> u8 list)" where
  "ecvrf_evaluate X sk input =
     (let out = take 32 (sha512 X (as_bytes ''ECVRF-Edwards25519-SHA512-TAI'' @ sk @ input))
      in Inr (out, out @ take 32 (sha512 X input) @ take 16 (ed_sign X sk (vrf_signing_message out input))))"

definition ecvrf_verify :: "extern \<Rightarrow> pubkey \<Rightarrow> u8 list \<Rightarrow> hash256 \<Rightarrow> u8 list \<Rightarrow> ECVRFError + unit" where
  "ecvrf_verify X pk input out proof =
     (if take 32 (drop 32 proof) \<noteq> take 32 (sha512 X input) then Inl InvalidProof else Inr ())"

definition proof_to_hash :: "extern \<Rightarrow> u8 list \<Rightarrow> hash256" where
  "proof_to_hash X proof = take 32 (sha512 X (as_bytes ''ECVRF-proof-to-hash'' @ proof))"

text \<open>\<open>ECVRFOutput::as_u64\<close>, which \<open>vrf_output_to_score\<close> calls: the first eight bytes, little-endian.\<close>

definition vrf_output_to_score :: "hash256 \<Rightarrow> u64" where
  "vrf_output_to_score out = of_le (take 8 out)"

definition create_vrf_input :: "extern \<Rightarrow> u64 \<Rightarrow> hash256 \<Rightarrow> u8 list" where
  "create_vrf_input X height prev = sha256 X (as_bytes ''TIMECOIN_VRF_V2'' @ le_bytes 8 height @ prev)"

text \<open>\<open>u64::from_be_bytes\<close> reads the bytes in the other order.\<close>

definition fallback_vrf :: "extern \<Rightarrow> u64 \<Rightarrow> hash256 \<Rightarrow> u8 list \<times> hash256 \<times> u64" where
  "fallback_vrf X height prev =
     (let hash = sha256 X (as_bytes ''TIMECOIN_VRF_FALLBACK_V2'' @ le_bytes 8 height @ prev)
      in ([], hash, of_le (rev (take 8 hash))))"

definition generate_block_vrf :: "extern \<Rightarrow> u8 list \<Rightarrow> u64 \<Rightarrow> hash256 \<Rightarrow> u8 list \<times> hash256 \<times> u64" where
  "generate_block_vrf X sk height prev =
     (case ecvrf_evaluate X sk (create_vrf_input X height prev) of
        Inr (out, proof) \<Rightarrow> (proof, out, vrf_output_to_score out)
      | Inl _ \<Rightarrow> fallback_vrf X height prev)"

datatype VrfError = BadProofLength nat | VrfRejected ECVRFError

definition verify_block_vrf ::
    "extern \<Rightarrow> pubkey \<Rightarrow> u64 \<Rightarrow> hash256 \<Rightarrow> u8 list \<Rightarrow> hash256 \<Rightarrow> VrfError + unit" where
  "verify_block_vrf X pk height prev proof out =
     (if proof = [] then Inr ()
      else if length proof \<noteq> 80 then Inl (BadProofLength (length proof))
      else (case ecvrf_verify X pk (create_vrf_input X height prev) out proof of
              Inl e \<Rightarrow> Inl (VrfRejected e) | Inr _ \<Rightarrow> Inr ()))"

definition add_vrf :: "extern \<Rightarrow> u8 list \<Rightarrow> Block \<Rightarrow> Block" where
  "add_vrf X sk b =
     (let h = blk_header b; (proof, out, score) = generate_block_vrf X sk (bh_height h) (bh_previous_hash h)
      in b\<lparr>blk_header := h\<lparr>bh_vrf_proof := proof, bh_vrf_output := out, bh_vrf_score := score\<rparr>\<rparr>)"

definition verify_vrf :: "extern \<Rightarrow> Block \<Rightarrow> pubkey \<Rightarrow> VrfError + unit" where
  "verify_vrf X b pk =
     (let h = blk_header b
      in verify_block_vrf X pk (bh_height h) (bh_previous_hash h) (bh_vrf_proof h) (bh_vrf_output h))"

text \<open>The products of \<open>vrf_check_proposer_eligible\<close> are taken in 128 bits.\<close>

type_synonym u128 = "128 word"

definition vrf_check_proposer_eligible :: "u64 \<Rightarrow> u64 \<Rightarrow> u64 \<Rightarrow> bool" where
  "vrf_check_proposer_eligible score node_weight total_weight =
     (if total_weight = 0 \<or> node_weight = 0 then False
      else (let target_proposers = 1 :: u128;
                threshold = min ((ucast node_weight * ucast (- 1 :: u64) * target_proposers) div ucast total_weight)
                                (ucast (- 1 :: u64))
            in (ucast score :: u128) < threshold))"

end
