(* ===== verification/Merkle.thy ===== *)
theory Merkle
  imports Block_Types
begin

text \<open>
  What a Merkle root binds. The hashes the loop of \<open>build_merkle_root\<close> computes are those of a
  binary tree; two lists of distinct hashes with the same root are the same list, unless the
  computation of the two roots runs into a collision or a leaf is also an inner hash.
\<close>

section \<open>Trees\<close>

datatype 'a mtree = Leaf 'a | Node "'a mtree" "'a mtree"

fun pair_trees :: "'a mtree list \<Rightarrow> 'a mtree list" where
  "pair_trees (a # b # ts) = Node a b # pair_trees ts"
| "pair_trees ts = []"

lemma length_pair_trees [simp]: "length (pair_trees ts) = length ts div 2"
  by (induction ts rule: pair_trees.induct) auto

function tree_loop :: "'a mtree list \<Rightarrow> 'a mtree list" where
  "tree_loop ts = (if 1 < length ts then tree_loop (pair_trees (pad_even ts)) else ts)"
  by pat_completeness auto
termination
  by (relation "measure length") (simp_all add: length_pad_even)

declare tree_loop.simps [simp del]

fun tree_hash :: "extern \<Rightarrow> hash256 mtree \<Rightarrow> hash256" where
  "tree_hash X (Leaf h) = h"
| "tree_hash X (Node a b) = sha256 X (tree_hash X a @ tree_hash X b)"

fun tree_inputs :: "extern \<Rightarrow> hash256 mtree \<Rightarrow> u8 list set" where
  "tree_inputs X (Leaf h) = {}"
| "tree_inputs X (Node a b) = insert (tree_hash X a @ tree_hash X b) (tree_inputs X a \<union> tree_inputs X b)"

fun leaves :: "'a mtree \<Rightarrow> 'a set" where
  "leaves (Leaf h) = {h}"
| "leaves (Node a b) = leaves a \<union> leaves b"

text \<open>The strings the computation of a root hashes.\<close>

definition merkle_tree :: "hash256 list \<Rightarrow> hash256 mtree" where
  "merkle_tree hs = hd (tree_loop (map Leaf hs))"

definition merkle_inputs :: "extern \<Rightarrow> hash256 list \<Rightarrow> u8 list set" where
  "merkle_inputs X hs = (if hs = [] then {} else tree_inputs X (merkle_tree hs))"

lemma pad_even_map: "ts \<noteq> [] \<Longrightarrow> pad_even (map f ts) = map f (pad_even ts)"
  by (simp add: pad_even_def last_map)

lemma hash_pairs_map: "hash_pairs X (map (tree_hash X) ts) = map (tree_hash X) (pair_trees ts)"
  by (induction ts rule: pair_trees.induct) auto

lemma merkle_loop_tree: "merkle_loop X (map (tree_hash X) ts) = map (tree_hash X) (tree_loop ts)"
proof (induction ts rule: tree_loop.induct)
  case (1 ts)
  show ?case
  proof (cases "1 < length ts")
    case True
    then have "ts \<noteq> []" by auto
    with True 1 [OF True] show ?thesis
      by (simp add: merkle_loop.simps [of X "map (tree_hash X) ts"] tree_loop.simps [of ts] pad_even_map hash_pairs_map)
  qed (simp add: merkle_loop.simps tree_loop.simps)
qed

lemma tree_loop_ne: "ts \<noteq> [] \<Longrightarrow> tree_loop ts \<noteq> []"
proof (induction ts rule: tree_loop.induct)
  case (1 ts)
  have "pair_trees (pad_even ts) \<noteq> []" if "1 < length ts"
    using that by (auto simp: length_pad_even simp flip: length_0_conv)
  with 1 show ?case by (simp add: tree_loop.simps [of ts])
qed

lemma root_is_tree_hash: "hs \<noteq> [] \<Longrightarrow> build_merkle_root X hs = tree_hash X (merkle_tree hs)"
  using merkle_loop_tree [of X "map Leaf hs"] tree_loop_ne [of "map Leaf hs"]
  by (simp add: build_merkle_root_def merkle_tree_def comp_def hd_map)

section \<open>Trees are determined by their hash\<close>

fun inner_ok :: "nat \<Rightarrow> extern \<Rightarrow> hash256 mtree \<Rightarrow> bool" where
  "inner_ok n X (Leaf h) \<longleftrightarrow> length h = n"
| "inner_ok n X (Node a b) \<longleftrightarrow> inner_ok n X a \<and> inner_ok n X b"

lemma tree_hash_length:
  "inner_ok n X t \<Longrightarrow> (\<And>d. length (sha256 X d) = n) \<Longrightarrow> length (tree_hash X t) = n"
  by (cases t) auto

lemma tree_hash_inject:
  assumes "inner_ok n X t" "inner_ok n X u" and "\<And>d. length (sha256 X d) = n"
    and "inj_on (sha256 X) S" "tree_inputs X t \<subseteq> S" "tree_inputs X u \<subseteq> S"
    and "(leaves t \<union> leaves u) \<inter> sha256 X ` S = {}"
    and "tree_hash X t = tree_hash X u"
  shows "t = u"
  using assms
proof (induction t arbitrary: u)
  case (Leaf h)
  then show ?case by (cases u) auto
next
  case (Node a b)
  then obtain c d where u: "u = Node c d" by (cases u) auto
  have len: "length (tree_hash X a) = length (tree_hash X c)"
    using Node.prems u by (simp add: tree_hash_length [where n = n])
  have "tree_hash X a @ tree_hash X b = tree_hash X c @ tree_hash X d"
    using Node.prems(4-) unfolding u by (auto dest!: inj_onD)
  then have "tree_hash X a = tree_hash X c" "tree_hash X b = tree_hash X d" using len by auto
  with Node.prems u show ?case by (auto intro!: Node.IH)
qed

section \<open>Lists are determined by their tree\<close>

lemma pair_trees_inject:
  "even (length ts) \<Longrightarrow> even (length us) \<Longrightarrow> pair_trees ts = pair_trees us \<Longrightarrow> ts = us"
proof (induction ts arbitrary: us rule: pair_trees.induct)
  case (1 a b ts)
  then obtain c d us' where "us = c # d # us'" by (cases us rule: pair_trees.cases) auto
  with 1 show ?case by auto
next
  case "2_1"
  then show ?case by (cases us rule: pair_trees.cases) auto
qed auto

lemma pad_even_Cons [simp]: "pad_even (a # b # ts) = a # b # pad_even ts"
  by (auto simp: pad_even_def)

lemma even_pad: "even (length (pad_even ts))"
  by (simp add: pad_even_def)

lemma pad_even_inject:
  assumes "distinct ts" "distinct us" "ts \<noteq> []" "us \<noteq> []" "pad_even ts = pad_even us"
  shows "ts = us"
proof -
  have "us \<noteq> ts @ [last ts]" "ts \<noteq> us @ [last us]"
    using assms(1-4) by (auto simp: distinct_append)
  then show ?thesis using assms(5) by (auto simp: pad_even_def split: if_splits)
qed

lemma set_pair_trees: "Node a b \<in> set (pair_trees ts) \<Longrightarrow> a \<in> set ts"
  by (induction ts rule: pair_trees.induct) auto

lemma set_pad_even [simp]: "set (pad_even ts) = set ts"
proof (cases "ts = []")
  case False
  then have "last ts \<in> set ts" by simp
  then show ?thesis by (auto simp: pad_even_def)
qed (simp add: pad_even_def)

lemma distinct_pair_trees: "distinct ts \<Longrightarrow> distinct (pair_trees (pad_even ts))"
proof (induction ts rule: pair_trees.induct)
  case (1 a b ts)
  have "Node a b \<notin> set (pair_trees (pad_even ts))"
    using 1(2) set_pair_trees [of a b "pad_even ts"] by auto
  with 1 show ?case by simp
qed (simp_all add: pad_even_def)

fun hgt :: "'a mtree \<Rightarrow> nat" where
  "hgt (Leaf h) = 0"
| "hgt (Node a b) = Suc (hgt a)"

lemma hgt_pair_trees:
  "\<forall>t \<in> set ts. hgt t = n \<Longrightarrow> \<forall>t \<in> set (pair_trees (pad_even ts)). hgt t = Suc n"
  by (induction ts rule: pair_trees.induct) (auto simp: pad_even_def)

lemma level_ne: "1 < length ts \<Longrightarrow> pair_trees (pad_even ts) \<noteq> []"
  by (auto simp: length_pad_even simp flip: length_0_conv)

lemma hgt_loop: "\<forall>t \<in> set ts. hgt t = n \<Longrightarrow> ts \<noteq> [] \<Longrightarrow> n \<le> hgt (hd (tree_loop ts))"
proof (induction ts arbitrary: n rule: tree_loop.induct)
  case (1 ts)
  then show ?case
  proof (cases "1 < length ts")
    case True
    from 1(1) [OF True hgt_pair_trees [OF 1(2)] level_ne [OF True]] True show ?thesis
      by (simp add: tree_loop.simps [of ts])
  qed (simp add: tree_loop.simps [of ts])
qed

lemma hgt_loop_more:
  assumes "\<forall>t \<in> set ts. hgt t = n" "1 < length ts"
  shows "n < hgt (hd (tree_loop ts))"
  using hgt_loop [OF hgt_pair_trees [OF assms(1)] level_ne [OF assms(2)]] assms(2)
  by (simp add: tree_loop.simps [of ts])

lemma singleton_or_more: "ts \<noteq> [] \<Longrightarrow> \<not> 1 < length ts \<Longrightarrow> \<exists>t. ts = [t]"
  by (cases ts) auto

lemma hgt_loop_iff:
  assumes "\<forall>t \<in> set ts. hgt t = n" "ts \<noteq> []"
  shows "n < hgt (hd (tree_loop ts)) \<longleftrightarrow> 1 < length ts"
proof (cases "1 < length ts")
  case False
  with assms singleton_or_more [of ts] obtain t where "ts = [t]" "hgt t = n" by auto
  then show ?thesis by (simp add: tree_loop.simps)
qed (use hgt_loop_more [OF assms(1)] in blast)

lemma tree_loop_inject:
  "distinct ts \<Longrightarrow> distinct us \<Longrightarrow> ts \<noteq> [] \<Longrightarrow> us \<noteq> [] \<Longrightarrow> \<forall>t \<in> set ts. hgt t = n \<Longrightarrow> \<forall>t \<in> set us. hgt t = n
    \<Longrightarrow> hd (tree_loop ts) = hd (tree_loop us) \<Longrightarrow> ts = us"
proof (induction ts arbitrary: us n rule: tree_loop.induct)
  case (1 ts)
  have same: "1 < length ts \<longleftrightarrow> 1 < length us"
    using hgt_loop_iff [OF 1(6,4)] hgt_loop_iff [OF 1(7,5)] 1(8) by simp
  show ?case
  proof (cases "1 < length ts")
    case True
    let ?l = "\<lambda>ts. pair_trees (pad_even ts)"
    have two: "1 < length us" using True same by blast
    have "hd (tree_loop (?l ts)) = hd (tree_loop (?l us))"
      using 1(8) True two by (simp add: tree_loop.simps [of ts] tree_loop.simps [of us])
    then have "?l ts = ?l us"
      by (rule 1(1) [OF True distinct_pair_trees [OF 1(2)] distinct_pair_trees [OF 1(3)] level_ne [OF True]
            level_ne [OF two] hgt_pair_trees [OF 1(6)] hgt_pair_trees [OF 1(7)]])
    then have "pad_even ts = pad_even us"
      by (rule pair_trees_inject [OF even_pad even_pad])
    then show ?thesis by (rule pad_even_inject [OF 1(2,3,4,5)])
  next
    case False
    with same singleton_or_more [OF 1(4)] singleton_or_more [OF 1(5)] obtain t u where "ts = [t]" "us = [u]" by blast
    with 1(8) show ?thesis by (simp add: tree_loop.simps)
  qed
qed

section \<open>What a root binds\<close>

lemma set_leaves_pair: "(\<Union>t \<in> set (pair_trees ts). leaves t) \<subseteq> (\<Union>t \<in> set ts. leaves t)"
  by (induction ts rule: pair_trees.induct) auto

lemma leaves_loop: "(\<Union>t \<in> set (tree_loop ts). leaves t) \<subseteq> (\<Union>t \<in> set ts. leaves t)"
proof (induction ts rule: tree_loop.induct)
  case (1 ts)
  show ?case
  proof (cases "1 < length ts")
    case True
    with 1 [OF True] set_leaves_pair [of "pad_even ts"] show ?thesis
      by (simp add: tree_loop.simps [of ts])
  qed (simp add: tree_loop.simps)
qed

lemma leaves_merkle_tree: "hs \<noteq> [] \<Longrightarrow> leaves (merkle_tree hs) \<subseteq> set hs"
  using leaves_loop [of "map Leaf hs"] tree_loop_ne [of "map Leaf hs"]
  by (force simp: merkle_tree_def neq_Nil_conv)

lemma inner_ok_iff: "inner_ok n X t \<longleftrightarrow> (\<forall>h \<in> leaves t. length h = n)"
  by (induction t) auto

lemma roots_bind:
  assumes ne: "xs \<noteq> []" "ys \<noteq> []" and dist: "distinct xs" "distinct ys"
    and len: "\<And>d. length (sha256 X d) = n" "\<forall>h \<in> set xs \<union> set ys. length h = n"
    and inj: "inj_on (sha256 X) (merkle_inputs X xs \<union> merkle_inputs X ys)"
    and sep: "(set xs \<union> set ys) \<inter> sha256 X ` (merkle_inputs X xs \<union> merkle_inputs X ys) = {}"
    and root: "build_merkle_root X xs = build_merkle_root X ys"
  shows "xs = ys"
proof -
  note lv = leaves_merkle_tree [OF ne(1)] leaves_merkle_tree [OF ne(2)]
  have "merkle_tree xs = merkle_tree ys"
  proof (rule tree_hash_inject [OF _ _ len(1) inj])
    show "inner_ok n X (merkle_tree xs)" "inner_ok n X (merkle_tree ys)"
      using len(2) lv unfolding inner_ok_iff by blast+
    show "tree_inputs X (merkle_tree xs) \<subseteq> merkle_inputs X xs \<union> merkle_inputs X ys"
      "tree_inputs X (merkle_tree ys) \<subseteq> merkle_inputs X xs \<union> merkle_inputs X ys"
      using ne by (auto simp: merkle_inputs_def)
    show "(leaves (merkle_tree xs) \<union> leaves (merkle_tree ys)) \<inter> sha256 X ` (merkle_inputs X xs \<union> merkle_inputs X ys) = {}"
      using sep lv by blast
    show "tree_hash X (merkle_tree xs) = tree_hash X (merkle_tree ys)"
      using root ne by (simp add: root_is_tree_hash)
  qed
  then have "map Leaf xs = map Leaf ys"
    unfolding merkle_tree_def using ne dist
    by (intro tree_loop_inject [where n = 0]) (auto simp: distinct_map inj_on_def)
  then show ?thesis by (simp add: inj_map_eq_map inj_def)
qed

text \<open>Without the check for duplicates the root does not bind the list: an odd level repeats its last hash.\<close>

lemma odd_root_repeats:
  assumes "odd (length hs)" "1 < length hs"
  shows "build_merkle_root X (hs @ [last hs]) = build_merkle_root X hs"
proof -
  have ne: "hs \<noteq> []" using assms by auto
  have "pad_even hs = hs @ [last hs]" using assms by (simp add: pad_even_def)
  moreover have "pad_even (hs @ [last hs]) = hs @ [last hs]" using assms by (simp add: pad_even_def)
  ultimately have "merkle_loop X (hs @ [last hs]) = merkle_loop X hs"
    using assms ne by (simp add: merkle_loop.simps [of X hs] merkle_loop.simps [of X "hs @ [last hs]"])
  then show ?thesis using ne by (simp add: build_merkle_root_def)
qed

end
