(* ===== verification/Sortition.thy ===== *)
theory Sortition
  imports Block_Types
begin

text \<open>
  Who may propose a block. The production loop of \<open>src/main.rs\<close> relaxes the threshold of a node as
  it waits for a height; the handler of a block proposal
  (\<open>src/network/message_handler/consensus.rs\<close>) relaxes it by the time since the slot. Both weigh
  nodes by tier and fairness bonus and call \<open>vrf_check_proposer_eligible\<close>. Times are seconds of the
  system clock, as integers; the monotonic clock of the loop is the field of a tick beside it. The
  height of a block is below the schedule's, so \<open>height as i64\<close> is exact.
\<close>

section \<open>Weights\<close>

definition fairness_weight :: "MasternodeTier \<Rightarrow> u64 \<Rightarrow> u64" where
  "fairness_weight t blocks_without =
     (let raw = sampling_weight t + blocks_without div 10
      in if t = Free then min raw (sampling_weight Bronze - 1) else raw)"

definition total_sampling_weight :: "(string \<Rightarrow> u64 option) \<Rightarrow> Masternode list \<Rightarrow> u64" where
  "total_sampling_weight without mns =
     sum_list (map (\<lambda>mn. fairness_weight (mn_tier mn) (case without (mn_address mn) of None \<Rightarrow> 0 | Some b \<Rightarrow> b)) mns)"

section \<open>The schedule\<close>

definition BLOCK_TIME_SECONDS :: int where "BLOCK_TIME_SECONDS = 600"

text \<open>\<open>Blockchain::calculate_expected_height\<close>.\<close>

definition calculate_expected_height :: "int \<Rightarrow> int \<Rightarrow> u64" where
  "calculate_expected_height genesis now =
     (if now < genesis then 0 else word_of_int ((now - genesis) div BLOCK_TIME_SECONDS))"

definition slot_elapsed :: "int \<Rightarrow> u64 \<Rightarrow> int \<Rightarrow> nat" where
  "slot_elapsed genesis height now = nat (max 0 (now - (genesis + uint height * 600)))"

section \<open>The producer\<close>

definition LEADER_TIMEOUT_SECS :: nat where "LEADER_TIMEOUT_SECS = 30"

record LeaderState =
  ls_waiting_for_height :: "u64 option"
  ls_leader_attempt :: nat
  ls_height_first_seen :: nat

definition leader_init :: "nat \<Rightarrow> LeaderState" where
  "leader_init clock = \<lparr>ls_waiting_for_height = None, ls_leader_attempt = 0, ls_height_first_seen = clock\<rparr>"

text \<open>One round of the loop that reaches leader election: the chain height, the system clock and
  the monotonic clock.\<close>

record Tick =
  tk_height :: u64
  tk_now :: int
  tk_clock :: nat

definition blocks_behind :: "int \<Rightarrow> Tick \<Rightarrow> u64" where
  "blocks_behind genesis t = saturating_sub (calculate_expected_height genesis (tk_now t)) (tk_height t)"

definition track_height :: "int \<Rightarrow> Tick \<Rightarrow> LeaderState \<Rightarrow> LeaderState" where
  "track_height genesis t st =
     (if ls_waiting_for_height st \<noteq> Some (tk_height t + 1)
      then \<lparr>ls_waiting_for_height = Some (tk_height t + 1),
            ls_leader_attempt = (if blocks_behind genesis t > 50 then 3
              else if blocks_behind genesis t > 10 then 2 else 0),
            ls_height_first_seen = tk_clock t\<rparr>
      else st)"

definition leader_tick :: "int \<Rightarrow> Tick \<Rightarrow> LeaderState \<Rightarrow> LeaderState" where
  "leader_tick genesis t st =
     (let st = track_height genesis t st;
          effective_elapsed = min (slot_elapsed genesis (tk_height t + 1) (tk_now t))
                                  (tk_clock t - ls_height_first_seen st);
          timeout_secs = (if blocks_behind genesis t > 50 then 2 else LEADER_TIMEOUT_SECS);
          expected_attempt = effective_elapsed div timeout_secs
      in if expected_attempt > ls_leader_attempt st then st\<lparr>ls_leader_attempt := expected_attempt\<rparr> else st)"

definition relaxed_weight :: "nat \<Rightarrow> u64 \<Rightarrow> u64 \<Rightarrow> u64" where
  "relaxed_weight attempt w total_w = min (saturating_mul w (push_bit (min attempt 20) 1)) total_w"

definition effective_sampling_weight :: "MasternodeTier \<Rightarrow> nat \<Rightarrow> u64 \<Rightarrow> u64 \<Rightarrow> u64" where
  "effective_sampling_weight t attempt w total_w =
     (if attempt > 0
      then (if (if t = Free then attempt \<ge> 5 else True) then relaxed_weight attempt w total_w else w)
      else w)"

definition producer_eligible :: "MasternodeTier \<Rightarrow> nat \<Rightarrow> u64 \<Rightarrow> u64 \<Rightarrow> u64 \<Rightarrow> bool" where
  "producer_eligible t attempt score w total_w =
     vrf_check_proposer_eligible score (effective_sampling_weight t attempt w total_w) total_w"

section \<open>The validator\<close>

datatype SortitionError = ThresholdExceeded | ThresholdExceededRelaxed u64

definition validate_sortition ::
    "int \<Rightarrow> int \<Rightarrow> u64 \<Rightarrow> u64 \<Rightarrow> u64 \<Rightarrow> u64 \<Rightarrow> u64 \<Rightarrow> SortitionError + unit" where
  "validate_sortition genesis now our_height height score w total_w =
     (if total_w > 0 \<and> \<not> vrf_check_proposer_eligible score w total_w \<and> height = our_height + 1
      then (let timeout_attempts = min (slot_elapsed genesis height now div 30) 20
            in if timeout_attempts > 0
               then (if vrf_check_proposer_eligible score (relaxed_weight timeout_attempts w total_w) total_w
                     then Inr () else Inl (ThresholdExceededRelaxed (push_bit timeout_attempts 1)))
               else Inl ThresholdExceeded)
      else Inr ())"

section \<open>Eligibility\<close>

lemma u64_max_val: "unat (- 1 :: u64) = 18446744073709551615"
  by (simp add: unsigned_minus_1_eq_mask mask_eq_exp_minus_1)

lemma unat_ucast_u128 [simp]: "unat (ucast w :: u128) = unat w" for w :: u64
proof -
  have "unat w < 2 ^ 128" by (rule order_less_trans [OF unsigned_less]) simp
  then show ?thesis by (simp add: unsigned_ucast_eq take_bit_nat_eq_self)
qed

lemma eligible_iff:
  "vrf_check_proposer_eligible score w total_w \<longleftrightarrow>
     w \<noteq> 0 \<and> total_w \<noteq> 0 \<and> unat score < min ((unat w * (2 ^ 64 - 1)) div unat total_w) (2 ^ 64 - 1)"
proof -
  have w: "unat w < 2 ^ 64" by (rule order_less_le_trans [OF unsigned_less]) simp
  have prod: "unat (ucast w * ucast (- 1 :: u64) * 1 :: u128) = unat w * (2 ^ 64 - 1)"
  proof -
    have "unat w * (2 ^ 64 - 1) < 2 ^ LENGTH(128)"
      using w by (simp add: mult_less_le_imp_less)
    then show ?thesis by (simp add: unat_word_ariths u64_max_val)
  qed
  show ?thesis
    unfolding vrf_check_proposer_eligible_def Let_def
    by (auto simp: word_less_nat_alt prod [simplified] unat_div u64_max_val min_def word_le_nat_alt)
qed

lemma eligible_mono:
  assumes "vrf_check_proposer_eligible score w total_w" "w \<le> w'"
  shows "vrf_check_proposer_eligible score w' total_w"
proof -
  have le: "unat w \<le> unat w'" using assms(2) by (simp add: word_le_nat_alt)
  then have "unat w * (2 ^ 64 - 1) div unat total_w \<le> unat w' * (2 ^ 64 - 1) div unat total_w"
    by (intro div_le_mono mult_le_mono1)
  moreover have "w' \<noteq> 0" using assms le by (auto simp: eligible_iff)
  ultimately show ?thesis using assms(1) by (auto simp: eligible_iff)
qed

text \<open>A node that carries the whole weight is refused only for the largest score.\<close>

lemma eligible_full: "total_w \<noteq> 0 \<Longrightarrow> unat score < 2 ^ 64 - 1 \<Longrightarrow> vrf_check_proposer_eligible score total_w total_w"
  by (simp add: eligible_iff unat_eq_0)

lemma unat_multiplier: "k \<le> 20 \<Longrightarrow> unat (2 ^ k :: u64) = 2 ^ k"
proof -
  assume "k \<le> 20"
  then have "(2::nat) ^ k \<le> 2 ^ 20" by (intro power_increasing) auto
  then have lt: "(2::nat) ^ k < 2 ^ 64" by (rule order_le_less_trans) simp
  have "unat (2 ^ k :: u64) = unat (of_nat (2 ^ k) :: u64)" by simp
  also have "\<dots> = 2 ^ k" using lt by (simp only: unat_of_nat) simp
  finally show ?thesis .
qed

lemma unat_saturating_mul: "unat (saturating_mul a b) = min (unat a * unat b) (2 ^ 64 - 1)" for a b :: u64
proof (cases "unat a * unat b < 2 ^ 64")
  case True
  then show ?thesis by (simp add: saturating_mul_def unat_word_ariths)
qed (simp add: saturating_mul_def u64_max_val)

lemma unat_relaxed_weight:
  "unat (relaxed_weight attempt w total_w) = min (unat w * 2 ^ min attempt 20) (unat total_w)"
proof -
  have "unat total_w \<le> 2 ^ 64 - 1" using unsigned_less [of total_w, where 'a = nat] by simp
  then show ?thesis
    by (auto simp: relaxed_weight_def min_def word_le_nat_alt unat_saturating_mul unat_multiplier)
qed

lemma relaxed_weight_mono:
  "min a 20 \<le> min b 20 \<Longrightarrow> relaxed_weight a w total_w \<le> relaxed_weight b w total_w"
proof -
  assume le: "min a 20 \<le> min b 20"
  have "unat w * 2 ^ min a 20 \<le> unat w * 2 ^ min b 20"
    by (intro mult_le_mono2 power_increasing le) simp
  then show ?thesis unfolding word_le_nat_alt unat_relaxed_weight by linarith
qed

section \<open>How far the producer relaxes\<close>

text \<open>A round whose numbers are in range: the next height and the schedule fit in 64 bits.\<close>

definition tick_ok :: "int \<Rightarrow> Tick \<Rightarrow> bool" where
  "tick_ok genesis t \<longleftrightarrow> unat (tk_height t) < 2 ^ 64 - 1 \<and> tk_now t - genesis < 2 ^ 63"

definition leader_inv :: "int \<Rightarrow> int \<Rightarrow> LeaderState \<Rightarrow> bool" where
  "leader_inv genesis now st \<longleftrightarrow> (\<forall>h. ls_waiting_for_height st = Some h \<longrightarrow>
     min (ls_leader_attempt st) 20 \<le> slot_elapsed genesis h now div 30)"

lemma slot_elapsed_mono: "now \<le> now' \<Longrightarrow> slot_elapsed genesis h now \<le> slot_elapsed genesis h now'"
  by (simp add: slot_elapsed_def)

lemma far_behind:
  assumes ok: "tick_ok genesis t" and bb: "10 < blocks_behind genesis t"
  shows "6000 \<le> slot_elapsed genesis (tk_height t + 1) (tk_now t)"
proof -
  let ?E = "calculate_expected_height genesis (tk_now t)"
  have lt: "unat (tk_height t) + 10 < unat ?E"
    using bb by (auto simp: blocks_behind_def word_less_nat_alt)
  then have after: "\<not> tk_now t < genesis" by (auto simp: calculate_expected_height_def)
  have "0 \<le> (tk_now t - genesis) div 600 \<and> (tk_now t - genesis) div 600 < 2 ^ 64"
    using ok after unfolding tick_ok_def by auto
  then have E: "uint ?E = (tk_now t - genesis) div 600"
    using after by (simp add: calculate_expected_height_def BLOCK_TIME_SECONDS_def
        uint_word_of_int_eq take_bit_int_eq_self_iff)
  have h: "uint (tk_height t + 1) = uint (tk_height t) + 1"
  proof -
    have "unat (tk_height t + 1) = unat (tk_height t) + 1"
      using ok by (simp add: tick_ok_def unat_word_ariths)
    then show ?thesis by (simp only: uint_nat of_nat_add of_nat_1)
  qed
  have "int (unat (tk_height t)) + 11 \<le> int (unat ?E)" using lt by linarith
  then have "uint (tk_height t) + 11 \<le> (tk_now t - genesis) div 600"
    by (simp only: uint_nat [symmetric] E)
  moreover have "600 * (x + 11) \<le> y" if "x + 11 \<le> y div 600" for x y :: int
  proof -
    have "600 * (x + 11) \<le> 600 * (y div 600)" using that by (intro mult_left_mono) simp_all
    also have "\<dots> \<le> y" using minus_mod_eq_mult_div [of y 600] by simp
    finally show ?thesis .
  qed
  ultimately have "600 * (uint (tk_height t) + 11) \<le> tk_now t - genesis" by blast
  then show ?thesis by (simp add: slot_elapsed_def h)
qed

lemma leader_tick_inv:
  assumes ok: "tick_ok genesis t" and inv: "leader_inv genesis now0 st" and le: "now0 \<le> tk_now t"
  shows "leader_inv genesis (tk_now t) (leader_tick genesis t st)"
proof -
  let ?s = "slot_elapsed genesis (tk_height t + 1) (tk_now t)"
  let ?st = "leader_tick genesis t st"
  have h: "ls_waiting_for_height ?st = Some (tk_height t + 1)"
    by (auto simp: leader_tick_def track_height_def Let_def)
  have "min (ls_leader_attempt ?st) 20 \<le> ?s div 30"
  proof (cases "10 < blocks_behind genesis t")
    case True
    from far_behind [OF ok True] show ?thesis by linarith
  next
    case False
    then have few: "\<not> 50 < blocks_behind genesis t" by (simp add: word_less_nat_alt)
    let ?tr = "track_height genesis t st"
    have tr: "min (ls_leader_attempt ?tr) 20 \<le> ?s div 30"
      using inv div_le_mono [OF slot_elapsed_mono [OF le]] False few
      by (auto simp: track_height_def leader_inv_def intro: order_trans)
    have "min ?s (tk_clock t - ls_height_first_seen ?tr) div 30 \<le> ?s div 30" by (intro div_le_mono) simp
    with tr few show ?thesis by (simp add: leader_tick_def Let_def LEADER_TIMEOUT_SECS_def min_le_iff_disj)
  qed
  with h show ?thesis by (simp add: leader_inv_def)
qed

lemma leader_ticks_inv:
  assumes "list_all (tick_ok genesis) ts" "sorted (map tk_now ts)" "leader_inv genesis now0 st"
    and "\<forall>t \<in> set ts. now0 \<le> tk_now t" "ts \<noteq> []"
  shows "leader_inv genesis (tk_now (last ts)) (fold (leader_tick genesis) ts st)"
  using assms
proof (induction ts arbitrary: now0 st)
  case (Cons t ts)
  have step: "leader_inv genesis (tk_now t) (leader_tick genesis t st)"
    using Cons.prems by (intro leader_tick_inv [where ?now0.0 = now0]) auto
  show ?case
  proof (cases "ts = []")
    case True
    with step show ?thesis by simp
  next
    case False
    with Cons.IH [OF _ _ step] Cons.prems show ?thesis by simp
  qed
qed simp

lemma tick_waits: "ls_waiting_for_height (leader_tick genesis t st) = Some (tk_height t + 1)"
  by (auto simp: leader_tick_def track_height_def Let_def)

lemma ticks_wait:
  "ts \<noteq> [] \<Longrightarrow> ls_waiting_for_height (fold (leader_tick genesis) ts st) = Some (tk_height (last ts) + 1)"
  by (induction ts arbitrary: st) (auto simp: tick_waits)

text \<open>A node that is eligible after relaxing no further than the time since the slot allows is accepted.\<close>

lemma eligible_accepted:
  assumes el: "producer_eligible t attempt score w total_w"
    and le: "min attempt 20 \<le> slot_elapsed genesis height now div 30"
  shows "validate_sortition genesis now our_height height score w total_w = Inr ()"
proof (cases "vrf_check_proposer_eligible score w total_w")
  case False
  let ?k = "min (slot_elapsed genesis height now div 30) 20"
  from el False have "0 < attempt" and rel: "vrf_check_proposer_eligible score (relaxed_weight attempt w total_w) total_w"
    by (auto simp: producer_eligible_def effective_sampling_weight_def split: if_splits)
  with le have pos: "0 < ?k" and "min attempt 20 \<le> min ?k 20" by auto
  then have "vrf_check_proposer_eligible score (relaxed_weight ?k w total_w) total_w"
    by (intro eligible_mono [OF rel] relaxed_weight_mono)
  with pos show ?thesis unfolding validate_sortition_def Let_def by (simp only: if_True if_cancel)
qed (simp add: validate_sortition_def)

section \<open>Properties\<close>

text \<open>
  C12. Whatever rounds the production loop has gone through, with heights coming and going and a
  clock that does not run backwards, a node that finds itself eligible to propose the next block
  is accepted by every validator whose clock is not behind and who weighs the nodes alike: the
  loop never relaxes the threshold further than the validator does.
\<close>

theorem producer_validator_agree:
  assumes "list_all (tick_ok genesis) ts" "sorted (map tk_now ts)" "ts \<noteq> []"
    and st: "st = fold (leader_tick genesis) ts (leader_init clock)"
    and el: "producer_eligible t (ls_leader_attempt st) score w total_w"
    and now: "tk_now (last ts) \<le> now"
  shows "validate_sortition genesis now our_height (tk_height (last ts) + 1) score w total_w = Inr ()"
proof -
  have "leader_inv genesis (tk_now (hd ts)) (leader_init clock)" by (simp add: leader_inv_def leader_init_def)
  moreover have "\<forall>t \<in> set ts. tk_now (hd ts) \<le> tk_now t" using assms(2,3) by (cases ts) auto
  ultimately have "leader_inv genesis (tk_now (last ts)) st"
    unfolding st using leader_ticks_inv [OF assms(1,2)] assms(3) by blast
  moreover have "ls_waiting_for_height st = Some (tk_height (last ts) + 1)"
    unfolding st by (rule ticks_wait [OF assms(3)])
  ultimately have "min (ls_leader_attempt st) 20 \<le> slot_elapsed genesis (tk_height (last ts) + 1) (tk_now (last ts)) div 30"
    by (simp add: leader_inv_def)
  also have "\<dots> \<le> slot_elapsed genesis (tk_height (last ts) + 1) now div 30"
    by (intro div_le_mono slot_elapsed_mono now)
  finally show ?thesis by (rule eligible_accepted [OF el])
qed

definition tick_at :: "u64 \<Rightarrow> int \<Rightarrow> nat \<Rightarrow> Tick" where
  "tick_at h now clock = \<lparr>tk_height = h, tk_now = now, tk_clock = clock\<rparr>"

lemma waits_two_rounds:
  "ls_leader_attempt (fold (leader_tick 1000) [tick_at 14 10000 50, tick_at 14 10070 115] (leader_init 0)) = 2"
  by (simp add: leader_tick_def track_height_def leader_init_def tick_at_def blocks_behind_def slot_elapsed_def
      calculate_expected_height_def BLOCK_TIME_SECONDS_def LEADER_TIMEOUT_SECS_def saturating_sub_def)

theorem producer_validator_agree_witness:
  "validate_sortition 1000 10070 14 15 (2 ^ 62) 14 100 = Inr ()"
proof -
  let ?ts = "[tick_at 14 10000 50, tick_at 14 10070 115]"
  have "unat (effective_sampling_weight Bronze 2 14 100) = 56"
    by (simp add: effective_sampling_weight_def unat_relaxed_weight)
  then have el: "producer_eligible Bronze (ls_leader_attempt (fold (leader_tick 1000) ?ts (leader_init 0))) (2 ^ 62) 14 100"
    unfolding waits_two_rounds producer_eligible_def eligible_iff by (auto simp: unat_eq_0)
  have "validate_sortition 1000 10070 14 (tk_height (last ?ts) + 1) (2 ^ 62) 14 100 = Inr ()"
    by (rule producer_validator_agree [OF _ _ _ refl el]) (simp_all add: tick_ok_def tick_at_def)
  then show ?thesis by (simp add: tick_at_def)
qed

text \<open>
  C22. Block production does not stall on the lottery: a node that has waited ten minutes for a
  height whose slot began ten minutes ago, and whose weight is at least a 2^20th of the total,
  is eligible with any score but the largest, of whatever tier, and every validator whose clock
  is not behind accepts it.
\<close>

theorem waiting_node_becomes_eligible:
  assumes ok: "tick_ok genesis t"
    and wait: "ls_waiting_for_height st = Some (tk_height t + 1)"
      "ls_height_first_seen st + 600 \<le> tk_clock t" "600 \<le> slot_elapsed genesis (tk_height t + 1) (tk_now t)"
    and weight: "total_w \<noteq> 0" "unat total_w \<le> unat w * 2 ^ 20"
    and score: "unat score < 2 ^ 64 - 1" and now: "tk_now t \<le> now"
  shows "producer_eligible tier (ls_leader_attempt (leader_tick genesis t st)) score w total_w
    \<and> validate_sortition genesis now our_height (tk_height t + 1) score w total_w = Inr ()"
proof -
  let ?a = "ls_leader_attempt (leader_tick genesis t st)"
  let ?e = "min (slot_elapsed genesis (tk_height t + 1) (tk_now t)) (tk_clock t - ls_height_first_seen st)"
  have "600 \<le> ?e" using wait by simp
  then have "20 \<le> ?e div 30" "20 \<le> ?e div 2" by linarith+
  then have a: "20 \<le> ?a"
    using wait(1) by (auto simp: leader_tick_def track_height_def Let_def LEADER_TIMEOUT_SECS_def)
  have "relaxed_weight ?a w total_w = total_w"
    unfolding word_unat_eq_iff unat_relaxed_weight using a weight(2) by (simp add: min_def)
  then have el: "producer_eligible tier ?a score w total_w"
    using a eligible_full [OF weight(1) score] by (simp add: producer_eligible_def effective_sampling_weight_def)
  have "min ?a 20 \<le> slot_elapsed genesis (tk_height t + 1) (tk_now t) div 30" using wait(3) by linarith
  also have "\<dots> \<le> slot_elapsed genesis (tk_height t + 1) now div 30"
    by (intro div_le_mono slot_elapsed_mono now)
  finally show ?thesis using el eligible_accepted [OF el] by blast
qed

theorem waiting_node_becomes_eligible_witness:
  "producer_eligible Free (ls_leader_attempt (leader_tick 1000 (tick_at 14 10700 700)
      \<lparr>ls_waiting_for_height = Some 15, ls_leader_attempt = 0, ls_height_first_seen = 50\<rparr>)) (2 ^ 63) 1 5000
    \<and> validate_sortition 1000 10700 14 (tk_height (tick_at 14 10700 700) + 1) (2 ^ 63) 1 5000 = Inr ()"
  by (rule waiting_node_becomes_eligible) (simp_all add: tick_ok_def tick_at_def slot_elapsed_def)

end
