(* ===== verification/Block_Validation.thy ===== *)
theory Block_Validation
  imports Merkle Sortition
begin

text \<open>
  The rules a block has to meet: the validator of \<open>src/blockchain_validation.rs\<close> with the errors
  of \<open>src/blockchain_error.rs\<close>, and the checks of \<open>src/blockchain.rs\<close> that a received block goes
  through, with its checkpoints. The binary encoding of a block is the argument \<open>bin\<close>, the system
  clock the argument \<open>now\<close>. Messages of errors are constructors. In \<open>Blockchain::validate_block\<close>
  the clock and the schedule are far inside 64 bits and a height is compared with the schedule
  before it is multiplied, so times are integers there.
\<close>

section \<open>Errors\<close>

datatype InvalidReason = DuplicateTransaction hash256 | MissingBitmap | HeightGap u64 u64
datatype TimestampReason = InFuture i64 i64 | BeforeGenesis i64 i64 | BeforePrevious i64 i64

datatype BlockchainError =
    BlockNotFound u64
  | InvalidBlock u64 InvalidReason
  | ValidationFailed string
  | MerkleRootMismatch u64 hash256 hash256
  | InvalidTimestamp u64 TimestampReason
  | BlockTooLarge u64 nat nat
  | PreviousHashMismatch u64
  | ForkDetected u64
  | ReorgFailed u64 string
  | CheckpointMismatch u64 string string
  | ReorgTooDeep u64 u64
  | StorageError
  | Serialization
  | UtxoFailure string
  | ConsensusError string
  | SyncError string
  | GenesisError string
  | BlockProduction string
  | NetworkError string
  | NoPeersAvailable
  | IncompleteChain nat
  | AlreadySyncing
  | Timeout string
  | OtherError string

definition is_recoverable :: "BlockchainError \<Rightarrow> bool" where
  "is_recoverable e = (case e of NoPeersAvailable \<Rightarrow> True | AlreadySyncing \<Rightarrow> True | Timeout _ \<Rightarrow> True
     | NetworkError _ \<Rightarrow> True | SyncError _ \<Rightarrow> True | _ \<Rightarrow> False)"

definition is_fork :: "BlockchainError \<Rightarrow> bool" where
  "is_fork e = (case e of ForkDetected _ \<Rightarrow> True | _ \<Rightarrow> False)"

definition is_storage_error :: "BlockchainError \<Rightarrow> bool" where
  "is_storage_error e = (case e of StorageError \<Rightarrow> True | Serialization \<Rightarrow> True | _ \<Rightarrow> False)"

section \<open>The block validator\<close>

definition validate_timestamp :: "NetworkType \<Rightarrow> i64 \<Rightarrow> Block \<Rightarrow> BlockchainError + unit" where
  "validate_timestamp net now b =
     (let h = blk_header b; ts = bh_timestamp h
      in if sint ts > sint (now + TIMESTAMP_TOLERANCE_SECS)
         then Inl (InvalidTimestamp (bh_height h) (InFuture ts (ts - now)))
         else if bh_height h > 0 \<and> sint ts < sint (genesis_timestamp net)
         then Inl (InvalidTimestamp (bh_height h) (BeforeGenesis ts (genesis_timestamp net)))
         else Inr ())"

fun duplicate_loop :: "extern \<Rightarrow> hash256 set \<Rightarrow> Transaction list \<Rightarrow> hash256 option" where
  "duplicate_loop X seen [] = None"
| "duplicate_loop X seen (tx # txs) =
     (if txid X tx \<in> seen then Some (txid X tx) else duplicate_loop X (insert (txid X tx) seen) txs)"

definition check_duplicate_transactions :: "extern \<Rightarrow> Block \<Rightarrow> BlockchainError + unit" where
  "check_duplicate_transactions X b =
     (case duplicate_loop X {} (blk_transactions b) of
        Some tid \<Rightarrow> Inl (InvalidBlock (bh_height (blk_header b)) (DuplicateTransaction tid))
      | None \<Rightarrow> Inr ())"

definition validate_block_size :: "(Block \<Rightarrow> u8 list option) \<Rightarrow> Block \<Rightarrow> BlockchainError + unit" where
  "validate_block_size bin b =
     (case bin b of None \<Rightarrow> Inl Serialization
      | Some bytes \<Rightarrow>
          if length bytes > MAX_BLOCK_SIZE
          then Inl (BlockTooLarge (bh_height (blk_header b)) (length bytes) MAX_BLOCK_SIZE) else Inr ())"

text \<open>The \<open>?\<close> operator: the error of a step, or what follows it.\<close>

definition and_then :: "'e + unit \<Rightarrow> 'e + 'a \<Rightarrow> 'e + 'a" where
  "and_then r k = (case r of Inl e \<Rightarrow> Inl e | Inr _ \<Rightarrow> k)"

definition bv_validate_block ::
    "extern \<Rightarrow> (Block \<Rightarrow> u8 list option) \<Rightarrow> NetworkType \<Rightarrow> i64 \<Rightarrow> Block \<Rightarrow> hash256 option \<Rightarrow> BlockchainError + unit" where
  "bv_validate_block X bin net now b expected_prev =
     (let h = blk_header b; root = calculate_merkle_root X (blk_transactions b)
      in if (case expected_prev of Some p \<Rightarrow> bh_previous_hash h \<noteq> p | None \<Rightarrow> False)
         then Inl (PreviousHashMismatch (bh_height h))
         else if root \<noteq> bh_merkle_root h
         then Inl (MerkleRootMismatch (bh_height h) (bh_merkle_root h) root)
         else and_then (validate_timestamp net now b)
           (and_then (check_duplicate_transactions X b)
             (and_then (validate_block_size bin b)
               (if bh_height h > 0 \<and> bh_active_masternodes_bitmap h = []
                then Inl (InvalidBlock (bh_height h) MissingBitmap) else Inr ()))))"

fun validate_chain_sequence ::
    "extern \<Rightarrow> (Block \<Rightarrow> u8 list option) \<Rightarrow> NetworkType \<Rightarrow> i64 \<Rightarrow> Block list \<Rightarrow> BlockchainError + unit" where
  "validate_chain_sequence X bin net now (p # c # bs) =
     (let ph = blk_header p; ch = blk_header c
      in if bh_height ch \<noteq> bh_height ph + 1
         then Inl (InvalidBlock (bh_height ch) (HeightGap (bh_height ph) (bh_height ch)))
         else and_then (bv_validate_block X bin net now c (Some (block_hash X p)))
           (if sint (bh_timestamp ch) < sint (bh_timestamp ph)
            then Inl (InvalidTimestamp (bh_height ch) (BeforePrevious (bh_timestamp ch) (bh_timestamp ph)))
            else validate_chain_sequence X bin net now (c # bs)))"
| "validate_chain_sequence X bin net now bs = Inr ()"

section \<open>Checks on a received block\<close>

datatype BlockReject =
    PrevHashMismatch | MerkleMismatch | TooFarInFuture | PredatesGenesis | ExceedsExpectedHeight u64
  | TooEarly int | ContainsDuplicate hash256 | ContainsGhost hash256 | SerializationFailed | ExceedsMaxSize nat
  | EmptyLeader | BadVrfProofLength nat | VrfScoreMismatch u64 | TooFewRecipients nat nat

text \<open>A transaction without inputs and outputs has to carry a valid masternode payload.\<close>

definition special_ok :: "extern \<Rightarrow> Transaction \<Rightarrow> bool" where
  "special_ok X tx = (case tx_special_data tx of None \<Rightarrow> False
     | Some sd \<Rightarrow> validate_fields sd = Inr () \<and> verify_signature X sd = Inr () \<and> verify_address_binding X sd = Inr ())"

definition is_ghost_tx :: "extern \<Rightarrow> Transaction \<Rightarrow> bool" where
  "is_ghost_tx X tx \<longleftrightarrow> tx_inputs tx = [] \<and> tx_outputs tx = [] \<and> \<not> special_ok X tx"

definition bitmap_eligible :: "u8 list \<Rightarrow> nat" where
  "bitmap_eligible bm = sum_list (map (\<lambda>b. length (filter (bit b) [0..<8])) bm)"

definition min_paid_recipients :: "u8 list \<Rightarrow> nat" where
  "min_paid_recipients bm = (if bitmap_eligible bm \<ge> 3 then 3 else max (bitmap_eligible bm) 1)"

definition paid_recipients :: "Block \<Rightarrow> string set" where
  "paid_recipients b = set (map fst (filter (\<lambda>(a, amt). amt > 0) (blk_masternode_rewards b)))"

definition check_schedule :: "int \<Rightarrow> int \<Rightarrow> u64 \<Rightarrow> BlockHeader \<Rightarrow> BlockReject + unit" where
  "check_schedule genesis now chain_tip h =
     (let ts = sint (bh_timestamp h);
          max_expected_height = calculate_expected_height genesis (now + 10);
          early_by = genesis + uint (bh_height h) * BLOCK_TIME_SECONDS - ts
      in if ts > now + sint TIMESTAMP_TOLERANCE_SECS then Inl TooFarInFuture
         else if bh_height h > 0 \<and> ts < genesis then Inl PredatesGenesis
         else if bh_height h > max_expected_height then Inl (ExceedsExpectedHeight max_expected_height)
         else if early_by > 600 then Inl (TooEarly early_by)
         else if bh_height h + 10 > chain_tip \<and> early_by > 30 then Inl (TooEarly early_by)
         else Inr ())"

definition check_ghosts :: "extern \<Rightarrow> int \<Rightarrow> int \<Rightarrow> Block \<Rightarrow> BlockReject + unit" where
  "check_ghosts X genesis now b =
     (if bh_height (blk_header b) + 10 \<ge> calculate_expected_height genesis now
      then (case find (is_ghost_tx X) (drop 1 (blk_transactions b)) of
              Some tx \<Rightarrow> Inl (ContainsGhost (txid X tx)) | None \<Rightarrow> Inr ())
      else Inr ())"

definition check_size :: "(Block \<Rightarrow> u8 list option) \<Rightarrow> Block \<Rightarrow> BlockReject + unit" where
  "check_size bin b = (case bin b of None \<Rightarrow> Inl SerializationFailed
     | Some bytes \<Rightarrow> if length bytes > MAX_BLOCK_SIZE then Inl (ExceedsMaxSize (length bytes)) else Inr ())"

definition check_vrf_fields :: "BlockHeader \<Rightarrow> BlockReject + unit" where
  "check_vrf_fields h =
     (if bh_vrf_proof h = [] then Inr ()
      else if length (bh_vrf_proof h) \<noteq> 80 then Inl (BadVrfProofLength (length (bh_vrf_proof h)))
      else if bh_vrf_score h \<noteq> vrf_output_to_score (bh_vrf_output h)
      then Inl (VrfScoreMismatch (vrf_output_to_score (bh_vrf_output h))) else Inr ())"

definition check_recipients :: "Block \<Rightarrow> BlockReject + unit" where
  "check_recipients b =
     (let need = min_paid_recipients (bh_active_masternodes_bitmap (blk_header b))
      in if bh_height (blk_header b) \<ge> 1 \<and> card (paid_recipients b) < need
         then Inl (TooFewRecipients (card (paid_recipients b)) need) else Inr ())"

definition validate_block ::
    "extern \<Rightarrow> (Block \<Rightarrow> u8 list option) \<Rightarrow> NetworkType \<Rightarrow> int \<Rightarrow> u64 \<Rightarrow> Block \<Rightarrow> hash256 option \<Rightarrow> BlockReject + unit" where
  "validate_block X bin net now chain_tip b expected_prev =
     (let h = blk_header b; genesis = sint (genesis_timestamp net)
      in if (case expected_prev of Some p \<Rightarrow> bh_previous_hash h \<noteq> p | None \<Rightarrow> False) then Inl PrevHashMismatch
         else if calculate_merkle_root X (blk_transactions b) \<noteq> bh_merkle_root h
           \<and> calculate_merkle_root_legacy X (blk_transactions b) \<noteq> bh_merkle_root h then Inl MerkleMismatch
         else and_then (check_schedule genesis now chain_tip h)
          (case duplicate_loop X {} (blk_transactions b) of Some tid \<Rightarrow> Inl (ContainsDuplicate tid)
           | None \<Rightarrow> and_then (check_ghosts X genesis now b) (and_then (check_size bin b)
               (if bh_height h > 3 \<and> bh_leader h = [] then Inl EmptyLeader
                else and_then (check_vrf_fields h) (check_recipients b)))))"

section \<open>What the checks amount to\<close>

lemma and_then_Inr [simp]: "and_then r k = Inr x \<longleftrightarrow> r = Inr () \<and> k = Inr x"
  by (cases r) (auto simp: and_then_def)

lemma duplicate_loop_None:
  "duplicate_loop X seen txs = None \<longleftrightarrow> distinct (map (txid X) txs) \<and> txid X ` set txs \<inter> seen = {}"
  by (induction txs arbitrary: seen) auto

lemma check_duplicate_iff:
  "check_duplicate_transactions X b = Inr () \<longleftrightarrow> distinct (map (txid X) (blk_transactions b))"
  using duplicate_loop_None [of X "{}" "blk_transactions b"]
  by (auto simp: check_duplicate_transactions_def split: option.split)

lemma validate_block_size_iff:
  "validate_block_size bin b = Inr () \<longleftrightarrow> (\<exists>bytes. bin b = Some bytes \<and> length bytes \<le> MAX_BLOCK_SIZE)"
  by (auto simp: validate_block_size_def split: option.split)

lemma bv_validate_block_iff:
  "bv_validate_block X bin net now b prev = Inr () \<longleftrightarrow>
     (\<forall>p. prev = Some p \<longrightarrow> bh_previous_hash (blk_header b) = p) \<and>
     calculate_merkle_root X (blk_transactions b) = bh_merkle_root (blk_header b) \<and>
     validate_timestamp net now b = Inr () \<and> distinct (map (txid X) (blk_transactions b)) \<and>
     (\<exists>bytes. bin b = Some bytes \<and> length bytes \<le> MAX_BLOCK_SIZE) \<and>
     (bh_height (blk_header b) = 0 \<or> bh_active_masternodes_bitmap (blk_header b) \<noteq> [])"
  by (auto simp: bv_validate_block_def Let_def check_duplicate_iff validate_block_size_iff word_gt_0
      split: option.split)

lemma check_schedule_iff:
  "check_schedule genesis now tip h = Inr () \<longleftrightarrow>
     (let ts = sint (bh_timestamp h); early_by = genesis + uint (bh_height h) * BLOCK_TIME_SECONDS - ts in
      ts \<le> now + 5 \<and> (bh_height h = 0 \<or> genesis \<le> ts) \<and> bh_height h \<le> calculate_expected_height genesis (now + 10)
      \<and> early_by \<le> 600 \<and> (tip < bh_height h + 10 \<longrightarrow> early_by \<le> 30))"
  by (auto simp: check_schedule_def Let_def TIMESTAMP_TOLERANCE_SECS_def word_gt_0 not_less)

lemma check_ghosts_iff:
  "check_ghosts X genesis now b = Inr () \<longleftrightarrow>
     (calculate_expected_height genesis now \<le> bh_height (blk_header b) + 10 \<longrightarrow>
        (\<forall>tx \<in> set (drop 1 (blk_transactions b)). \<not> is_ghost_tx X tx))"
  using find_None_iff [of "is_ghost_tx X" "drop 1 (blk_transactions b)"]
  by (auto simp: check_ghosts_def split: option.split)

lemma check_vrf_fields_iff:
  "check_vrf_fields h = Inr () \<longleftrightarrow> bh_vrf_proof h = [] \<or>
     length (bh_vrf_proof h) = 80 \<and> bh_vrf_score h = vrf_output_to_score (bh_vrf_output h)"
  by (auto simp: check_vrf_fields_def)

lemma check_recipients_iff:
  "check_recipients b = Inr () \<longleftrightarrow> bh_height (blk_header b) = 0 \<or>
     min_paid_recipients (bh_active_masternodes_bitmap (blk_header b)) \<le> card (paid_recipients b)"
proof -
  have "1 \<le> w \<longleftrightarrow> w \<noteq> 0" for w :: u64
    using unat_eq_0 [of w] by (auto simp: word_le_nat_alt)
  then show ?thesis by (auto simp: check_recipients_def Let_def not_less)
qed

lemma check_size_iff:
  "check_size bin b = Inr () \<longleftrightarrow> (\<exists>bytes. bin b = Some bytes \<and> length bytes \<le> MAX_BLOCK_SIZE)"
  by (auto simp: check_size_def split: option.split)

text \<open>The guards of \<open>validate_block\<close> side by side.\<close>

lemma validate_block_exact:
  "validate_block X bin net now tip b prev = Inr () \<longleftrightarrow>
     (let h = blk_header b; txs = blk_transactions b; genesis = sint (genesis_timestamp net);
          ts = sint (bh_timestamp h); early_by = genesis + uint (bh_height h) * 600 - ts in
      prev \<in> {None, Some (bh_previous_hash h)} \<and>
      bh_merkle_root h \<in> {calculate_merkle_root X txs, calculate_merkle_root_legacy X txs} \<and>
      ts \<le> now + 5 \<and> (bh_height h = 0 \<or> genesis \<le> ts) \<and>
      bh_height h \<le> calculate_expected_height genesis (now + 10) \<and>
      early_by \<le> 600 \<and> (tip < bh_height h + 10 \<longrightarrow> early_by \<le> 30) \<and>
      distinct (map (txid X) txs) \<and>
      (calculate_expected_height genesis now \<le> bh_height h + 10 \<longrightarrow> (\<forall>tx \<in> set (drop 1 txs). \<not> is_ghost_tx X tx)) \<and>
      (\<exists>bytes. bin b = Some bytes \<and> length bytes \<le> 4000000) \<and>
      (bh_height h \<le> 3 \<or> bh_leader h \<noteq> []) \<and>
      (bh_vrf_proof h = [] \<or> length (bh_vrf_proof h) = 80 \<and> bh_vrf_score h = vrf_output_to_score (bh_vrf_output h)) \<and>
      (bh_height h = 0 \<or> min_paid_recipients (bh_active_masternodes_bitmap h) \<le> card (paid_recipients b)))"
proof -
  have dup: "(case duplicate_loop X {} (blk_transactions b) of Some tid \<Rightarrow> Inl (ContainsDuplicate tid) | None \<Rightarrow> k) = Inr ()
      \<longleftrightarrow> distinct (map (txid X) (blk_transactions b)) \<and> k = Inr ()" for k
    using duplicate_loop_None [of X "{}" "blk_transactions b"] by (auto split: option.split)
  have rej: "(if c then Inl e else k) = Inr () \<longleftrightarrow> \<not> c \<and> k = Inr ()" for c and e :: BlockReject and k
    by simp
  have prev: "\<not> (case prev of Some p \<Rightarrow> bh_previous_hash (blk_header b) \<noteq> p | None \<Rightarrow> False)
      \<longleftrightarrow> prev \<in> {None, Some (bh_previous_hash (blk_header b))}"
    by (auto split: option.split)
  have root: "\<not> (r \<noteq> m \<and> l \<noteq> m) \<longleftrightarrow> m \<in> {r, l}" for r l m :: hash256 by auto
  have lead: "\<not> (3 < n \<and> l = []) \<longleftrightarrow> n \<le> 3 \<or> l \<noteq> []" for n :: u64 and l :: string by auto
  show ?thesis
    unfolding validate_block_def Let_def rej prev root lead and_then_Inr dup check_schedule_iff
      check_ghosts_iff check_size_iff check_vrf_fields_iff check_recipients_iff BLOCK_TIME_SECONDS_def MAX_BLOCK_SIZE_def
    by (simp only: conj_assoc)
qed

definition block1 :: Block where
  "block1 = \<lparr>blk_header = header_default\<lparr>bh_height := 1, bh_timestamp := 1764547800, bh_active_masternodes_bitmap := [1]\<rparr>,
     blk_transactions = [], blk_masternode_rewards = [(''TIME1'', 9500000000)], blk_time_attestations = [],
     blk_consensus_participants_bitmap = [], blk_liveness_recovery = None\<rparr>"

lemma block1_fields:
  "blk_transactions block1 = []" "bh_previous_hash (blk_header block1) = zero_hash"
  "bh_merkle_root (blk_header block1) = zero_hash" "bh_height (blk_header block1) = 1"
  "bh_timestamp (blk_header block1) = 1764547800" "bh_vrf_proof (blk_header block1) = []"
  by (simp_all add: block1_def header_default_def)

lemma block1_accepted:
  "validate_block extern0 (\<lambda>_. Some []) Testnet 1764547800 0 block1 (Some zero_hash) = Inr ()"
proof (rule iffD2 [OF validate_block_exact], unfold Let_def, intro conjI)
  show "bh_height (blk_header block1) = 0 \<or> min_paid_recipients (bh_active_masternodes_bitmap (blk_header block1))
      \<le> card (paid_recipients block1)" by code_simp
qed (simp_all add: block1_fields calculate_merkle_root_def build_merkle_root_def calculate_expected_height_def
    BLOCK_TIME_SECONDS_def)

section \<open>Acceptance persists\<close>

lemma expected_height_mono:
  assumes "now \<le> now'" "now' - genesis < 2 ^ 64"
  shows "calculate_expected_height genesis now \<le> calculate_expected_height genesis now'"
proof (cases "now < genesis")
  case False
  have "(now - genesis) div 600 \<le> (now' - genesis) div 600" using assms(1) by (intro zdiv_mono1) simp_all
  moreover have "0 \<le> (now - genesis) div 600" using False by (simp add: pos_imp_zdiv_nonneg_iff)
  moreover have "(now' - genesis) div 600 \<le> now' - genesis" using False assms(1) zdiv_mono2 [of "now' - genesis" 1 600] by simp
  then have "(now' - genesis) div 600 < 2 ^ 64" using assms(2) by (rule le_less_trans)
  ultimately show ?thesis using False assms(1)
    by (simp add: calculate_expected_height_def BLOCK_TIME_SECONDS_def word_le_def uint_word_of_int)
qed (simp add: calculate_expected_height_def)

text \<open>
  C17. A block accepted once is accepted from then on: when \<open>validate_block\<close> accepts a block at one
  time, it accepts it at any later time and at a node whose chain is not shorter, with the same
  predecessor. So a node with a slower clock can refuse a block for its time only for a while, and a
  block that passed is not refused when it is synchronised later. (Times are 64-bit seconds.)
\<close>

theorem accepted_block_stays_accepted:
  assumes ok: "validate_block X bin net now tip b prev = Inr ()"
    and later: "now \<le> now'" "now' < 2 ^ 63" "tip \<le> tip'"
  shows "validate_block X bin net now' tip' b prev = Inr ()"
proof -
  let ?g = "sint (genesis_timestamp net)" and ?h = "bh_height (blk_header b)"
  have g: "0 \<le> ?g" by (cases net) simp_all
  have mono: "calculate_expected_height ?g now \<le> calculate_expected_height ?g now'"
    "calculate_expected_height ?g (now + 10) \<le> calculate_expected_height ?g (now' + 10)"
    using later g by (auto intro!: expected_height_mono)
  have "calculate_expected_height ?g now \<le> ?h + 10" if "calculate_expected_height ?g now' \<le> ?h + 10"
    using mono(1) that by (rule order_trans)
  moreover have "tip < ?h + 10" if "tip' < ?h + 10" using later(3) that by (rule le_less_trans)
  moreover have "?h \<le> calculate_expected_height ?g (now' + 10)" if "?h \<le> calculate_expected_height ?g (now + 10)"
    using that mono(2) by (rule order_trans)
  ultimately show ?thesis using ok later(1) unfolding validate_block_exact Let_def by auto
qed

theorem accepted_block_stays_accepted_witness:
  "validate_block extern0 (\<lambda>_. Some []) Testnet 1800000000 7 block1 (Some zero_hash) = Inr ()"
  by (rule accepted_block_stays_accepted [OF block1_accepted]) simp_all

section \<open>A tip determines its chain\<close>

text \<open>The fields \<open>[u8; 32]\<close> of a header that the hash covers first have 32 bytes.\<close>

definition header_ok :: "BlockHeader \<Rightarrow> bool" where
  "header_ok h \<longleftrightarrow> length (bh_previous_hash h) = 32 \<and> length (bh_merkle_root h) = 32"

lemma header_bytes_prefix:
  assumes "header_ok h" "header_ok k" "header_bytes h = header_bytes k"
  shows "bh_height h = bh_height k" "bh_previous_hash h = bh_previous_hash k" "bh_merkle_root h = bh_merkle_root k"
    "bh_timestamp h = bh_timestamp k" "bh_block_reward h = bh_block_reward k"
  using assms unfolding header_bytes_def header_ok_def
  by (simp_all add: append_eq_split le_bytes_eq)

text \<open>What the hashes of a block are computed from.\<close>

definition tx_preimage :: "extern \<Rightarrow> Transaction \<Rightarrow> u8 list" where
  "tx_preimage X tx = tx_json X (tx\<lparr>tx_encrypted_memo := None\<rparr>)"

definition hashed_strings :: "extern \<Rightarrow> Block \<Rightarrow> u8 list set" where
  "hashed_strings X b = tx_preimage X ` set (blk_transactions b) \<union> merkle_inputs X (map (txid X) (blk_transactions b))"

lemma tree_input_length:
  assumes "s \<in> tree_inputs X t" "inner_ok n X t" "\<And>d. length (sha256 X d) = n"
  shows "length s = 2 * n"
  using assms by (induction t) (auto simp: tree_hash_length)

lemma merkle_input_length:
  assumes "s \<in> merkle_inputs X (map (txid X) txs)" and len: "\<And>d. length (sha256 X d) = 32"
  shows "length s = 64"
proof -
  let ?hs = "map (txid X) txs"
  have ne: "?hs \<noteq> []" and s: "s \<in> tree_inputs X (merkle_tree ?hs)"
    using assms(1) by (auto simp: merkle_inputs_def split: if_splits)
  have "inner_ok 32 X (merkle_tree ?hs)"
    using leaves_merkle_tree [OF ne] len by (auto simp: inner_ok_iff txid_def)
  from tree_input_length [OF s this len] show ?thesis by simp
qed

lemma same_root_same_txids:
  assumes len: "\<And>d. length (sha256 X d) = 32"
    and inj: "inj_on (sha256 X) (hashed_strings X b \<union> hashed_strings X c)"
    and zero: "zero_hash \<notin> sha256 X ` (hashed_strings X b \<union> hashed_strings X c)"
    and json: "\<forall>tx \<in> set (blk_transactions b) \<union> set (blk_transactions c). length (tx_preimage X tx) \<noteq> 64"
    and dist: "distinct (map (txid X) (blk_transactions b))" "distinct (map (txid X) (blk_transactions c))"
    and root: "calculate_merkle_root X (blk_transactions b) = calculate_merkle_root X (blk_transactions c)"
  shows "map (txid X) (blk_transactions b) = map (txid X) (blk_transactions c)"
proof -
  let ?xs = "map (txid X) (blk_transactions b)" and ?ys = "map (txid X) (blk_transactions c)"
  let ?S = "hashed_strings X b \<union> hashed_strings X c"
  let ?M = "merkle_inputs X ?xs \<union> merkle_inputs X ?ys"
  have M: "?M \<subseteq> ?S" by (auto simp: hashed_strings_def)
  have leaf: "\<exists>s \<in> ?S. h = sha256 X s \<and> length s \<noteq> 64" if "h \<in> set ?xs \<union> set ?ys" for h
    using that json by (auto simp: hashed_strings_def txid_def tx_preimage_def)
  have not_zero: "build_merkle_root X hs \<noteq> zero_hash" if "hs \<in> {?xs, ?ys}" "hs \<noteq> []" for hs
  proof (cases "merkle_tree hs")
    case (Leaf h)
    then have "h \<in> set ?xs \<union> set ?ys" using leaves_merkle_tree [OF that(2)] that(1) by auto
    with leaf zero show ?thesis unfolding root_is_tree_hash [OF that(2)] Leaf by auto
  next
    case (Node l r)
    then have "tree_hash X l @ tree_hash X r \<in> merkle_inputs X hs" using that(2) by (simp add: merkle_inputs_def)
    with that(1) M have "tree_hash X l @ tree_hash X r \<in> ?S" by auto
    from imageI [OF this, of "sha256 X"] show ?thesis
      using zero unfolding root_is_tree_hash [OF that(2)] Node by (metis tree_hash.simps(2))
  qed
  show ?thesis
  proof (cases "?xs = [] \<or> ?ys = []")
    case True
    with not_zero [of ?xs] not_zero [of ?ys] root show ?thesis
      by (auto simp: calculate_merkle_root_def build_merkle_root_def split: if_splits)
  next
    case False
    have "(set ?xs \<union> set ?ys) \<inter> sha256 X ` ?M = {}"
    proof (rule equals0I)
      fix h assume h: "h \<in> (set ?xs \<union> set ?ys) \<inter> sha256 X ` ?M"
      with leaf obtain s where s: "s \<in> ?S" "h = sha256 X s" "length s \<noteq> 64" by blast
      from h obtain u where u: "u \<in> ?M" "h = sha256 X u" by blast
      then have "length u = 64" using merkle_input_length [OF _ len] by blast
      moreover have "s = u" using inj s u M by (auto dest: inj_onD)
      ultimately show False using s by simp
    qed
    with False show ?thesis
      using dist len root inj_on_subset [OF inj M]
      by (intro roots_bind [where n = 32 and X = X]) (auto simp: calculate_merkle_root_def txid_def)
  qed
qed

lemma chain_links:
  "validate_chain_sequence X bin net now (p # c # bs) = Inr () \<longleftrightarrow>
     bh_height (blk_header c) = bh_height (blk_header p) + 1 \<and>
     bv_validate_block X bin net now c (Some (block_hash X p)) = Inr () \<and>
     sint (bh_timestamp (blk_header p)) \<le> sint (bh_timestamp (blk_header c)) \<and>
     validate_chain_sequence X bin net now (c # bs) = Inr ()"
  by (simp add: Let_def not_less)

lemma chain_tail_valid:
  "validate_chain_sequence X bin net now bs = Inr () \<Longrightarrow> b \<in> set (tl bs) \<Longrightarrow>
     calculate_merkle_root X (blk_transactions b) = bh_merkle_root (blk_header b)
     \<and> distinct (map (txid X) (blk_transactions b))"
proof (induction X bin net now bs rule: validate_chain_sequence.induct)
  case (1 X bin net now p c bs)
  note v = 1(2) [unfolded chain_links bv_validate_block_iff]
  show ?case
  proof (cases "b = c")
    case False
    then have "b \<in> set bs" using 1(3) by simp
    with v 1(1) [OF refl refl] show ?thesis by (simp add: Let_def not_less)
  qed (use v in simp)
qed auto

text \<open>The two chains the lemmas below compare, and what they rely on.\<close>

definition no_collisions :: "extern \<Rightarrow> Block set \<Rightarrow> bool" where
  "no_collisions X B \<longleftrightarrow> (\<forall>d. length (sha256 X d) = 32) \<and> (\<forall>b \<in> B. header_ok (blk_header b)) \<and>
     inj_on (blake3 X) (header_bytes ` blk_header ` B) \<and> inj_on (sha256 X) (\<Union>b \<in> B. hashed_strings X b) \<and>
     zero_hash \<notin> sha256 X ` (\<Union>b \<in> B. hashed_strings X b) \<and>
     (\<forall>b \<in> B. \<forall>tx \<in> set (blk_transactions b). length (tx_preimage X tx) \<noteq> 64)"

lemma same_hash_same_header:
  assumes "no_collisions X B" "b \<in> B" "c \<in> B" "block_hash X b = block_hash X c"
  shows "header_bytes (blk_header b) = header_bytes (blk_header c)" "header_ok (blk_header b)" "header_ok (blk_header c)"
  using assms by (auto simp: no_collisions_def block_hash_def dest: inj_onD)

lemma chain_hashes:
  assumes "length bs = length cs" "no_collisions X (set bs \<union> set cs \<union> B)"
    and "validate_chain_sequence X bin net now bs = Inr ()" "validate_chain_sequence X bin net now cs = Inr ()"
    and "bs \<noteq> []" "block_hash X (last bs) = block_hash X (last cs)"
  shows "list_all2 (\<lambda>b c. block_hash X b = block_hash X c) bs cs"
  using assms
proof (induction bs cs arbitrary: B rule: list_induct2)
  case (Cons p ps q qs)
  show ?case
  proof (cases ps)
    case Nil
    with Cons show ?thesis by simp
  next
    case (Cons b bs)
    with Cons.hyps obtain c cs where qs: "qs = c # cs" by (cases qs) auto
    note ps = Cons
    note v = Cons.prems(2) [unfolded ps chain_links] Cons.prems(3) [unfolded qs chain_links]
    have "set (p # ps) \<union> set (q # qs) \<union> B = set ps \<union> set qs \<union> insert p (insert q B)" by auto
    with Cons.prems(1) have nc: "no_collisions X (set ps \<union> set qs \<union> insert p (insert q B))" by simp
    have IH: "list_all2 (\<lambda>b c. block_hash X b = block_hash X c) ps qs"
      by (rule Cons.IH [OF nc]) (use v ps qs Cons.prems(5) in simp_all)
    then have "block_hash X b = block_hash X c" using ps qs by simp
    then have "bh_previous_hash (blk_header b) = bh_previous_hash (blk_header c)"
      using same_hash_same_header [OF nc, of b c] ps qs by (intro header_bytes_prefix(2)) simp_all
    with v have "block_hash X p = block_hash X q" by (simp add: bv_validate_block_iff)
    with IH show ?thesis by simp
  qed
qed simp

lemma no_collisions_pair:
  assumes nc: "no_collisions X B" and bc: "b \<in> B" "c \<in> B"
    and val: "calculate_merkle_root X (blk_transactions b) = bh_merkle_root (blk_header b)
      \<and> distinct (map (txid X) (blk_transactions b))"
      "calculate_merkle_root X (blk_transactions c) = bh_merkle_root (blk_header c)
      \<and> distinct (map (txid X) (blk_transactions c))"
    and root: "bh_merkle_root (blk_header b) = bh_merkle_root (blk_header c)"
  shows "map (txid X) (blk_transactions b) = map (txid X) (blk_transactions c)"
proof -
  have sub: "hashed_strings X b \<union> hashed_strings X c \<subseteq> (\<Union>b \<in> B. hashed_strings X b)" using bc by auto
  show ?thesis
    using nc bc val root inj_on_subset [OF _ sub] image_mono [OF sub, of "sha256 X"]
    unfolding no_collisions_def by (intro same_root_same_txids [where X = X]) auto
qed

text \<open>
  C13. Two chains of the same length that pass the validator and end in blocks with the same hash
  are the same chain as far as hashes bind it: block by block they agree on hash, height, time and
  Merkle root, and from the second block on their transactions have the same identifiers in the same
  order. (Neither a block's hash nor a transaction's identifier covers everything: rewards and memos
  may differ.) Only the strings that are hashed along the two chains must not collide, none may hash
  to the zero root, and no transaction serializes to exactly the 64 bytes of an inner Merkle node.
\<close>

theorem tip_determines_chain:
  assumes "length bs = length cs" "no_collisions X (set bs \<union> set cs)" "bs \<noteq> []"
    and v: "validate_chain_sequence X bin net now bs = Inr ()" "validate_chain_sequence X bin net now cs = Inr ()"
    and "block_hash X (last bs) = block_hash X (last cs)"
  shows "map (block_hash X) bs = map (block_hash X) cs \<and>
    map (\<lambda>b. (bh_height (blk_header b), bh_timestamp (blk_header b), bh_merkle_root (blk_header b))) bs =
    map (\<lambda>b. (bh_height (blk_header b), bh_timestamp (blk_header b), bh_merkle_root (blk_header b))) cs \<and>
    map (\<lambda>b. map (txid X) (blk_transactions b)) (tl bs) = map (\<lambda>b. map (txid X) (blk_transactions b)) (tl cs)"
proof -
  have eq: "list_all2 (\<lambda>b c. block_hash X b = block_hash X c) bs cs"
    using chain_hashes [of bs cs X "{}"] assms by simp
  have hdr: "bh_height (blk_header b) = bh_height (blk_header c) \<and> bh_timestamp (blk_header b) = bh_timestamp (blk_header c)
      \<and> bh_merkle_root (blk_header b) = bh_merkle_root (blk_header c)"
    if "b \<in> set bs" "c \<in> set cs" "block_hash X b = block_hash X c" for b c
    using same_hash_same_header [OF assms(2) _ _ that(3)] that(1,2) by (auto dest: header_bytes_prefix)
  have nth: "block_hash X (bs ! i) = block_hash X (cs ! i)" "bs ! i \<in> set bs" "cs ! i \<in> set cs" if "i < length bs" for i
    using eq that assms(1) by (auto simp: list_all2_conv_all_nth)
  have txs: "map (txid X) (blk_transactions (tl bs ! i)) = map (txid X) (blk_transactions (tl cs ! i))"
    if i: "i < length (tl bs)" for i
  proof (rule no_collisions_pair [OF assms(2)])
    have n: "tl bs ! i = bs ! Suc i" "tl cs ! i = cs ! Suc i" "Suc i < length bs"
      using i assms(1) by (auto simp: nth_tl)
    show "bh_merkle_root (blk_header (tl bs ! i)) = bh_merkle_root (blk_header (tl cs ! i))"
      unfolding n using hdr [OF nth(2,3,1)] n(3) by blast
    show "tl bs ! i \<in> set bs \<union> set cs" "tl cs ! i \<in> set bs \<union> set cs" unfolding n using nth(2,3) n(3) by blast+
  qed (rule chain_tail_valid [OF v(1)] chain_tail_valid [OF v(2)]; use i assms(1) in simp)+
  show ?thesis
    using assms(1) nth hdr txs by (auto intro!: nth_equalityI)
qed

definition chain1 :: "Block list" where
  "chain1 = (let g = block1\<lparr>blk_header := (blk_header block1)\<lparr>bh_height := 0\<rparr>\<rparr> in
     [g, block1\<lparr>blk_header := (blk_header block1)\<lparr>bh_previous_hash := block_hash extern0 g, bh_treasury_balance := 7\<rparr>\<rparr>])"

definition chain2 :: "Block list" where
  "chain2 = map (\<lambda>b. b\<lparr>blk_masternode_rewards := []\<rparr>) chain1"

lemma chain1_facts:
  "set (map blk_header chain1) \<union> set (map blk_header chain2) = set (map blk_header chain1)"
  "list_all (\<lambda>b. blk_transactions b = []) (chain1 @ chain2)"
  "distinct (map (\<lambda>b. blake3 extern0 (header_bytes (blk_header b))) chain1)"
  "list_all (\<lambda>b. length (bh_previous_hash (blk_header b)) = 32 \<and> length (bh_merkle_root (blk_header b)) = 32) (chain1 @ chain2)"
  by (simp_all add: chain2_def comp_def) (code_simp+)

lemma chain1_no_collisions: "no_collisions extern0 (set chain1 \<union> set chain2)"
proof -
  have "inj_on (blake3 extern0) (header_bytes ` set (map blk_header chain1))"
    using chain1_facts(3) by (auto simp: distinct_map inj_on_def)
  moreover have "blk_header ` (set chain1 \<union> set chain2) = set (map blk_header chain1)"
    using chain1_facts(1) by (simp add: image_Un)
  ultimately show ?thesis
    using chain1_facts(2,4)
    by (auto simp: no_collisions_def header_ok_def hashed_strings_def merkle_inputs_def list_all_iff)
qed

theorem tip_determines_chain_witness:
  "map (block_hash extern0) chain1 = map (block_hash extern0) chain2 \<and>
    map (\<lambda>b. (bh_height (blk_header b), bh_timestamp (blk_header b), bh_merkle_root (blk_header b))) chain1 =
    map (\<lambda>b. (bh_height (blk_header b), bh_timestamp (blk_header b), bh_merkle_root (blk_header b))) chain2 \<and>
    map (\<lambda>b. map (txid extern0) (blk_transactions b)) (tl chain1) = map (\<lambda>b. map (txid extern0) (blk_transactions b)) (tl chain2)"
proof (rule tip_determines_chain [OF _ chain1_no_collisions])
  show "validate_chain_sequence extern0 (\<lambda>_. Some []) Testnet 1764547800 chain1 = Inr ()"
    "validate_chain_sequence extern0 (\<lambda>_. Some []) Testnet 1764547800 chain2 = Inr ()"
    by (simp_all add: chain1_def chain2_def Let_def block_hash_def bv_validate_block_iff validate_timestamp_def
        calculate_merkle_root_def build_merkle_root_def block1_def header_default_def TIMESTAMP_TOLERANCE_SECS_def)
qed (simp_all add: chain1_def chain2_def Let_def block_hash_def)

text \<open>
  The hash does not bind the fields after the reward one by one: the leader's name and the bitmap
  have no length before them, so a byte can move from one to the other.
\<close>

lemma header_bytes_ambiguous:
  "header_bytes (h\<lparr>bh_leader := ''a'', bh_vrf_output := replicate 32 97, bh_vrf_score := 0x6161616161616161,
       bh_active_masternodes_bitmap := [97]\<rparr>) =
   header_bytes (h\<lparr>bh_leader := ''aa'', bh_vrf_output := replicate 32 97, bh_vrf_score := 0x6161616161616161,
       bh_active_masternodes_bitmap := []\<rparr>)"
proof -
  have s: "le_bytes 8 (0x6161616161616161 :: u64) = replicate 8 97" by code_simp
  have a: "as_bytes ''a'' = [97]" "as_bytes ''aa'' = [97, 97]" by code_simp+
  show ?thesis unfolding header_bytes_def by (simp add: s a) (simp add: eval_nat_numeral)
qed

end
