(* ===== verification/Genesis.thy ===== *)
theory Genesis
  imports Block_Validation Rewards
begin

text \<open>
  Where blocks come from: the fixed genesis blocks and their checks (\<open>src/block/genesis.rs\<close>, the
  hashes of \<open>src/constants.rs\<close> and the checkpoints of \<open>src/blockchain.rs\<close>) and the deterministic
  block generator (\<open>src/block/generator.rs\<close>). Times are seconds of the system clock, as integers;
  a call that panics is \<open>None\<close>. Which seconds \<open>chrono\<close> can represent is a parameter.
\<close>

section \<open>Genesis blocks\<close>

definition TESTNET_GENESIS_HASH :: "string option" where
  "TESTNET_GENESIS_HASH = Some ''b9523431d4e59a1b41d757a8c0f01ed023c11123761b1455e4644ef9d5599ff6''"

definition MAINNET_GENESIS_HASH :: "string option" where
  "MAINNET_GENESIS_HASH = Some ''45181d4c65a3a2bcc2215d037267bee4cc2248f21764466846d2b7218b601ce5''"

record GenesisMasternode =
  gm_address :: string
  gm_tier :: MasternodeTier

datatype GenesisReject =
    NotHeightZero | NonzeroPrevious | RewardMismatch u64 u64 | TimestampMismatch i64 i64 | CheckpointDiffers

definition verify_rewards :: "Block \<Rightarrow> GenesisReject + unit" where
  "verify_rewards b =
     (let total_reward = bh_block_reward (blk_header b); distributed = sum_list (map snd (blk_masternode_rewards b))
      in if blk_masternode_rewards b = [] then Inr ()
         else if distributed \<noteq> total_reward then Inl (RewardMismatch distributed total_reward) else Inr ())"

definition verify_structure :: "Block \<Rightarrow> GenesisReject + unit" where
  "verify_structure b =
     (if bh_height (blk_header b) \<noteq> 0 then Inl NotHeightZero
      else if bh_previous_hash (blk_header b) \<noteq> zero_hash then Inl NonzeroPrevious
      else verify_rewards b)"

fun genesis_block_timestamp :: "NetworkType \<Rightarrow> i64" where
  "genesis_block_timestamp Testnet = 1764547200"
| "genesis_block_timestamp Mainnet = 1776211200"

definition verify_genesis_timestamp :: "Block \<Rightarrow> NetworkType \<Rightarrow> GenesisReject + unit" where
  "verify_genesis_timestamp b net =
     (if bh_timestamp (blk_header b) \<noteq> genesis_block_timestamp net
      then Inl (TimestampMismatch (genesis_block_timestamp net) (bh_timestamp (blk_header b))) else Inr ())"

fun genesis_block_reward :: "NetworkType \<Rightarrow> u64" where
  "genesis_block_reward Testnet = 10000000000"
| "genesis_block_reward Mainnet = 10000000000"

fun share_rewards :: "u64 \<Rightarrow> u64 \<Rightarrow> u64 \<Rightarrow> GenesisMasternode list \<Rightarrow> (string \<times> u64) list" where
  "share_rewards total_reward total_weight distributed [] = []"
| "share_rewards total_reward total_weight distributed [mn] = [(gm_address mn, total_reward - distributed)]"
| "share_rewards total_reward total_weight distributed (mn # mns) =
     (let share = total_reward * reward_weight (gm_tier mn) div total_weight
      in (gm_address mn, share) # share_rewards total_reward total_weight (distributed + share) mns)"

definition calculate_rewards :: "u64 \<Rightarrow> GenesisMasternode list \<Rightarrow> (string \<times> u64) list" where
  "calculate_rewards total_reward mns =
     (let total_weight = sum_list (map (\<lambda>mn. reward_weight (gm_tier mn)) mns)
      in if mns = [] then [] else if total_weight = 0 then []
         else share_rewards total_reward total_weight 0 mns)"

definition testnet_genesis :: Block where
  "testnet_genesis = \<lparr>blk_header = header_default\<lparr>bh_version := 1, bh_timestamp := 1764547200,
       bh_leader := ''165.232.154.150'', bh_masternode_tiers := tier_counts_default\<lparr>tc_free := 6\<rparr>,
       bh_block_reward := 10000000000, bh_active_masternodes_bitmap := [0xFC],
       bh_liveness_recovery := Some False, bh_treasury_balance := 500000000\<rparr>,
     blk_transactions = [],
     blk_masternode_rewards = [(''64.91.241.10'', 0), (''178.128.199.144'', 0), (''50.28.104.50'', 0),
       (''165.84.215.117'', 0), (''165.232.154.150'', 10000000000), (''69.167.168.176'', 0)],
     blk_time_attestations = [], blk_consensus_participants_bitmap = [], blk_liveness_recovery = Some False\<rparr>"

definition mainnet_genesis :: Block where
  "mainnet_genesis = \<lparr>blk_header = header_default\<lparr>bh_version := 1, bh_timestamp := 1776211200,
       bh_block_reward := 10000000000, bh_liveness_recovery := Some False, bh_treasury_balance := 10000000000\<rparr>,
     blk_transactions = [], blk_masternode_rewards = [],
     blk_time_attestations = [], blk_consensus_participants_bitmap = [], blk_liveness_recovery = Some False\<rparr>"

definition verify_checkpoint :: "extern \<Rightarrow> Block \<Rightarrow> NetworkType \<Rightarrow> GenesisReject + unit" where
  "verify_checkpoint X b net =
     (case (case net of Testnet \<Rightarrow> TESTNET_GENESIS_HASH | Mainnet \<Rightarrow> MAINNET_GENESIS_HASH) of
        Some expected \<Rightarrow> if hex_encode X (block_hash X b) \<noteq> expected then Inl CheckpointDiffers else Inr ()
      | None \<Rightarrow> Inr ())"

section \<open>Checkpoints\<close>

definition MAINNET_CHECKPOINTS :: "(u64 \<times> string) list" where
  "MAINNET_CHECKPOINTS = [(0, replicate 64 (CHR ''0''))]"

definition TESTNET_CHECKPOINTS :: "(u64 \<times> string) list" where
  "TESTNET_CHECKPOINTS = [(0, replicate 64 (CHR ''0''))]"

fun get_checkpoints :: "NetworkType \<Rightarrow> (u64 \<times> string) list" where
  "get_checkpoints Mainnet = MAINNET_CHECKPOINTS"
| "get_checkpoints Testnet = TESTNET_CHECKPOINTS"

definition is_checkpoint :: "NetworkType \<Rightarrow> u64 \<Rightarrow> bool" where
  "is_checkpoint net height = list_ex (\<lambda>(h, _). h = height) (get_checkpoints net)"

datatype CheckpointReject = BadCheckpointHex | BadCheckpointLength nat | CheckpointFailed u64

definition validate_checkpoint :: "extern \<Rightarrow> NetworkType \<Rightarrow> u64 \<Rightarrow> hash256 \<Rightarrow> CheckpointReject + unit" where
  "validate_checkpoint X net height hash =
     (case find (\<lambda>(h, _). h = height) (get_checkpoints net) of
        Some (_, s) \<Rightarrow>
          (case hex_decode X s of None \<Rightarrow> Inl BadCheckpointHex
           | Some expected \<Rightarrow>
               if length expected \<noteq> 32 then Inl (BadCheckpointLength (length expected))
               else if hash \<noteq> expected then Inl (CheckpointFailed height) else Inr ())
      | None \<Rightarrow> Inr ())"

definition find_last_checkpoint_before :: "NetworkType \<Rightarrow> u64 \<Rightarrow> u64 option" where
  "find_last_checkpoint_before net height =
     (case filter (\<lambda>h. h \<le> height) (map fst (get_checkpoints net)) of [] \<Rightarrow> None | hs \<Rightarrow> Some (Max (set hs)))"

section \<open>The clock of the generator\<close>

definition minute_of :: "int \<Rightarrow> int" where "minute_of now = now div 60 mod 60"
definition hour_of :: "int \<Rightarrow> int" where "hour_of now = now div 3600 mod 24"

text \<open>\<open>date_naive().and_hms_opt(h, m, 0)\<close> on the day of \<open>now\<close>.\<close>

definition and_hms :: "int \<Rightarrow> int \<Rightarrow> int \<Rightarrow> int option" where
  "and_hms now h m = (if h < 24 \<and> m < 60 then Some (now div 86400 * 86400 + h * 3600 + m * 60) else None)"

definition aligned_timestamp :: "int \<Rightarrow> int option" where
  "aligned_timestamp now = and_hms now (hour_of now) (minute_of now div 10 * 10)"

definition next_block_time :: "int \<Rightarrow> int option" where
  "next_block_time now =
     (let aligned_minute = (minute_of now div 10 + 1) * 10
      in if aligned_minute \<ge> 60 then and_hms now (hour_of now + 1) 0 else and_hms now (hour_of now) aligned_minute)"

datatype BlockTimeReject = InTheFuture int | NotRepresentable | NotAligned int

definition validate_block_time :: "(int \<Rightarrow> bool) \<Rightarrow> int \<Rightarrow> int \<Rightarrow> BlockTimeReject + unit" where
  "validate_block_time representable now ts =
     (if ts > now + 5 then Inl (InTheFuture ts)
      else if \<not> representable ts then Inl NotRepresentable
      else if minute_of ts mod 10 \<noteq> 0 then Inl (NotAligned (minute_of ts))
      else Inr ())"

section \<open>The generator\<close>

definition fee_map :: "extern \<Rightarrow> Transaction list \<Rightarrow> u64 list \<Rightarrow> hash256 \<Rightarrow> u64 option" where
  "fee_map X txs fees = fold (\<lambda>(tx, fee) m. m(txid X tx \<mapsto> fee)) (zip txs fees) Map.empty"

definition collected_fees :: "extern \<Rightarrow> (hash256 \<Rightarrow> u64 option) \<Rightarrow> Transaction list \<Rightarrow> u64" where
  "collected_fees X fees txs = sum_list (map (\<lambda>tx. case fees (txid X tx) of None \<Rightarrow> 0 | Some f \<Rightarrow> f)
     (filter (\<lambda>tx. tx_inputs tx \<noteq> []) txs))"

definition reward_dest :: "Masternode \<times> string \<Rightarrow> string" where
  "reward_dest e = (case e of (mn, reward_addr) \<Rightarrow> if reward_addr \<noteq> [] then reward_addr else mn_wallet_address mn)"

fun distribute ::
    "u64 \<Rightarrow> u64 \<Rightarrow> u64 \<Rightarrow> (Masternode \<times> string) list \<Rightarrow> (string \<times> u64) list \<Rightarrow> (string \<times> u64) list" where
  "distribute pool total_weight distributed [] rewards = rewards"
| "distribute pool total_weight distributed (e # es) rewards =
     (let reward = (if es = [] then pool - distributed else pool * reward_weight (mn_tier (fst e)) div total_weight)
      in if reward > 0 then distribute pool total_weight (distributed + reward) es (push_reward (reward_dest e) reward rewards)
         else distribute pool total_weight distributed es rewards)"

definition generated_rewards :: "u64 \<Rightarrow> (Masternode \<times> string) list \<Rightarrow> (string \<times> u64) list" where
  "generated_rewards pool mns =
     (let total_weight = sum_list (map (\<lambda>(mn, _). reward_weight (mn_tier mn)) mns)
      in if total_weight > 0 \<and> mns \<noteq> [] then distribute pool total_weight 0 mns [] else [])"

definition coinbase_marker :: "int \<Rightarrow> Transaction" where
  "coinbase_marker timestamp = \<lparr>tx_version = 1, tx_inputs = [], tx_outputs = [], tx_lock_time = 0,
     tx_timestamp = word_of_int timestamp, tx_special_data = None, tx_encrypted_memo = None\<rparr>"

definition generate ::
    "extern \<Rightarrow> int \<Rightarrow> u64 \<Rightarrow> hash256 \<Rightarrow> Transaction list \<Rightarrow> u64 list \<Rightarrow> (Masternode \<times> string) list \<Rightarrow> Block option" where
  "generate X now height prev final_transactions fees masternodes =
     (case aligned_timestamp now of None \<Rightarrow> None
      | Some timestamp \<Rightarrow>
          (let mns = sort_key (\<lambda>(mn, _). mn_address mn) masternodes;
               txs = sort_key (txid X) final_transactions;
               total_reward = BLOCK_REWARD_SATOSHIS + collected_fees X (fee_map X final_transactions fees) txs;
               all_txs = coinbase_marker timestamp # txs
           in Some \<lparr>blk_header = header_default\<lparr>bh_version := 2, bh_height := height, bh_previous_hash := prev,
                  bh_merkle_root := calculate_merkle_root X all_txs, bh_timestamp := word_of_int timestamp,
                  bh_block_reward := total_reward\<rparr>,
                blk_transactions = all_txs, blk_masternode_rewards = generated_rewards total_reward mns,
                blk_time_attestations = [], blk_consensus_participants_bitmap = [],
                blk_liveness_recovery = Some False\<rparr>))"

section \<open>Block times\<close>

lemma div_by_parts: "0 \<le> r \<Longrightarrow> r < c \<Longrightarrow> (c * q + r) div c = q" "0 \<le> r \<Longrightarrow> r < c \<Longrightarrow> (c * q + r) mod c = r"
  for q r c :: int
  by simp_all

lemma clock_split:
  obtains d h k m t :: int where "now = 86400 * d + (3600 * h + (600 * k + (60 * m + t)))"
    "0 \<le> h" "h < 24" "0 \<le> k" "k < 6" "0 \<le> m" "m < 10" "0 \<le> t" "t < 60"
proof
  let ?r = "now mod 86400" let ?s = "?r mod 3600" let ?u = "?s mod 600"
  show "now = 86400 * (now div 86400) + (3600 * (?r div 3600) + (600 * (?s div 600) + (60 * (?u div 60) + ?u mod 60)))"
    by (simp only: mult_div_mod_eq)
  show "0 \<le> ?r div 3600" "0 \<le> ?s div 600" "0 \<le> ?u div 60" by (simp_all add: pos_imp_zdiv_nonneg_iff)
  show "?r div 3600 < 24" using pos_mod_bound [of 86400 now] by linarith
  show "?s div 600 < 6" using pos_mod_bound [of 3600 ?r] by linarith
  show "?u div 60 < 10" using pos_mod_bound [of 600 ?s] by linarith
qed simp_all

lemma clock_parts:
  fixes d h k m t :: int
  assumes now: "now = 86400 * d + (3600 * h + (600 * k + (60 * m + t)))"
    and b: "0 \<le> h" "h < 24" "0 \<le> k" "k < 6" "0 \<le> m" "m < 10" "0 \<le> t" "t < 60"
  shows "now div 86400 = d" "now mod 86400 = 3600 * h + (600 * k + (60 * m + t))"
    "hour_of now = h" "minute_of now = 10 * k + m" "now div 600 = 144 * d + 6 * h + k"
proof -
  show "now div 86400 = d" "now mod 86400 = 3600 * h + (600 * k + (60 * m + t))"
    unfolding now using b by (intro div_by_parts; linarith)+
  have "now = 3600 * (24 * d + h) + (600 * k + (60 * m + t))" using now by simp
  then have "now div 3600 = 24 * d + h" using b by (simp only:) (intro div_by_parts; linarith)
  then show "hour_of now = h" unfolding hour_of_def using b by (simp only:) (intro div_by_parts; linarith)
  have "now = 60 * (60 * (24 * d + h) + (10 * k + m)) + t" using now by simp
  then have "now div 60 = 60 * (24 * d + h) + (10 * k + m)" using b by (simp only:) (intro div_by_parts; linarith)
  then show "minute_of now = 10 * k + m" unfolding minute_of_def using b by (simp only:) (intro div_by_parts; linarith)
  have "now = 600 * (144 * d + 6 * h + k) + (60 * m + t)" using now by simp
  then show "now div 600 = 144 * d + 6 * h + k" using b by (simp only:) (intro div_by_parts; linarith)
qed

lemma aligned_timestamp_eq: "aligned_timestamp now = Some (600 * (now div 600))"
proof -
  obtain d h k m t where now: "now = 86400 * d + (3600 * h + (600 * k + (60 * m + t)))"
    and b: "0 \<le> h" "h < 24" "0 \<le> k" "k < 6" "0 \<le> m" "m < 10" "0 \<le> t" "t < 60" by (rule clock_split)
  note c = clock_parts [OF now b]
  have "(10 * k + m) div 10 = k" using b by (intro div_by_parts)
  then show ?thesis using b by (simp add: aligned_timestamp_def and_hms_def c)
qed

lemma aligned_minute: "minute_of (600 * (now div 600)) mod 10 = 0"
proof -
  obtain d h k m t where now: "now = 86400 * d + (3600 * h + (600 * k + (60 * m + t)))"
    and b: "0 \<le> h" "h < 24" "0 \<le> k" "k < 6" "0 \<le> m" "m < 10" "0 \<le> t" "t < 60" by (rule clock_split)
  have "600 * (now div 600) = 86400 * d + (3600 * h + (600 * k + (60 * 0 + 0)))"
    using clock_parts(5) [OF now b] by simp
  from clock_parts(4) [OF this b(1-4)] show ?thesis by simp
qed

text \<open>
  The next block time is the next multiple of ten minutes, except in the last ten minutes of
  a day (UTC), when the computation asks for the hour 24 of the same day and panics.
\<close>

theorem next_block_time_exact:
  "next_block_time now = (if now mod 86400 < 85800 then Some (600 * (now div 600 + 1)) else None)"
proof -
  obtain d h k m t where now: "now = 86400 * d + (3600 * h + (600 * k + (60 * m + t)))"
    and b: "0 \<le> h" "h < 24" "0 \<le> k" "k < 6" "0 \<le> m" "m < 10" "0 \<le> t" "t < 60" by (rule clock_split)
  note c = clock_parts [OF now b]
  have k: "(10 * k + m) div 10 = k" using b by (intro div_by_parts)
  have "now mod 86400 < 85800 \<longleftrightarrow> \<not> (h = 23 \<and> k = 5)" unfolding c using b by auto
  then show ?thesis using b by (simp add: next_block_time_def and_hms_def c k Let_def)
qed

section \<open>Determinism of the generator\<close>

lemma fold_map_upd:
  "fold (\<lambda>(tx, fee) m. m(txid X tx \<mapsto> fee)) ps m = m ++ map_of (rev (map (\<lambda>(tx, fee). (txid X tx, fee)) ps))"
  by (induction ps arbitrary: m) (auto simp: map_add_def fun_eq_iff split: option.splits)

lemma fee_map_alt: "fee_map X txs fees = map_of (rev (map (\<lambda>(tx, fee). (txid X tx, fee)) (zip txs fees)))"
  by (simp add: fee_map_def fold_map_upd)

lemma fee_map_perm:
  assumes m: "mset (zip txs fees) = mset (zip txs' fees')" and len: "length fees = length txs"
    and d: "distinct (map (txid X) txs)"
  shows "fee_map X txs fees = fee_map X txs' fees'"
proof -
  let ?f = "\<lambda>(tx, fee). (txid X tx, fee :: u64)"
  have fst: "map fst (rev (map ?f ps)) = rev (map (txid X) (map fst ps))" for ps
    by (simp add: rev_map case_prod_unfold comp_def)
  have "mset (map (txid X) (map fst (zip txs fees))) = mset (map (txid X) (map fst (zip txs' fees')))"
    using m by (metis mset_map)
  moreover have "distinct (map (txid X) (map fst (zip txs fees)))" using d len by simp
  ultimately have d': "distinct (map (txid X) (map fst (zip txs' fees')))" "distinct (map (txid X) (map fst (zip txs fees)))"
    by (metis mset_eq_imp_distinct_iff)+
  have "set (zip txs fees) = set (zip txs' fees')" using m by (metis set_mset_mset)
  then show ?thesis
    unfolding fee_map_alt using d'
    by (subst map_of_inject_set) (simp_all only: fst distinct_rev set_rev set_map)
qed

text \<open>
  The generator does not depend on the order in which a node holds the transactions, their
  fees and the masternodes: two nodes with the same content build the same block.
\<close>

theorem generate_order_independent:
  assumes "mset (zip txs fees) = mset (zip txs' fees')" "length fees = length txs" "length fees' = length txs'"
    and "distinct (map (txid X) txs)"
    and "mset mns = mset mns'" "distinct (map (\<lambda>(mn, _). mn_address mn) mns)"
  shows "generate X now height prev txs fees mns = generate X now height prev txs' fees' mns'"
proof -
  have "mset (map fst (zip txs fees)) = mset (map fst (zip txs' fees'))" using assms(1) by (metis mset_map)
  then have "mset txs = mset txs'" using assms(2,3) by simp
  then have "sort_key (txid X) txs = sort_key (txid X) txs'"
    using assms(4) by (intro sort_key_perm) (auto simp: distinct_map)
  moreover have "sort_key (\<lambda>(mn, _). mn_address mn) mns = sort_key (\<lambda>(mn, _). mn_address mn) mns'"
    using assms(5,6) by (intro sort_key_perm) (auto simp: distinct_map)
  ultimately show ?thesis
    using fee_map_perm [OF assms(1,2,4)] by (simp add: generate_def aligned_timestamp_eq)
qed

definition tx_with :: "u32 \<Rightarrow> Transaction" where
  "tx_with v = \<lparr>tx_version = v, tx_inputs = [\<lparr>in_previous_output = \<lparr>op_txid = replicate 32 1, op_vout = 0\<rparr>,
       in_script_sig = [], in_sequence = 0\<rparr>], tx_outputs = [], tx_lock_time = 0, tx_timestamp = 0,
     tx_special_data = None, tx_encrypted_memo = None\<rparr>"

definition extern_v :: extern where
  "extern_v = extern0\<lparr>tx_json := (\<lambda>tx. [ucast (tx_version tx)])\<rparr>"

definition node_at :: "string \<Rightarrow> MasternodeTier \<Rightarrow> Masternode" where
  "node_at a t = new_legacy a ''TIME1'' 0 [] t 0"

lemma tx_with_ids: "txid extern_v (tx_with 1) \<noteq> txid extern_v (tx_with 2)"
  by code_simp

theorem generate_order_independent_witness:
  "generate extern_v 1764548000 1 zero_hash [tx_with 1, tx_with 2] [5, 6] [(node_at ''b'' Gold, []), (node_at ''a'' Free, ''TIME2'')] =
   generate extern_v 1764548000 1 zero_hash [tx_with 2, tx_with 1] [6, 5] [(node_at ''a'' Free, ''TIME2''), (node_at ''b'' Gold, [])]"
  by (rule generate_order_independent) (simp_all add: tx_with_ids node_at_def new_legacy_def)

section \<open>The rewards of a generated block\<close>

lemma sum_push: "sum_list (map snd (push_reward a x rs)) = sum_list (map snd rs) + x"
  by (induction a x rs rule: push_reward.induct) (auto simp: algebra_simps)

lemma distribute_sum:
  "es \<noteq> [] \<Longrightarrow> sum_list (map snd (distribute pool tw d es rs)) = sum_list (map snd rs) + (pool - d)"
proof (induction pool tw d es rs rule: distribute.induct)
  case (2 pool tw d e es rs)
  then show ?case by (cases "es = []") (auto simp: Let_def sum_push algebra_simps word_gt_0)
qed simp

lemma share_sum: "mns \<noteq> [] \<Longrightarrow> sum_list (map snd (share_rewards pool tw d mns)) = pool - d"
  by (induction pool tw d mns rule: share_rewards.induct) (auto simp: Let_def algebra_simps)

lemma share_step:
  fixes pool tw d w :: u64
  assumes "unat w \<le> 60" "unat pool * 60 < 2 ^ 64" "W + unat w \<le> unat tw" "0 < unat tw"
    and "unat d * unat tw \<le> unat pool * W"
  shows "(unat d + unat (pool * w div tw)) * unat tw \<le> unat pool * (W + unat w)"
    "unat d + unat (pool * w div tw) \<le> unat pool"
proof -
  have "unat pool * unat w \<le> unat pool * 60" using assms(1) by simp
  then have "unat pool * unat w < 2 ^ 64" using assms(2) by linarith
  then have r: "unat (pool * w div tw) = unat pool * unat w div unat tw" by (simp add: unat_div unat_word_ariths)
  have "unat (pool * w div tw) * unat tw \<le> unat pool * unat w" unfolding r by simp
  then show acc: "(unat d + unat (pool * w div tw)) * unat tw \<le> unat pool * (W + unat w)"
    using assms(5) by (simp add: algebra_simps)
  also have "\<dots> \<le> unat pool * unat tw" using assms(3) by (intro mult_le_mono2)
  finally show "unat d + unat (pool * w div tw) \<le> unat pool" using assms(4) by simp
qed

lemma distribute_paid:
  assumes "es \<noteq> []" "W + sum_list (map (\<lambda>(mn, _). unat (reward_weight (mn_tier mn))) es) = unat tw" "0 < unat tw"
    and "unat d * unat tw \<le> unat pool * W" "unat d \<le> unat pool" "paid rs = unat d" "unat pool * 60 < 2 ^ 64"
  shows "paid (distribute pool tw d es rs) = unat pool"
  using assms
proof (induction pool tw d es rs arbitrary: W rule: distribute.induct)
  case (2 pool tw d e es rs)
  let ?w = "reward_weight (mn_tier (fst e))" let ?r = "pool * ?w div tw"
  have pool: "unat pool < 2 ^ 64" by (rule order_less_le_trans [OF unsigned_less]) simp
  have push: "paid (push_reward a x rs) = unat d + unat x" if "unat d + unat x \<le> unat pool" for a x
    using that pool 2(8) paid_push [of rs x] by simp
  show ?case
  proof (cases "es = []")
    case True
    have "unat (pool - d) = unat pool - unat d" using 2(7) by (simp add: unat_sub word_le_nat_alt)
    then show ?thesis
      using True 2(7,8) push [of "pool - d"] by (auto simp: Let_def word_gt_0)
  next
    case False
    have w: "unat ?w \<le> 60" by (cases "mn_tier (fst e)") auto
    have W: "W + unat ?w + sum_list (map (\<lambda>(mn, _). unat (reward_weight (mn_tier mn))) es) = unat tw"
      using 2(4) by (simp add: case_prod_unfold)
    then have "W + unat ?w \<le> unat tw" by simp
    note step = share_step [OF w 2(9) this 2(5,6)]
    have sum: "unat (d + ?r) = unat d + unat ?r" using pool step(2) by (simp add: unat_word_ariths)
    show ?thesis
    proof (cases "0 < ?r")
      case True
      have "paid (distribute pool tw (d + ?r) es (push_reward (reward_dest e) ?r rs)) = unat pool"
        using 2(1) [OF refl _ False W 2(5)] True False step sum push [OF step(2)] 2(9) by simp
      with True False show ?thesis by (simp add: Let_def)
    next
      case none: False
      then have "unat ?r = 0" by (simp add: word_gt_0)
      then have "paid (distribute pool tw d es rs) = unat pool"
        using 2(2) [OF refl _ False W 2(5)] none False step 2(7-9) by simp
      with none False show ?thesis by (simp add: Let_def)
    qed
  qed
qed simp

text \<open>The fees of a block: each transaction with inputs pays the fee listed at its position.\<close>

lemma fee_map_zip:
  assumes "distinct (map (txid X) txs)" "length fees = length txs" "(tx, fee) \<in> set (zip txs fees)"
  shows "fee_map X txs fees (txid X tx) = Some fee"
proof -
  let ?k = "\<lambda>(tx, fee :: u64). (txid X tx, fee)"
  have "fold (\<lambda>(tx, fee) m. m(txid X tx \<mapsto> fee)) ps m = m ++ map_of (rev (map ?k ps))" for ps and m :: "hash256 \<rightharpoonup> u64"
    by (induction ps arbitrary: m) auto
  then have f: "fee_map X txs fees = map_of (rev (map ?k (zip txs fees)))" by (simp add: fee_map_def)
  have "map fst (map ?k (zip txs fees)) = map (txid X) (map fst (zip txs fees))" by (simp add: case_prod_unfold comp_def)
  then have "map fst (map ?k (zip txs fees)) = map (txid X) txs" using assms(2) by (simp only: map_fst_zip)
  then have "distinct (map fst (rev (map ?k (zip txs fees))))" using assms(1) by (simp only: rev_map [symmetric] distinct_rev)
  then show ?thesis unfolding f using assms(3) by (intro map_of_is_SomeI) force+
qed

definition listed_fees :: "Transaction list \<Rightarrow> u64 list \<Rightarrow> u64 list" where
  "listed_fees txs fees = map (\<lambda>(tx, fee). if tx_inputs tx = [] then 0 else fee) (zip txs fees)"

lemma collected_fees_listed:
  assumes d: "distinct (map (txid X) txs)" and l: "length fees = length txs"
  shows "collected_fees X (fee_map X txs fees) (sort_key (txid X) txs) = sum_list (listed_fees txs fees)"
proof -
  let ?g = "\<lambda>tx. case fee_map X txs fees (txid X tx) of None \<Rightarrow> 0 | Some f \<Rightarrow> f"
  let ?h = "\<lambda>tx. if tx_inputs tx \<noteq> [] then ?g tx else 0"
  have "collected_fees X (fee_map X txs fees) (sort_key (txid X) txs) = sum_list (map ?h (sort_key (txid X) txs))"
    by (simp add: collected_fees_def sum_list_map_filter')
  also have "\<dots> = sum_list (map ?h txs)"
    by (simp only: sum_mset_sum_list [symmetric] mset_map mset_sort)
  also have "\<dots> = sum_list (map (?h \<circ> fst) (zip txs fees))" using l by (simp only: map_map [symmetric] map_fst_zip)
  also have "map (?h \<circ> fst) (zip txs fees) = listed_fees txs fees"
    unfolding listed_fees_def using fee_map_zip [OF d l] by (intro map_cong) auto
  finally show ?thesis .
qed

text \<open>
  C34. A block generated for at least one masternode, from distinct transactions with a fee each,
  carries the Merkle root of its transactions. Its reward is 100 TIME plus the fees of the
  transactions that have inputs, its masternodes are paid exactly that in sum, so that the reward check
  accepts it, and it is stamped with a time that the check for block times accepts from then on. (The
  reward is below a sixtieth of 64 bits.)
\<close>

theorem generated_block_consistent:
  assumes b: "generate X now height prev txs fees mns = Some b" and mns: "mns \<noteq> []"
    and w: "sum_list (map (\<lambda>(mn, _). unat (reward_weight (mn_tier mn))) mns) < 2 ^ 64"
    and txs: "distinct (map (txid X) txs)" "length fees = length txs"
    and small: "(10000000000 + sum_list (map unat (listed_fees txs fees))) * 60 < 2 ^ 64"
    and t: "now \<le> later" "representable (600 * (now div 600))"
  shows "bh_merkle_root (blk_header b) = calculate_merkle_root X (blk_transactions b) \<and>
    unat (bh_block_reward (blk_header b)) = 10000000000 + sum_list (map unat (listed_fees txs fees)) \<and>
    paid (blk_masternode_rewards b) = 10000000000 + sum_list (map unat (listed_fees txs fees)) \<and>
    verify_rewards b = Inr () \<and>
    bh_timestamp (blk_header b) = word_of_int (600 * (now div 600)) \<and>
    validate_block_time representable later (600 * (now div 600)) = Inr ()"
proof -
  let ?ms = "sort_key (\<lambda>(mn, _). mn_address mn) mns" and ?pool = "bh_block_reward (blk_header b)"
  let ?f = "\<lambda>(mn, _). reward_weight (mn_tier mn)"
  have rewards: "blk_masternode_rewards b = generated_rewards ?pool ?ms"
    and root: "bh_merkle_root (blk_header b) = calculate_merkle_root X (blk_transactions b)"
    and ts: "bh_timestamp (blk_header b) = word_of_int (600 * (now div 600))"
    and pool: "?pool = BLOCK_REWARD_SATOSHIS + sum_list (listed_fees txs fees)"
    using b by (auto simp: generate_def aligned_timestamp_eq Let_def collected_fees_listed [OF txs])
  have "unat (sum_list (listed_fees txs fees)) = sum_list (map unat (listed_fees txs fees))"
    using small by (intro unat_sum_list) simp
  then have reward: "unat ?pool = 10000000000 + sum_list (map unat (listed_fees txs fees))"
    using small by (simp add: pool pool_defs unat_word_ariths)
  then have r: "unat ?pool * 60 < 2 ^ 64" using small by simp
  have ne: "?ms \<noteq> []" using mns by (metis mset.simps(1) mset_sort mset_zero_iff)
  have "sum_mset (image_mset (unat \<circ> ?f) (mset ?ms)) = sum_mset (image_mset (unat \<circ> ?f) (mset mns))" by simp
  then have "sum_list (map (unat \<circ> ?f) ?ms) = sum_list (map (unat \<circ> ?f) mns)" by (simp only: sum_mset_sum_list mset_map [symmetric])
  then have sum: "sum_list (map (unat \<circ> ?f) ?ms) < 2 ^ 64" using w by (simp add: case_prod_unfold comp_def)
  then have tw: "unat (sum_list (map ?f ?ms)) = sum_list (map (unat \<circ> ?f) ?ms)"
    by (subst unat_sum_list) simp_all
  obtain e es where es: "?ms = e # es" using ne by (cases ?ms) auto
  have "0 < unat (?f e)" by (cases "mn_tier (fst e)") (simp_all add: case_prod_unfold)
  then have pos: "0 < sum_list (map (unat \<circ> ?f) ?ms)" unfolding es by simp
  then have tw_pos: "0 < sum_list (map ?f ?ms)" using tw by (simp add: word_less_nat_alt)
  have "paid (distribute ?pool (sum_list (map ?f ?ms)) 0 ?ms []) = unat ?pool"
    by (rule distribute_paid [where W = 0, OF ne])
      (use tw pos r in \<open>simp_all add: case_prod_unfold comp_def paid_eq\<close>)
  then have "paid (blk_masternode_rewards b) = unat ?pool"
    unfolding rewards generated_rewards_def Let_def using ne tw_pos by simp
  moreover have "sum_list (map snd (blk_masternode_rewards b)) = ?pool"
    unfolding rewards generated_rewards_def Let_def using ne tw_pos by (simp add: distribute_sum)
  moreover have "minute_of (600 * (now div 600)) mod 10 = 0"
    using aligned_minute [of now] by simp
  ultimately show ?thesis
    using root ts t reward by (auto simp: verify_rewards_def validate_block_time_def Let_def)
qed

theorem generated_block_consistent_witness:
  "\<exists>b. generate extern_v 1764548000 1 zero_hash [tx_with 1] [5] [(node_at ''b'' Gold, []), (node_at ''a'' Free, ''TIME2'')] = Some b \<and>
    bh_merkle_root (blk_header b) = calculate_merkle_root extern_v (blk_transactions b) \<and>
    paid (blk_masternode_rewards b) = 10000000005"
proof -
  let ?g = "generate extern_v 1764548000 1 zero_hash [tx_with 1] [5] [(node_at ''b'' Gold, []), (node_at ''a'' Free, ''TIME2'')]"
  obtain b where b: "?g = Some b" by (simp add: generate_def aligned_timestamp_eq Let_def)
  have f: "listed_fees [tx_with 1] [5] = [5]" by (simp add: listed_fees_def tx_with_def)
  from generated_block_consistent [OF b, where later = 1764548000 and representable = "\<lambda>_. True"]
  show ?thesis using b by (auto simp: node_at_def new_legacy_def f)
qed

section \<open>Genesis\<close>

lemma fixed_genesis_ok:
  "verify_structure testnet_genesis = Inr ()" "verify_structure mainnet_genesis = Inr ()"
  "verify_genesis_timestamp testnet_genesis Testnet = Inr ()" "verify_genesis_timestamp mainnet_genesis Mainnet = Inr ()"
  by (simp_all add: verify_structure_def verify_rewards_def verify_genesis_timestamp_def testnet_genesis_def
      mainnet_genesis_def header_default_def)

lemma genesis_timestamps_agree: "genesis_block_timestamp net = genesis_timestamp net"
  by (cases net) auto

lemma calculated_rewards_verify:
  assumes "blk_masternode_rewards b = calculate_rewards (bh_block_reward (blk_header b)) mns"
  shows "verify_rewards b = Inr ()"
  using assms by (auto simp: verify_rewards_def calculate_rewards_def Let_def share_sum split: if_splits)

text \<open>
  The checkpoint of height 0 is still the placeholder of 64 zeros on both networks: no block whose
  hash is not zero passes \<open>validate_checkpoint\<close> there, the block the genesis check demands included.
\<close>

lemma genesis_checkpoint_unreachable:
  assumes "hex_decode X (replicate 64 (CHR ''0'')) = Some zero_hash" "block_hash X b \<noteq> zero_hash"
  shows "validate_checkpoint X net 0 (block_hash X b) = Inl (CheckpointFailed 0)"
  using assms by (cases net) (simp_all add: validate_checkpoint_def MAINNET_CHECKPOINTS_def TESTNET_CHECKPOINTS_def zero_hash_def)

end
