(* ===== verification/Chain_Ledger.thy ===== *)
theory Chain_Ledger
  imports Utxo_Ledger Genesis Tx_Pool
begin

text \<open>
  Blocks and the ledger (\<open>src/blockchain.rs\<close>): how a block is applied to the UTXO manager and
  what its undo log records, and how a rollback takes blocks back, returns their transactions to
  the pool and cleans the transaction index (\<open>src/tx_index.rs\<close>). Blocks, undo logs and index are
  the decoded content of their trees; \<open>ch_mnreg\<close> are the \<open>mnreg:\<close> keys of the registry's tree.
\<close>

section \<open>Text of a script\<close>

text \<open>
  \<open>String::from_utf8_lossy\<close>: a well-formed sequence of up to four bytes is kept; where none
  starts, the longest prefix of one is replaced by the three bytes of the replacement character.
\<close>

definition second_range :: "u8 \<Rightarrow> (nat \<times> u8 \<times> u8) option" where
  "second_range b =
     (if 0xC2 \<le> b \<and> b \<le> 0xDF then Some (1, 0x80, 0xBF)
      else if b = 0xE0 then Some (2, 0xA0, 0xBF)
      else if b = 0xED then Some (2, 0x80, 0x9F)
      else if 0xE1 \<le> b \<and> b \<le> 0xEF then Some (2, 0x80, 0xBF)
      else if b = 0xF0 then Some (3, 0x90, 0xBF)
      else if 0xF1 \<le> b \<and> b \<le> 0xF3 then Some (3, 0x80, 0xBF)
      else if b = 0xF4 then Some (3, 0x80, 0x8F)
      else None)"

definition continuation_bytes :: "u8 \<Rightarrow> u8 list \<Rightarrow> bool \<times> nat" where
  "continuation_bytes b bs =
     (if b < 0x80 then (True, 0)
      else case second_range b of None \<Rightarrow> (False, 0)
       | Some (n, lo, hi) \<Rightarrow>
           (case bs of [] \<Rightarrow> (False, 0)
            | c # cs \<Rightarrow>
                if lo \<le> c \<and> c \<le> hi
                then (let k = 1 + length (takeWhile (\<lambda>x. 0x80 \<le> x \<and> x \<le> 0xBF) (take (n - 1) cs))
                      in (k = n, k))
                else (False, 0)))"

function utf8_lossy :: "u8 list \<Rightarrow> u8 list" where
  "utf8_lossy [] = []"
| "utf8_lossy (b # bs) =
     (case continuation_bytes b bs of
        (True, k) \<Rightarrow> b # take k bs @ utf8_lossy (drop k bs)
      | (False, k) \<Rightarrow> [0xEF, 0xBF, 0xBD] @ utf8_lossy (drop k bs))"
  by pat_completeness auto
termination
  by (relation "measure length") auto

definition from_utf8_lossy :: "u8 list \<Rightarrow> string" where
  "from_utf8_lossy bs = map (\<lambda>b. char_of (unat b)) (utf8_lossy bs)"

section \<open>Undo logs\<close>

record UndoLog =
  ul_height :: u64
  ul_block_hash :: hash256
  ul_spent_utxos :: "(OutPoint \<times> UTXO) list"
  ul_finalized_txs :: "hash256 list"
  ul_created_at :: i64

definition undo_log_new :: "i64 \<Rightarrow> u64 \<Rightarrow> hash256 \<Rightarrow> UndoLog" where
  "undo_log_new now height hash = \<lparr>ul_height = height, ul_block_hash = hash, ul_spent_utxos = [],
     ul_finalized_txs = [], ul_created_at = now\<rparr>"

definition add_spent_utxo :: "OutPoint \<Rightarrow> UTXO \<Rightarrow> UndoLog \<Rightarrow> UndoLog" where
  "add_spent_utxo out u log = log\<lparr>ul_spent_utxos := ul_spent_utxos log @ [(out, u)]\<rparr>"

definition add_finalized_tx :: "hash256 \<Rightarrow> UndoLog \<Rightarrow> UndoLog" where
  "add_finalized_tx tid log = log\<lparr>ul_finalized_txs := ul_finalized_txs log @ [tid]\<rparr>"

section \<open>Applying a block\<close>

definition outpoint :: "hash256 \<Rightarrow> nat \<Rightarrow> OutPoint" where
  "outpoint tid vout = \<lparr>op_txid = tid, op_vout = of_nat vout\<rparr>"

definition genesis_output ::
    "'s UtxoStorage \<Rightarrow> hash256 \<Rightarrow> u64 \<Rightarrow> nat \<times> string \<times> u64 \<Rightarrow> 's mgr \<Rightarrow> 's mgr" where
  "genesis_output ops hash height e m =
     (case e of (vout, address, amount) \<Rightarrow>
        if amount = 0 \<or> address = [] then m
        else (let out = outpoint hash vout;
                  u = \<lparr>u_outpoint = out, u_value = amount, u_script_pubkey = as_bytes address, u_address = address,
                       u_masternode_key = None\<rparr>
              in case add_utxo ops u m of (Inl _, m') \<Rightarrow> m' | (Inr _, m') \<Rightarrow> record_utxo_height out height m'))"

definition spend_input :: "'s UtxoStorage \<Rightarrow> i64 \<Rightarrow> TxInput \<Rightarrow> UndoLog \<times> 's mgr \<Rightarrow> UndoLog \<times> 's mgr" where
  "spend_input ops now inp a =
     (case a of (log, m) \<Rightarrow>
        (let out = in_previous_output inp;
             log = (case get_utxo ops m out of Inr u \<Rightarrow> add_spent_utxo out u log | Inl _ \<Rightarrow> log)
         in (log, snd (spend_utxo ops now out m))))"

definition output_utxo :: "hash256 \<Rightarrow> nat \<Rightarrow> TxOutput \<Rightarrow> UTXO" where
  "output_utxo tid vout o' = \<lparr>u_outpoint = outpoint tid vout, u_value = out_value o', u_script_pubkey = out_script_pubkey o',
     u_address = from_utf8_lossy (out_script_pubkey o'), u_masternode_key = None\<rparr>"

definition create_output :: "'s UtxoStorage \<Rightarrow> u64 \<Rightarrow> hash256 \<Rightarrow> nat \<times> TxOutput \<Rightarrow> 's mgr \<Rightarrow> 's mgr" where
  "create_output ops height tid e m =
     (case e of (vout, o') \<Rightarrow>
        if is_tombstoned m (outpoint tid vout) then m
        else (case add_utxo ops (output_utxo tid vout o') m of
                (Inl _, m') \<Rightarrow> m' | (Inr _, m') \<Rightarrow> record_utxo_height (outpoint tid vout) height m'))"

definition process_tx ::
    "extern \<Rightarrow> 's UtxoStorage \<Rightarrow> i64 \<Rightarrow> u64 \<Rightarrow> Transaction \<Rightarrow> UndoLog \<times> 's mgr \<Rightarrow> UndoLog \<times> 's mgr" where
  "process_tx X ops now height tx a =
     (let (log, m) = fold (spend_input ops now) (tx_inputs tx) a
      in (log, fold (create_output ops height (txid X tx)) (List.enumerate 0 (tx_outputs tx)) m))"

definition process_block_utxos ::
    "extern \<Rightarrow> 's UtxoStorage \<Rightarrow> i64 \<Rightarrow> Block \<Rightarrow> 's mgr \<Rightarrow> UndoLog \<times> 's mgr" where
  "process_block_utxos X ops now b m =
     (let h = blk_header b; hash = block_hash X b;
          m = (if bh_height h = 0 \<and> blk_transactions b = []
               then fold (genesis_output ops hash (bh_height h)) (List.enumerate 0 (blk_masternode_rewards b)) m else m)
      in fold (process_tx X ops now (bh_height h)) (blk_transactions b) (undo_log_new now (bh_height h) hash, m))"

section \<open>The chain\<close>

record TxLocation =
  tl_block_height :: u64
  tl_tx_index :: nat

type_synonym TransactionIndex = "(hash256, TxLocation) dmap"

record 's Chain =
  ch_utxo :: "'s mgr"
  ch_pool :: TransactionPool
  ch_blocks :: "(u64, Block) dmap"
  ch_undo :: "(u64, UndoLog) dmap"
  ch_special_undo :: "(u64, string list) dmap"
  ch_mnreg :: "string set"
  ch_tx_index :: "TransactionIndex option"
  ch_height :: u64

definition add_transaction :: "hash256 \<Rightarrow> u64 \<Rightarrow> nat \<Rightarrow> TransactionIndex \<Rightarrow> TransactionIndex" where
  "add_transaction tid height i idx = dput tid \<lparr>tl_block_height = height, tl_tx_index = i\<rparr> idx"

definition get_location :: "TransactionIndex \<Rightarrow> hash256 \<Rightarrow> TxLocation option" where
  "get_location idx tid = dget idx tid"

definition remove_transaction :: "hash256 \<Rightarrow> TransactionIndex \<Rightarrow> TransactionIndex" where
  "remove_transaction tid idx = dremove tid idx"

definition save_undo_log :: "UndoLog \<Rightarrow> 's Chain \<Rightarrow> 's Chain" where
  "save_undo_log log c = c\<lparr>ch_undo := dput (ul_height log) log (ch_undo c)\<rparr>"

definition load_undo_log :: "'s Chain \<Rightarrow> u64 \<Rightarrow> UndoLog option" where
  "load_undo_log c height = dget (ch_undo c) height"

definition delete_undo_log :: "u64 \<Rightarrow> 's Chain \<Rightarrow> 's Chain" where
  "delete_undo_log height c = c\<lparr>ch_undo := dremove height (ch_undo c)\<rparr>"

definition save_special_undo_record :: "u64 \<Rightarrow> string list \<Rightarrow> 's Chain \<Rightarrow> 's Chain" where
  "save_special_undo_record height registered c =
     (if registered = [] then c else c\<lparr>ch_special_undo := dput height registered (ch_special_undo c)\<rparr>)"

definition undo_registration :: "string \<Rightarrow> 's Chain \<Rightarrow> 's Chain" where
  "undo_registration addr c = c\<lparr>ch_mnreg := ch_mnreg c - {addr}\<rparr>"

section \<open>Rollback\<close>

definition MAX_REORG_DEPTH :: u64 where "MAX_REORG_DEPTH = 100"

text \<open>The heights \<open>(target + 1..=current).rev()\<close>.\<close>

definition rollback_heights :: "u64 \<Rightarrow> u64 \<Rightarrow> u64 list" where
  "rollback_heights target current = rev (map of_nat [unat target + 1 ..< unat current + 1])"

definition remove_outputs :: "extern \<Rightarrow> 's UtxoStorage \<Rightarrow> Transaction \<Rightarrow> 's mgr \<Rightarrow> 's mgr" where
  "remove_outputs X ops tx m =
     fold (\<lambda>vout m. snd (remove_utxo ops (outpoint (txid X tx) vout) m)) [0..<length (tx_outputs tx)] m"

definition restore_spent :: "'s UtxoStorage \<Rightarrow> UndoLog \<Rightarrow> 's mgr \<Rightarrow> 's mgr" where
  "restore_spent ops log m = fold (\<lambda>(_, u) m. snd (restore_utxo ops u m)) (ul_spent_utxos log) m"

definition repool_tx :: "extern \<Rightarrow> UndoLog \<Rightarrow> nat \<times> Transaction \<Rightarrow> bool" where
  "repool_tx X log e =
     (case e of (tx_idx, tx) \<Rightarrow>
        \<not> (tx_idx \<le> 1 \<or> tx_inputs tx = []
           \<or> (tx_inputs tx \<noteq> [] \<and> op_vout (in_previous_output (hd (tx_inputs tx))) = - 1))
        \<and> txid X tx \<notin> set (ul_finalized_txs log))"

definition rollback_block ::
    "extern \<Rightarrow> 's UtxoStorage \<Rightarrow> u64 \<Rightarrow> 's Chain \<times> Transaction list \<Rightarrow> 's Chain \<times> Transaction list" where
  "rollback_block X ops height a =
     (case a of (c, repool) \<Rightarrow>
        (case load_undo_log c height of
           Some log \<Rightarrow>
             (let m = restore_spent ops log (ch_utxo c)
              in case dget (ch_blocks c) height of
                   Some b \<Rightarrow>
                     (delete_undo_log height (c\<lparr>ch_utxo := fold (remove_outputs X ops) (blk_transactions b) m\<rparr>),
                      repool @ map snd (filter (repool_tx X log) (List.enumerate 0 (blk_transactions b))))
                 | None \<Rightarrow> (delete_undo_log height (c\<lparr>ch_utxo := m\<rparr>), repool))
         | None \<Rightarrow>
             (case dget (ch_blocks c) height of
                Some b \<Rightarrow> (c\<lparr>ch_utxo := fold (remove_outputs X ops) (blk_transactions b) (ch_utxo c)\<rparr>, repool)
              | None \<Rightarrow> (c, repool))))"

definition indexed_value :: "'s Chain \<Rightarrow> OutPoint \<Rightarrow> u64 option" where
  "indexed_value c out =
     (case ch_tx_index c of None \<Rightarrow> None
      | Some idx \<Rightarrow>
          (case get_location idx (op_txid out) of None \<Rightarrow> None
           | Some loc \<Rightarrow>
               (case dget (ch_blocks c) (tl_block_height loc) of None \<Rightarrow> None
                | Some b \<Rightarrow>
                    if tl_tx_index loc < length (blk_transactions b)
                    then (let outs = tx_outputs (blk_transactions b ! tl_tx_index loc)
                          in if unat (op_vout out) < length outs then Some (out_value (outs ! unat (op_vout out))) else None)
                    else None)))"

definition repool_fee :: "'s Chain \<Rightarrow> Transaction \<Rightarrow> u64" where
  "repool_fee c tx =
     saturating_sub
       (sum_list (map (\<lambda>inp. case indexed_value c (in_previous_output inp) of None \<Rightarrow> 0 | Some v \<Rightarrow> v) (tx_inputs tx)))
       (sum_list (map out_value (tx_outputs tx)))"

definition repool :: "extern \<Rightarrow> instant \<Rightarrow> Transaction \<Rightarrow> 's Chain \<Rightarrow> 's Chain" where
  "repool X now tx c = c\<lparr>ch_pool := add_finalized_direct X now tx (repool_fee c tx) (ch_pool c)\<rparr>"

definition undo_special :: "u64 \<Rightarrow> 's Chain \<Rightarrow> 's Chain" where
  "undo_special height c =
     (case dget (ch_special_undo c) height of
        Some registered \<Rightarrow>
          (let c = fold undo_registration registered c
           in c\<lparr>ch_special_undo := dremove height (ch_special_undo c)\<rparr>)
      | None \<Rightarrow> c)"

definition drop_block :: "extern \<Rightarrow> u64 \<Rightarrow> 's Chain \<Rightarrow> 's Chain" where
  "drop_block X height c =
     c\<lparr>ch_tx_index := (case dget (ch_blocks c) height of
          Some b \<Rightarrow> map_option (fold (\<lambda>tx. remove_transaction (txid X tx)) (blk_transactions b)) (ch_tx_index c)
        | None \<Rightarrow> ch_tx_index c),
       ch_blocks := dremove height (ch_blocks c)\<rparr>"

datatype RollbackError = PastCheckpoint u64 | RollbackTooDeep u64

definition past_checkpoint :: "NetworkType \<Rightarrow> u64 \<Rightarrow> u64 \<Rightarrow> u64 option" where
  "past_checkpoint net target current =
     (case find_last_checkpoint_before net current of
        Some cp \<Rightarrow> if target < cp then Some cp else None | None \<Rightarrow> None)"

definition rollback_to_height_impl ::
    "extern \<Rightarrow> 's UtxoStorage \<Rightarrow> NetworkType \<Rightarrow> instant \<Rightarrow> u64 \<Rightarrow> bool \<Rightarrow> 's Chain \<Rightarrow> (RollbackError + u64) \<times> 's Chain" where
  "rollback_to_height_impl X ops net now target bypass_depth c =
     (let current = ch_height c; hs = rollback_heights target current
      in if current \<le> target then (Inr current, c)
         else case past_checkpoint net target current of
           Some cp \<Rightarrow> (Inl (PastCheckpoint cp), c)
         | None \<Rightarrow>
             if \<not> bypass_depth \<and> current - target > MAX_REORG_DEPTH then (Inl (RollbackTooDeep (current - target)), c)
             else (let (c, txs) = fold (rollback_block X ops) hs (c, []);
                       c = fold (repool X now) txs c;
                       c = fold undo_special hs c;
                       c = fold (drop_block X) hs c
                   in (Inr target, c\<lparr>ch_height := target\<rparr>)))"

definition rollback_to_height ::
    "extern \<Rightarrow> 's UtxoStorage \<Rightarrow> NetworkType \<Rightarrow> instant \<Rightarrow> u64 \<Rightarrow> 's Chain \<Rightarrow> (RollbackError + u64) \<times> 's Chain" where
  "rollback_to_height X ops net now target c = rollback_to_height_impl X ops net now target False c"

end
