(* ===== verification/Chain_Props.thy ===== *)
theory Chain_Props
  imports Chain_Ledger
begin

text \<open>
  Applying a block changes the stored outputs as the ledger it stands for prescribes, and rolling
  back takes every block back: the stored outputs and the tombstones are those of the target.
\<close>

section \<open>One call\<close>

lemma get_state_eq: "get_state m = dget (utxo_states m)"
  by (simp add: get_state_def fun_eq_iff)

context utxo_storage
begin

lemma spend_fields:
  assumes "ok (storage m)"
  shows "ok (storage (snd (spend_utxo ops now out m)))"
    "st_get ops (storage (snd (spend_utxo ops now out m))) = (st_get ops (storage m))(out := None)"
    "spent_tombstones (snd (spend_utxo ops now out m)) = insert out (spent_tombstones m)"
    "get_state (snd (spend_utxo ops now out m)) = (get_state m)(out \<mapsto> SpentFinalized zero_hash now 0)"
  using assms by (auto simp: spend_utxo_def Let_def store_simps record_spent_def get_state_eq)

lemma create_fields:
  assumes "ok (storage m)" "storable (output_utxo tid v o')" "outpoint tid v \<notin> spent_tombstones m"
    and "get_state m (outpoint tid v) = None"
  shows "ok (storage (create_output ops height tid (v, o') m))"
    "st_get ops (storage (create_output ops height tid (v, o') m)) = (st_get ops (storage m))(outpoint tid v \<mapsto> output_utxo tid v o')"
    "spent_tombstones (create_output ops height tid (v, o') m) = spent_tombstones m"
    "get_state (create_output ops height tid (v, o') m) = (get_state m)(outpoint tid v \<mapsto> Unspent)"
proof -
  have [simp]: "u_outpoint (output_utxo tid v o') = outpoint tid v" by (simp add: output_utxo_def)
  show "ok (storage (create_output ops height tid (v, o') m))"
    "st_get ops (storage (create_output ops height tid (v, o') m)) = (st_get ops (storage m))(outpoint tid v \<mapsto> output_utxo tid v o')"
    "spent_tombstones (create_output ops height tid (v, o') m) = spent_tombstones m"
    "get_state (create_output ops height tid (v, o') m) = (get_state m)(outpoint tid v \<mapsto> Unspent)"
    using assms
    by (simp_all add: create_output_def is_tombstoned_def add_utxo_def store_unspent_def store_simps
        record_utxo_height_def get_state_eq)
qed

lemma restore_fields:
  assumes "ok (storage m)" "storable u" "st_get ops (storage m) (u_outpoint u) = None"
  shows "ok (storage (snd (restore_utxo ops u m)))"
    "st_get ops (storage (snd (restore_utxo ops u m))) = (st_get ops (storage m))(u_outpoint u \<mapsto> u)"
    "spent_tombstones (snd (restore_utxo ops u m)) = spent_tombstones m - {u_outpoint u}"
  using assms by (simp_all add: restore_utxo_def store_unspent_def lift_tombstone_def store_simps)

lemma remove_fields:
  assumes "ok (storage m)"
  shows "ok (storage (snd (remove_utxo ops out m)))"
    "st_get ops (storage (snd (remove_utxo ops out m))) = (st_get ops (storage m))(out := None)"
    "spent_tombstones (snd (remove_utxo ops out m)) = spent_tombstones m"
  using assms by (auto simp: remove_utxo_def Let_def store_simps)

end

section \<open>The ledger a block stands for\<close>

definition tx_spends :: "Transaction \<Rightarrow> OutPoint list" where
  "tx_spends tx = map in_previous_output (tx_inputs tx)"

definition tx_utxos :: "extern \<Rightarrow> Transaction \<Rightarrow> UTXO list" where
  "tx_utxos X tx = map (\<lambda>(v, o'). output_utxo (txid X tx) v o') (List.enumerate 0 (tx_outputs tx))"

definition tx_outs :: "extern \<Rightarrow> Transaction \<Rightarrow> OutPoint list" where
  "tx_outs X tx = map (outpoint (txid X tx)) [0..<length (tx_outputs tx)]"

type_synonym utxo_set = "OutPoint \<Rightarrow> UTXO option"

definition apply_tx :: "extern \<Rightarrow> Transaction \<Rightarrow> utxo_set \<Rightarrow> utxo_set" where
  "apply_tx X tx S = fold (\<lambda>u S. S(u_outpoint u \<mapsto> u)) (tx_utxos X tx) (fold (\<lambda>out S. S(out := None)) (tx_spends tx) S)"

text \<open>Every transaction spends outputs that exist when its turn comes, each once.\<close>

fun spends_ok :: "extern \<Rightarrow> Transaction list \<Rightarrow> utxo_set \<Rightarrow> bool" where
  "spends_ok X [] S \<longleftrightarrow> True"
| "spends_ok X (tx # txs) S \<longleftrightarrow> distinct (tx_spends tx) \<and> set (tx_spends tx) \<subseteq> dom S \<and> spends_ok X txs (apply_tx X tx S)"

lemma tx_utxos_outs: "map u_outpoint (tx_utxos X tx) = tx_outs X tx"
proof -
  have "map u_outpoint (tx_utxos X tx) = map (\<lambda>x. outpoint (txid X tx) (fst x)) (List.enumerate 0 (tx_outputs tx))"
    by (simp add: tx_utxos_def output_utxo_def case_prod_unfold comp_def)
  also have "\<dots> = map (outpoint (txid X tx)) (map fst (List.enumerate 0 (tx_outputs tx)))"
    by (simp only: map_map comp_def)
  finally show ?thesis by (simp only: tx_outs_def map_fst_enumerate add_0)
qed

section \<open>What applying a block records\<close>

text \<open>
  The state while a block is applied, against the state \<open>m0\<close> before it: \<open>C\<close> are the outputs created
  so far, \<open>L\<close> the outputs spent so far with their content.
\<close>

definition undo_inv ::
    "'s UtxoStorage \<Rightarrow> ('s \<Rightarrow> bool) \<Rightarrow> (UTXO \<Rightarrow> bool) \<Rightarrow> 's mgr \<Rightarrow> OutPoint set \<Rightarrow> (OutPoint \<times> UTXO) list \<Rightarrow> 's mgr \<Rightarrow> bool" where
  "undo_inv ops ok storable m0 C L m \<longleftrightarrow> ok (storage m) \<and> distinct (map fst L)
     \<and> (\<forall>out u. (out, u) \<in> set L \<longrightarrow> u_outpoint u = out \<and> storable u \<and> st_get ops (storage m) out = None \<and> out \<notin> spent_tombstones m0)
     \<and> spent_tombstones m = spent_tombstones m0 \<union> fst ` set L
     \<and> (\<forall>out \<in> spent_tombstones m. st_get ops (storage m) out = None)
     \<and> (\<forall>out u. st_get ops (storage m) out = Some u \<longrightarrow> storable u)
     \<and> (\<forall>out. out \<notin> C \<longrightarrow> (st_get ops (storage m) ++ map_of L) out = st_get ops (storage m0) out)
     \<and> (\<forall>out. out \<notin> C \<union> fst ` set L \<longrightarrow> get_state m out = get_state m0 out)"

context utxo_storage
begin

lemma undo_inv_spend:
  assumes inv: "undo_inv ops ok storable m0 C L m" and u: "st_get ops (storage m) out = Some u"
  shows "undo_inv ops ok storable m0 C (L @ [(out, u)]) (snd (spend_utxo ops now out m))"
proof -
  have s: "ok (storage m)" using inv by (simp add: undo_inv_def)
  have out: "u_outpoint u = out" "storable u" "out \<notin> fst ` set L" "out \<notin> spent_tombstones m0"
    using inv u get_key [OF s u] unfolding undo_inv_def by force+
  have "(S(out := None) ++ map_of (L @ [(out, u)])) x = (S ++ map_of L) x" if "S out = Some u" for S x
  proof -
    have "map_of L out = None" using out(3) by (simp add: map_of_eq_None_iff)
    with that show ?thesis by (auto simp: map_add_def split: option.split)
  qed
  with inv u out show ?thesis
    unfolding undo_inv_def spend_fields [OF s] by (auto simp: spend_fields(1) [OF s])
qed

lemma undo_inv_create:
  assumes inv: "undo_inv ops ok storable m0 C L m" and u: "storable (output_utxo tid v o')"
    and fresh: "outpoint tid v \<notin> C" "st_get ops (storage m0) (outpoint tid v) = None"
      "outpoint tid v \<notin> spent_tombstones m0" "get_state m0 (outpoint tid v) = None"
  shows "undo_inv ops ok storable m0 (insert (outpoint tid v) C) L (create_output ops height tid (v, o') m)"
    "st_get ops (storage (create_output ops height tid (v, o') m)) = (st_get ops (storage m))(outpoint tid v \<mapsto> output_utxo tid v o')"
proof -
  let ?o = "outpoint tid v"
  have s: "ok (storage m)" using inv by (simp add: undo_inv_def)
  have "(st_get ops (storage m) ++ map_of L) ?o = None" using inv fresh by (simp add: undo_inv_def)
  then have L: "?o \<notin> fst ` set L" by (auto simp: map_add_None map_of_eq_None_iff)
  have T: "?o \<notin> spent_tombstones m" and st: "get_state m ?o = None"
    using inv L fresh by (auto simp: undo_inv_def)
  note f = create_fields [OF s u T st]
  show "st_get ops (storage (create_output ops height tid (v, o') m)) = (st_get ops (storage m))(?o \<mapsto> output_utxo tid v o')"
    by (rule f)
  have "(S(?o \<mapsto> x) ++ map_of L) out = (S ++ map_of L) out" if "out \<noteq> ?o" for S x out
    using that by (simp add: map_add_def split: option.split)
  with inv L T u show "undo_inv ops ok storable m0 (insert ?o C) L (create_output ops height tid (v, o') m)"
    unfolding undo_inv_def f by (auto simp: f(1) rev_image_eqI)
qed

lemma spend_inputs:
  assumes "undo_inv ops ok storable m0 C (ul_spent_utxos log) m"
    and "distinct (map in_previous_output ins)" "set (map in_previous_output ins) \<subseteq> dom (st_get ops (storage m))"
    and "(log', m') = fold (spend_input ops now) ins (log, m)"
  shows "undo_inv ops ok storable m0 C (ul_spent_utxos log') m'
    \<and> st_get ops (storage m') = fold (\<lambda>out S. S(out := None)) (map in_previous_output ins) (st_get ops (storage m))
    \<and> fst ` set (ul_spent_utxos log') = fst ` set (ul_spent_utxos log) \<union> set (map in_previous_output ins)"
  using assms
proof (induction ins arbitrary: log m)
  case (Cons i ins)
  let ?out = "in_previous_output i" let ?m = "snd (spend_utxo ops now ?out m)"
  obtain u where u: "st_get ops (storage m) ?out = Some u" using Cons.prems(3) by auto
  have s: "ok (storage m)" using Cons.prems(1) by (simp add: undo_inv_def)
  have step: "spend_input ops now i (log, m) = (add_spent_utxo ?out u log, ?m)"
    using u by (simp add: spend_input_def get_utxo_def Let_def)
  have d: "set (map in_previous_output ins) \<subseteq> dom (st_get ops (storage ?m))"
    using Cons.prems(2,3) by (simp add: spend_fields [OF s] subset_Diff_insert)
  have i: "undo_inv ops ok storable m0 C (ul_spent_utxos (add_spent_utxo ?out u log)) ?m"
    using undo_inv_spend [OF Cons.prems(1) u] by (simp add: add_spent_utxo_def)
  have f: "(log', m') = fold (spend_input ops now) ins (add_spent_utxo ?out u log, ?m)"
    using Cons.prems(4) step by simp
  have "distinct (map in_previous_output ins)" using Cons.prems(2) by simp
  from Cons.IH [OF i this d f] show ?case
    by (simp add: spend_fields(2) [OF s] add_spent_utxo_def)
qed simp

lemma create_outputs:
  assumes "undo_inv ops ok storable m0 C L m" "distinct (map (\<lambda>(v, _). outpoint tid v) es)"
    and "\<forall>(v, o') \<in> set es. storable (output_utxo tid v o') \<and> outpoint tid v \<notin> C \<and> st_get ops (storage m0) (outpoint tid v) = None
      \<and> outpoint tid v \<notin> spent_tombstones m0 \<and> get_state m0 (outpoint tid v) = None"
  shows "undo_inv ops ok storable m0 (C \<union> set (map (\<lambda>(v, _). outpoint tid v) es)) L (fold (create_output ops height tid) es m)
    \<and> st_get ops (storage (fold (create_output ops height tid) es m)) =
      fold (\<lambda>u S. S(u_outpoint u \<mapsto> u)) (map (\<lambda>(v, o'). output_utxo tid v o') es) (st_get ops (storage m))"
  using assms
proof (induction es arbitrary: C m)
  case (Cons e es)
  obtain v o' where e: "e = (v, o')" by (cases e)
  let ?m = "create_output ops height tid (v, o') m"
  have step: "undo_inv ops ok storable m0 (insert (outpoint tid v) C) L ?m"
    "st_get ops (storage ?m) = (st_get ops (storage m))(outpoint tid v \<mapsto> output_utxo tid v o')"
    using Cons.prems e by (auto intro!: undo_inv_create [OF Cons.prems(1)])
  have key: "u_outpoint (output_utxo tid v o') = outpoint tid v" by (simp add: output_utxo_def)
  have nin: "outpoint tid w \<noteq> outpoint tid v" if "(w, q) \<in> set es" for w q
    using Cons.prems(2) e that by force
  have "distinct (map (\<lambda>(v, _). outpoint tid v) es)" using Cons.prems(2) by simp
  moreover have "\<forall>(w, q) \<in> set es. storable (output_utxo tid w q) \<and> outpoint tid w \<notin> insert (outpoint tid v) C
      \<and> st_get ops (storage m0) (outpoint tid w) = None \<and> outpoint tid w \<notin> spent_tombstones m0 \<and> get_state m0 (outpoint tid w) = None"
    using Cons.prems(3) nin by auto
  ultimately show ?case
    using Cons.IH [OF step(1)] by (simp add: e step(2) key)
qed simp

end

text \<open>The outputs of a list of transactions are new to the state \<open>m0\<close> and can be stored.\<close>

definition fresh_outs :: "extern \<Rightarrow> 's UtxoStorage \<Rightarrow> (UTXO \<Rightarrow> bool) \<Rightarrow> 's mgr \<Rightarrow> Transaction list \<Rightarrow> bool" where
  "fresh_outs X ops storable m0 txs \<longleftrightarrow> distinct (concat (map (tx_outs X) txs)) \<and>
     (\<forall>tx \<in> set txs. list_all storable (tx_utxos X tx)) \<and>
     (\<forall>out \<in> set (concat (map (tx_outs X) txs)). st_get ops (storage m0) out = None \<and> out \<notin> spent_tombstones m0
        \<and> get_state m0 out = None)"

lemma enumerate_outs: "map (\<lambda>(v, _). outpoint (txid X tx) v) (List.enumerate 0 (tx_outputs tx)) = tx_outs X tx"
  using tx_utxos_outs [of X tx] by (simp add: tx_utxos_def output_utxo_def case_prod_unfold comp_def)

context utxo_storage
begin

lemma process_tx_inv:
  assumes inv: "undo_inv ops ok storable m0 C (ul_spent_utxos log) m"
    and sp: "distinct (tx_spends tx)" "set (tx_spends tx) \<subseteq> dom (st_get ops (storage m))"
    and fr: "fresh_outs X ops storable m0 [tx]" "set (tx_outs X tx) \<inter> C = {}"
    and p: "process_tx X ops now height tx (log, m) = (log', m')"
  shows "undo_inv ops ok storable m0 (C \<union> set (tx_outs X tx)) (ul_spent_utxos log') m'
    \<and> st_get ops (storage m') = apply_tx X tx (st_get ops (storage m))
    \<and> fst ` set (ul_spent_utxos log') = fst ` set (ul_spent_utxos log) \<union> set (tx_spends tx)"
proof -
  let ?es = "List.enumerate 0 (tx_outputs tx)"
  obtain m1 where f: "(log', m1) = fold (spend_input ops now) (tx_inputs tx) (log, m)"
    and m': "m' = fold (create_output ops height (txid X tx)) ?es m1"
    using p by (auto simp: process_tx_def Let_def split: prod.splits)
  note si = spend_inputs [OF inv sp [unfolded tx_spends_def] f]
  have outs: "outpoint (txid X tx) v \<in> set (tx_outs X tx)" "storable (output_utxo (txid X tx) v o')"
    if "(v, o') \<in> set ?es" for v o'
  proof -
    from that show "outpoint (txid X tx) v \<in> set (tx_outs X tx)" by (force simp flip: enumerate_outs)
    from that fr(1) show "storable (output_utxo (txid X tx) v o')"
      by (force simp: fresh_outs_def list_all_iff tx_utxos_def)
  qed
  have "undo_inv ops ok storable m0 (C \<union> set (map (\<lambda>(v, _). outpoint (txid X tx) v) ?es)) (ul_spent_utxos log') m'
    \<and> st_get ops (storage m') = fold (\<lambda>u S. S(u_outpoint u \<mapsto> u)) (map (\<lambda>(v, o'). output_utxo (txid X tx) v o') ?es)
        (st_get ops (storage m1))"
    unfolding m' using si fr outs
    by (intro create_outputs) (fastforce simp: enumerate_outs fresh_outs_def)+
  with si show ?thesis by (simp add: enumerate_outs apply_tx_def tx_utxos_def tx_spends_def)
qed

lemma process_txs_inv:
  assumes "undo_inv ops ok storable m0 C (ul_spent_utxos log) m" "spends_ok X txs (st_get ops (storage m))"
    and "fresh_outs X ops storable m0 txs" "set (concat (map (tx_outs X) txs)) \<inter> C = {}"
    and "fold (process_tx X ops now height) txs (log, m) = (log', m')"
  shows "undo_inv ops ok storable m0 (C \<union> set (concat (map (tx_outs X) txs))) (ul_spent_utxos log') m'
    \<and> st_get ops (storage m') = fold (apply_tx X) txs (st_get ops (storage m))
    \<and> fst ` set (ul_spent_utxos log') = fst ` set (ul_spent_utxos log) \<union> set (concat (map tx_spends txs))"
  using assms
proof (induction txs arbitrary: C log m)
  case (Cons tx txs)
  obtain log1 m1 where p: "process_tx X ops now height tx (log, m) = (log1, m1)" by fastforce
  have fr: "fresh_outs X ops storable m0 [tx]" "fresh_outs X ops storable m0 txs"
    "set (tx_outs X tx) \<inter> set (concat (map (tx_outs X) txs)) = {}"
    using Cons.prems(3) by (auto simp: fresh_outs_def)
  have sp: "distinct (tx_spends tx)" "set (tx_spends tx) \<subseteq> dom (st_get ops (storage m))"
    "spends_ok X txs (apply_tx X tx (st_get ops (storage m)))" using Cons.prems(2) by simp_all
  have d: "set (tx_outs X tx) \<inter> C = {}" "set (concat (map (tx_outs X) txs)) \<inter> (C \<union> set (tx_outs X tx)) = {}"
    using Cons.prems(4) fr(3) by auto
  note one = process_tx_inv [OF Cons.prems(1) sp(1,2) fr(1) d(1) p]
  then have inv: "undo_inv ops ok storable m0 (C \<union> set (tx_outs X tx)) (ul_spent_utxos log1) m1"
    and s1: "st_get ops (storage m1) = apply_tx X tx (st_get ops (storage m))" by simp_all
  have f: "fold (process_tx X ops now height) txs (log1, m1) = (log', m')" using Cons.prems(5) p by simp
  from Cons.IH [OF inv sp(3) [folded s1] fr(2) d(2) f] one show ?case
    by (simp add: Un_assoc)
qed simp

end

section \<open>A whole block\<close>

definition store_good :: "'s UtxoStorage \<Rightarrow> ('s \<Rightarrow> bool) \<Rightarrow> (UTXO \<Rightarrow> bool) \<Rightarrow> 's mgr \<Rightarrow> bool" where
  "store_good ops ok storable m \<longleftrightarrow> ok (storage m) \<and> (\<forall>out \<in> spent_tombstones m. st_get ops (storage m) out = None)
     \<and> (\<forall>out u. st_get ops (storage m) out = Some u \<longrightarrow> storable u)"

text \<open>A block that fits the state it is applied to.\<close>

definition block_fits :: "extern \<Rightarrow> 's UtxoStorage \<Rightarrow> (UTXO \<Rightarrow> bool) \<Rightarrow> Block \<Rightarrow> 's mgr \<Rightarrow> bool" where
  "block_fits X ops storable b m \<longleftrightarrow> bh_height (blk_header b) \<noteq> 0 \<and> spends_ok X (blk_transactions b) (st_get ops (storage m))
     \<and> fresh_outs X ops storable m (blk_transactions b)"

definition block_outs :: "extern \<Rightarrow> Block \<Rightarrow> OutPoint list" where
  "block_outs X b = concat (map (tx_outs X) (blk_transactions b))"

lemma undo_inv_start: "store_good ops ok storable m \<Longrightarrow> undo_inv ops ok storable m {} [] m"
  by (simp add: store_good_def undo_inv_def)

lemma undo_inv_good: "undo_inv ops ok storable m0 C L m \<Longrightarrow> store_good ops ok storable m"
  by (simp add: store_good_def undo_inv_def)

lemma spend_input_height: "ul_height (fst (spend_input ops now i a)) = ul_height (fst a)"
  by (auto simp: spend_input_def add_spent_utxo_def Let_def split: prod.split sum.split)

lemma process_tx_height: "ul_height (fst (process_tx X ops now height tx a)) = ul_height (fst a)"
proof -
  have "ul_height (fst (fold (spend_input ops now) is a)) = ul_height (fst a)" for "is"
    by (induction "is" arbitrary: a) (simp_all add: spend_input_height)
  then show ?thesis by (cases a) (simp add: process_tx_def Let_def case_prod_unfold)
qed

lemma process_txs_height: "ul_height (fst (fold (process_tx X ops now height) txs a)) = ul_height (fst a)"
  by (induction txs arbitrary: a) (simp_all add: process_tx_height)

lemma fold_remove_outputs:
  "fold (remove_outputs X ops) txs m = fold (\<lambda>out m. snd (remove_utxo ops out m)) (concat (map (tx_outs X) txs)) m"
  by (induction txs arbitrary: m) (simp_all add: remove_outputs_def tx_outs_def fold_map comp_def)

context utxo_storage
begin

lemma process_block_inv:
  assumes good: "store_good ops ok storable m" and fits: "block_fits X ops storable b m"
    and p: "process_block_utxos X ops now b m = (log, m')"
  shows "undo_inv ops ok storable m (set (block_outs X b)) (ul_spent_utxos log) m'"
    and "st_get ops (storage m') = fold (apply_tx X) (blk_transactions b) (st_get ops (storage m))"
    and "fst ` set (ul_spent_utxos log) = set (concat (map tx_spends (blk_transactions b)))"
    and "ul_height log = bh_height (blk_header b)"
proof -
  let ?h = "bh_height (blk_header b)" let ?log = "undo_log_new now ?h (block_hash X b)"
  have f: "fold (process_tx X ops now ?h) (blk_transactions b) (?log, m) = (log, m')"
    using p fits by (simp add: process_block_utxos_def block_fits_def Let_def)
  have "undo_inv ops ok storable m {} (ul_spent_utxos ?log) m"
    using undo_inv_start [OF good] by (simp add: undo_log_new_def)
  note r = process_txs_inv [OF this _ _ _ f]
  show "undo_inv ops ok storable m (set (block_outs X b)) (ul_spent_utxos log) m'"
    "st_get ops (storage m') = fold (apply_tx X) (blk_transactions b) (st_get ops (storage m))"
    "fst ` set (ul_spent_utxos log) = set (concat (map tx_spends (blk_transactions b)))"
    using r fits by (simp_all add: block_fits_def block_outs_def undo_log_new_def)
  show "ul_height log = ?h"
    using process_txs_height [of X ops now ?h "blk_transactions b" "(?log, m)"] f by (simp add: undo_log_new_def)
qed

lemma restore_log:
  assumes "ok (storage m)" "distinct (map fst L)"
    and "\<forall>(out, u) \<in> set L. u_outpoint u = out \<and> storable u \<and> st_get ops (storage m) out = None"
    and "m' = fold (\<lambda>(_, u) m. snd (restore_utxo ops u m)) L m"
  shows "ok (storage m') \<and> st_get ops (storage m') = st_get ops (storage m) ++ map_of L
    \<and> spent_tombstones m' = spent_tombstones m - fst ` set L"
  using assms
proof (induction L arbitrary: m)
  case (Cons e L)
  obtain out u where e: "e = (out, u)" by (cases e)
  let ?m = "snd (restore_utxo ops u m)"
  have u: "u_outpoint u = out" "storable u" "st_get ops (storage m) out = None" using Cons.prems(3) e by auto
  note f = restore_fields [OF Cons.prems(1) u(2), unfolded u(1), OF u(3)]
  have out: "out \<notin> fst ` set L" using Cons.prems(2) e by simp
  have l: "distinct (map fst L)" using Cons.prems(2) by simp
  have r: "\<forall>(out, u) \<in> set L. u_outpoint u = out \<and> storable u \<and> st_get ops (storage ?m) out = None"
    using Cons.prems(3) out by (force simp: f)
  have "map_of L out = None" using out by (simp add: map_of_eq_None_iff)
  then have eq: "(st_get ops (storage m))(out \<mapsto> u) ++ map_of L = st_get ops (storage m) ++ map_of (e # L)"
    by (auto simp: e map_add_def fun_eq_iff split: option.split)
  have T: "spent_tombstones m - {out} - fst ` set L = spent_tombstones m - fst ` set (e # L)" by (auto simp: e)
  have "m' = fold (\<lambda>(_, u) m. snd (restore_utxo ops u m)) L ?m" using Cons.prems(4) e by simp
  from Cons.IH [OF f(1) l r this] show ?case by (simp only: f eq T)
qed simp

lemma remove_list:
  assumes "ok (storage m)" and "m' = fold (\<lambda>out m. snd (remove_utxo ops out m)) outs m"
  shows "ok (storage m') \<and> st_get ops (storage m') = st_get ops (storage m) |` (- set outs)
    \<and> spent_tombstones m' = spent_tombstones m"
  using assms
proof (induction outs arbitrary: m)
  case (Cons out outs)
  note f = remove_fields [OF Cons.prems(1), of out]
  have "m' = fold (\<lambda>out m. snd (remove_utxo ops out m)) outs (snd (remove_utxo ops out m))"
    using Cons.prems(2) by simp
  from Cons.IH [OF f(1) this] show ?case by (auto simp: f restrict_map_def fun_eq_iff)
qed (simp add: restrict_map_def)

lemma undo_block:
  assumes inv: "undo_inv ops ok storable m0 (set (concat (map (tx_outs X) txs))) (ul_spent_utxos log) m"
    and new: "fresh_outs X ops storable m0 txs"
    and m1: "ok (storage m1)" "st_get ops (storage m1) = st_get ops (storage m)" "spent_tombstones m1 = spent_tombstones m"
    and m2: "m2 = fold (remove_outputs X ops) txs (restore_spent ops log m1)"
  shows "ok (storage m2) \<and> st_get ops (storage m2) = st_get ops (storage m0) \<and> spent_tombstones m2 = spent_tombstones m0"
proof -
  let ?L = "ul_spent_utxos log" let ?C = "set (concat (map (tx_outs X) txs))"
  have d: "distinct (map fst ?L)" using inv by (simp add: undo_inv_def)
  have "\<forall>(out, u) \<in> set ?L. u_outpoint u = out \<and> storable u \<and> st_get ops (storage m1) out = None"
    using inv by (auto simp: undo_inv_def m1)
  note r = restore_log [OF m1(1) d this refl, folded restore_spent_def]
  note q = remove_list [OF conjunct1 [OF r] m2 [unfolded fold_remove_outputs]]
  have "((st_get ops (storage m) ++ map_of ?L) |` (- ?C)) out = st_get ops (storage m0) out" for out
    using inv new by (auto simp: undo_inv_def fresh_outs_def restrict_map_def)
  moreover have "spent_tombstones m - fst ` set ?L = spent_tombstones m0"
    using inv by (force simp: undo_inv_def)
  ultimately show ?thesis using q r by (simp add: fun_eq_iff m1)
qed

end

text \<open>
  C10. Applying a block to a store in good order refines the ledger: the stored outputs afterwards are
  those that \<open>apply_tx\<close> prescribes for the block's transactions in order, the tombstones gain exactly
  the spent outputs, the undo log holds each spent output once, those stored before the block with the
  content they had, and the store is in good order for the next block.
\<close>

theorem process_block_refines:
  assumes C: "codec_ok C storable" and good: "store_good (SledUtxoStorage C) (sled_ok C) storable m"
    and fits: "block_fits X (SledUtxoStorage C) storable b m"
    and p: "process_block_utxos X (SledUtxoStorage C) now b m = (log, m')"
  shows "st_get (SledUtxoStorage C) (storage m') = fold (apply_tx X) (blk_transactions b) (st_get (SledUtxoStorage C) (storage m))
    \<and> spent_tombstones m' = spent_tombstones m \<union> set (concat (map tx_spends (blk_transactions b)))
    \<and> distinct (map fst (ul_spent_utxos log))
    \<and> fst ` set (ul_spent_utxos log) = set (concat (map tx_spends (blk_transactions b)))
    \<and> (\<forall>out. out \<notin> set (block_outs X b) \<longrightarrow> out \<in> fst ` set (ul_spent_utxos log) \<longrightarrow>
         map_of (ul_spent_utxos log) out = st_get (SledUtxoStorage C) (storage m) out)
    \<and> store_good (SledUtxoStorage C) (sled_ok C) storable m'"
proof -
  note r = utxo_storage.process_block_inv [OF sled_storage [OF C] good fits p]
  have "map_of L out = S0 out" if eq: "(S ++ map_of L) out = S0 out" and mem: "out \<in> fst ` set L"
    for L :: "(OutPoint \<times> UTXO) list" and S S0 :: utxo_set and out
  proof -
    obtain u where "map_of L out = Some u" using mem by (metis domD dom_map_of_conv_image_fst)
    with eq show ?thesis by (simp add: map_add_def)
  qed
  with r(1) have "\<forall>out. out \<notin> set (block_outs X b) \<longrightarrow> out \<in> fst ` set (ul_spent_utxos log) \<longrightarrow>
      map_of (ul_spent_utxos log) out = st_get (SledUtxoStorage C) (storage m) out"
    unfolding undo_inv_def by blast
  moreover have "spent_tombstones m' = spent_tombstones m \<union> set (concat (map tx_spends (blk_transactions b)))"
    "distinct (map fst (ul_spent_utxos log))"
    using r(1) unfolding undo_inv_def r(3) by simp_all
  ultimately show ?thesis using r(2,3) undo_inv_good [OF r(1)] by blast
qed

section \<open>Rolling a chain back\<close>

text \<open>
  One block more: the block fits, the store and the tombstones are what applying it leaves, its undo log
  and its transactions are saved at its height. Pool, locks, states and index may change in any way.
\<close>

definition extended :: "extern \<Rightarrow> 's UtxoStorage \<Rightarrow> (UTXO \<Rightarrow> bool) \<Rightarrow> i64 \<Rightarrow> Block \<Rightarrow> 's Chain \<Rightarrow> 's Chain \<Rightarrow> bool" where
  "extended X ops storable now b c c' \<longleftrightarrow>
     (let h = bh_height (blk_header b); (log, m) = process_block_utxos X ops now b (ch_utxo c)
      in block_fits X ops storable b (ch_utxo c) \<and> unat h = unat (ch_height c) + 1
        \<and> storage (ch_utxo c') = storage m \<and> spent_tombstones (ch_utxo c') = spent_tombstones m
        \<and> dget (ch_undo c') = (dget (ch_undo c))(h \<mapsto> log)
        \<and> map_option blk_transactions \<circ> dget (ch_blocks c') = (map_option blk_transactions \<circ> dget (ch_blocks c))(h \<mapsto> blk_transactions b)
        \<and> ch_height c' = h)"

inductive extends :: "extern \<Rightarrow> 's UtxoStorage \<Rightarrow> (UTXO \<Rightarrow> bool) \<Rightarrow> 's Chain \<Rightarrow> 's Chain \<Rightarrow> bool"
  for X ops storable c0 where
  here: "extends X ops storable c0 c0"
| block: "extends X ops storable c0 c \<Longrightarrow> extended X ops storable now b c c' \<Longrightarrow> extends X ops storable c0 c'"

lemma rollback_heights_step:
  assumes "unat h = unat c + 1" "target \<le> c"
  shows "rollback_heights target h = h # rollback_heights target c"
proof -
  have "[unat target + 1..<unat h + 1] = [unat target + 1..<unat c + 1] @ [unat h]"
    using assms by (simp add: word_le_nat_alt upt_Suc_append)
  then show ?thesis by (simp add: rollback_heights_def)
qed

lemma rollback_heights_mem: "h \<in> set (rollback_heights target c) \<Longrightarrow> target < h \<and> h \<le> c"
proof -
  assume "h \<in> set (rollback_heights target c)"
  then have "h \<in> of_nat ` {unat target + 1..<unat c + 1}" by (simp only: rollback_heights_def set_rev set_map set_upt)
  then obtain n where n: "h = of_nat n" "unat target < n" "n \<le> unat c" by (elim imageE) simp
  have "unat c < 2 ^ 64" using unsigned_less [of c] by simp
  then have "unat h = n" using n by (simp add: unat_of_nat)
  with n show ?thesis by (simp add: word_less_nat_alt word_le_nat_alt)
qed

lemma rollback_heights_same: "rollback_heights h h = []"
  by (simp add: rollback_heights_def)

lemma extends_height: "extends X ops storable c0 c \<Longrightarrow> ch_height c0 \<le> ch_height c"
  by (induction rule: extends.induct)
    (auto simp: extended_def Let_def word_le_nat_alt split: prod.splits)

definition same_ledger :: "'s UtxoStorage \<Rightarrow> ('s \<Rightarrow> bool) \<Rightarrow> 's mgr \<Rightarrow> 's mgr \<Rightarrow> bool" where
  "same_ledger ops ok m m' \<longleftrightarrow> ok (storage m) \<and> st_get ops (storage m) = st_get ops (storage m') \<and> spent_tombstones m = spent_tombstones m'"

context utxo_storage
begin

lemma extended_good:
  assumes "store_good ops ok storable (ch_utxo c)" "extended X ops storable now b c c'"
  shows "store_good ops ok storable (ch_utxo c')"
proof -
  obtain log m where p: "process_block_utxos X ops now b (ch_utxo c) = (log, m)" by fastforce
  with assms(2) have f: "block_fits X ops storable b (ch_utxo c)" and
    e: "storage (ch_utxo c') = storage m" "spent_tombstones (ch_utxo c') = spent_tombstones m"
    by (simp_all add: extended_def Let_def)
  from undo_inv_good [OF process_block_inv(1) [OF assms(1) f p]] show ?thesis by (simp add: store_good_def e)
qed

lemma extends_good:
  "extends X ops storable c0 c \<Longrightarrow> store_good ops ok storable (ch_utxo c0) \<Longrightarrow> store_good ops ok storable (ch_utxo c)"
  by (induction rule: extends.induct) (auto intro: extended_good)

lemma rollback_step:
  assumes good: "store_good ops ok storable (ch_utxo c)" and ext: "extended X ops storable now b c c'"
    and d: "same_ledger ops ok (ch_utxo d) (ch_utxo c')"
    and u: "dget (ch_undo d) (ch_height c') = dget (ch_undo c') (ch_height c')"
    and bl: "map_option blk_transactions (dget (ch_blocks d) (ch_height c')) = map_option blk_transactions (dget (ch_blocks c') (ch_height c'))"
  shows "\<exists>m rp'. rollback_block X ops (ch_height c') (d, rp) = (delete_undo_log (ch_height c') (d\<lparr>ch_utxo := m\<rparr>), rp')
    \<and> same_ledger ops ok m (ch_utxo c)"
proof -
  let ?h = "bh_height (blk_header b)"
  obtain log m where p: "process_block_utxos X ops now b (ch_utxo c) = (log, m)" by fastforce
  with ext have f: "block_fits X ops storable b (ch_utxo c)" and h: "ch_height c' = ?h" and
    e: "storage (ch_utxo c') = storage m" "spent_tombstones (ch_utxo c') = spent_tombstones m"
    and L: "dget (ch_undo c') ?h = Some log"
    and B: "(map_option blk_transactions \<circ> dget (ch_blocks c')) ?h = Some (blk_transactions b)"
    by (simp_all add: extended_def Let_def)
  obtain b' where b': "dget (ch_blocks d) ?h = Some b'" "blk_transactions b' = blk_transactions b"
    using bl B by (auto simp: h)
  let ?m = "fold (remove_outputs X ops) (blk_transactions b) (restore_spent ops log (ch_utxo d))"
  have "same_ledger ops ok ?m (ch_utxo c)"
    unfolding same_ledger_def
    by (rule undo_block [OF process_block_inv(1) [OF good f p, unfolded block_outs_def]])
      (use d f in \<open>simp_all add: same_ledger_def block_fits_def e\<close>)
  moreover have "dget (ch_undo d) ?h = Some log" using u L by (simp add: h)
  ultimately show ?thesis by (auto simp: rollback_block_def load_undo_log_def h b' Let_def)
qed

lemma rollback_extends:
  assumes "extends X ops storable c0 c" "store_good ops ok storable (ch_utxo c0)"
    and "same_ledger ops ok (ch_utxo d) (ch_utxo c)"
    and "\<forall>h \<in> set (rollback_heights (ch_height c0) (ch_height c)). dget (ch_undo d) h = dget (ch_undo c) h
      \<and> map_option blk_transactions (dget (ch_blocks d) h) = map_option blk_transactions (dget (ch_blocks c) h)"
  shows "same_ledger ops ok
      (ch_utxo (fst (fold (rollback_block X ops) (rollback_heights (ch_height c0) (ch_height c)) (d, rp)))) (ch_utxo c0)"
  using assms
proof (induction arbitrary: d rp rule: extends.induct)
  case (block c now b c')
  let ?h = "ch_height c'" let ?hs = "rollback_heights (ch_height c0) (ch_height c)"
  have good: "store_good ops ok storable (ch_utxo c)" by (rule extends_good [OF block.hyps(1) block.prems(1)])
  obtain log m where p: "process_block_utxos X ops now b (ch_utxo c) = (log, m)" by fastforce
  have h: "unat ?h = unat (ch_height c) + 1" and U: "dget (ch_undo c') = (dget (ch_undo c))(?h \<mapsto> log)"
    and B: "map_option blk_transactions \<circ> dget (ch_blocks c') = (map_option blk_transactions \<circ> dget (ch_blocks c))(?h \<mapsto> blk_transactions b)"
    using block.hyps(2) p by (auto simp: extended_def Let_def)
  have hs: "rollback_heights (ch_height c0) ?h = ?h # ?hs"
    by (rule rollback_heights_step [OF h extends_height [OF block.hyps(1)]])
  have ne: "h \<noteq> ?h" if "h \<in> set ?hs" for h
    using rollback_heights_mem [OF that] h by (auto simp: word_le_nat_alt)
  obtain m1 rp' where s: "rollback_block X ops ?h (d, rp) = (delete_undo_log ?h (d\<lparr>ch_utxo := m1\<rparr>), rp')"
    and m1: "same_ledger ops ok m1 (ch_utxo c)"
    using rollback_step [OF good block.hyps(2) block.prems(2), of rp] block.prems(3) by (auto simp: hs)
  have "same_ledger ops ok (ch_utxo (fst (fold (rollback_block X ops) ?hs (delete_undo_log ?h (d\<lparr>ch_utxo := m1\<rparr>), rp')))) (ch_utxo c0)"
  proof (rule block.IH [OF block.prems(1)], goal_cases)
    case 1 show ?case using m1 by (simp add: delete_undo_log_def)
  next
    case 2
    have "map_option blk_transactions (dget (ch_blocks c') h) = map_option blk_transactions (dget (ch_blocks c) h)"
      if "h \<noteq> ?h" for h using fun_cong [OF B, of h] that by simp
    then show ?case using block.prems(3) ne by (simp add: hs delete_undo_log_def U)
  qed
  then show ?case by (simp add: hs s)
qed (simp add: rollback_heights_same)

end

lemma chain_frames [simp]:
  "ch_utxo (repool X now tx c) = ch_utxo c" "ch_blocks (repool X now tx c) = ch_blocks c"
  "ch_utxo (undo_special h c) = ch_utxo c" "ch_blocks (undo_special h c) = ch_blocks c"
  "ch_utxo (drop_block X h c) = ch_utxo c" "ch_blocks (drop_block X h c) = dremove h (ch_blocks c)"
proof -
  have "ch_utxo (fold undo_registration rs c) = ch_utxo c \<and> ch_blocks (fold undo_registration rs c) = ch_blocks c" for rs
    by (induction rs arbitrary: c) (simp_all add: undo_registration_def)
  then show "ch_utxo (undo_special h c) = ch_utxo c" "ch_blocks (undo_special h c) = ch_blocks c"
    by (simp_all add: undo_special_def Let_def split: option.split)
qed (simp_all add: repool_def drop_block_def)

lemma chain_folds [simp]:
  "ch_utxo (fold (repool X now) txs c) = ch_utxo c" "ch_blocks (fold (repool X now) txs c) = ch_blocks c"
  "ch_utxo (fold undo_special hs c) = ch_utxo c" "ch_blocks (fold undo_special hs c) = ch_blocks c"
  "ch_utxo (fold (drop_block X) hs c) = ch_utxo c"
  by (induction txs arbitrary: c, simp_all) (induction hs arbitrary: c, simp_all)+

lemma dropped_blocks: "dget (ch_blocks (fold (drop_block X) hs c)) = (dget (ch_blocks c)) |` (- set hs)"
  by (induction hs arbitrary: c) (auto simp: fun_eq_iff restrict_map_def)

lemma rollback_block_blocks: "ch_blocks (fst (rollback_block X ops h a)) = ch_blocks (fst a)"
  by (cases a) (simp add: rollback_block_def delete_undo_log_def Let_def split: option.split)

lemma rollback_blocks_blocks: "ch_blocks (fst (fold (rollback_block X ops) hs a)) = ch_blocks (fst a)"
  by (induction hs arbitrary: a) (simp_all add: rollback_block_blocks)

lemma extends_cases: "extends X ops storable c0 c \<Longrightarrow> c = c0 \<or> ch_height c0 < ch_height c"
proof (induction rule: extends.induct)
  case (block c now b c')
  from extends_height [OF block.hyps(1)] block.hyps(2) show ?case
    by (auto simp: extended_def Let_def word_le_nat_alt word_less_nat_alt split: prod.splits)
qed simp

lemma extends_below:
  "extends X ops storable c0 c \<Longrightarrow> h \<le> ch_height c0 \<Longrightarrow>
     map_option blk_transactions (dget (ch_blocks c) h) = map_option blk_transactions (dget (ch_blocks c0) h)"
proof (induction rule: extends.induct)
  case (block c now b c')
  from block.hyps(2) have B: "map_option blk_transactions \<circ> dget (ch_blocks c')
      = (map_option blk_transactions \<circ> dget (ch_blocks c))(ch_height c' \<mapsto> blk_transactions b)"
    and "unat (ch_height c') = unat (ch_height c) + 1" by (auto simp: extended_def Let_def split: prod.splits)
  with extends_height [OF block.hyps(1)] block.prems have "h \<noteq> ch_height c'" by (auto simp: word_le_nat_alt)
  with fun_cong [OF B, of h] block.IH block.prems show ?case by simp
qed simp

lemma rollback_heights_all: "target < h \<Longrightarrow> h \<le> c \<Longrightarrow> h \<in> set (rollback_heights target c)"
proof -
  assume "target < h" "h \<le> c"
  then have "unat h \<in> {unat target + 1..<unat c + 1}" by (simp add: word_less_nat_alt word_le_nat_alt)
  then have "of_nat (unat h) \<in> (of_nat :: nat \<Rightarrow> u64) ` {unat target + 1..<unat c + 1}" by (rule imageI)
  then show ?thesis by (simp only: rollback_heights_def set_rev set_map set_upt of_nat_unat ucast_id)
qed

lemma past_checkpoint_none: "past_checkpoint net target current = None"
  by (cases net) (simp_all add: past_checkpoint_def find_last_checkpoint_before_def
      MAINNET_CHECKPOINTS_def TESTNET_CHECKPOINTS_def split: option.split)

text \<open>
  C3. Rolling back undoes applying: when the chain grew from \<open>c0\<close> by at most \<open>MAX_REORG_DEPTH\<close> blocks, each
  fitting the state it met, a rollback to the height of \<open>c0\<close> succeeds, the stored outputs with their content
  and the tombstones are again those of \<open>c0\<close>, the blocks up to that height are kept and those above are gone.
\<close>

theorem rollback_roundtrip:
  assumes C: "codec_ok C storable" and good: "store_good (SledUtxoStorage C) (sled_ok C) storable (ch_utxo c0)"
    and ext: "extends X (SledUtxoStorage C) storable c0 c"
    and depth: "ch_height c - ch_height c0 \<le> MAX_REORG_DEPTH"
    and r: "rollback_to_height X (SledUtxoStorage C) net now (ch_height c0) c = (res, c')"
  shows "res = Inr (ch_height c0) \<and> ch_height c' = ch_height c0
    \<and> get_utxo (SledUtxoStorage C) (ch_utxo c') = get_utxo (SledUtxoStorage C) (ch_utxo c0)
    \<and> spent_tombstones (ch_utxo c') = spent_tombstones (ch_utxo c0)
    \<and> (\<forall>h \<le> ch_height c0. map_option blk_transactions (dget (ch_blocks c') h)
          = map_option blk_transactions (dget (ch_blocks c0) h))
    \<and> (\<forall>h. ch_height c0 < h \<longrightarrow> h \<le> ch_height c \<longrightarrow> dget (ch_blocks c') h = None)"
proof (cases "c = c0")
  case True
  then show ?thesis using r by (auto simp: rollback_to_height_def rollback_to_height_impl_def Let_def)
next
  case False
  let ?S = "SledUtxoStorage C" let ?hs = "rollback_heights (ch_height c0) (ch_height c)"
  obtain c1 txs where f: "fold (rollback_block X ?S) ?hs (c, []) = (c1, txs)" by fastforce
  let ?c = "fold (drop_block X) ?hs (fold undo_special ?hs (fold (repool X now) txs c1))"
  have "\<not> ch_height c \<le> ch_height c0" "\<not> ch_height c - ch_height c0 > MAX_REORG_DEPTH"
    using extends_cases [OF ext] False depth by (auto simp: leD)
  then have res: "res = Inr (ch_height c0)" and c': "c' = ?c\<lparr>ch_height := ch_height c0\<rparr>"
    using r by (simp_all add: rollback_to_height_def rollback_to_height_impl_def past_checkpoint_none f Let_def)
  note sled = sled_storage [OF C]
  have "same_ledger ?S (sled_ok C) (ch_utxo c) (ch_utxo c)"
    using utxo_storage.extends_good [OF sled ext good] by (simp add: same_ledger_def store_good_def)
  from utxo_storage.rollback_extends [OF sled ext good this, of "[]"]
  have l: "same_ledger ?S (sled_ok C) (ch_utxo c1) (ch_utxo c0)" by (simp add: f)
  have b: "ch_blocks c1 = ch_blocks c" using rollback_blocks_blocks [of X ?S ?hs "(c, [])"] by (simp add: f)
  have "h \<notin> set ?hs" if "h \<le> ch_height c0" for h using rollback_heights_mem that by (meson leD)
  then have B: "\<forall>h \<le> ch_height c0. map_option blk_transactions (dget (ch_blocks c') h)
      = map_option blk_transactions (dget (ch_blocks c0) h)"
    by (simp add: c' dropped_blocks b extends_below [OF ext])
  have "\<forall>h. ch_height c0 < h \<longrightarrow> h \<le> ch_height c \<longrightarrow> dget (ch_blocks c') h = None"
    by (simp add: c' dropped_blocks rollback_heights_all)
  with res l B show ?thesis by (simp add: c' same_ledger_def get_utxo_def fun_eq_iff)
qed

subsection \<open>A block of one transaction\<close>

text \<open>Spends the one output of \<open>mgr2\<close> and creates another.\<close>

definition spend_tx :: Transaction where
  "spend_tx = \<lparr>tx_version = 2, tx_inputs = [\<lparr>in_previous_output = out1, in_script_sig = [], in_sequence = 0\<rparr>],
     tx_outputs = [\<lparr>out_value = 6, out_script_pubkey = []\<rparr>], tx_lock_time = 0, tx_timestamp = 0,
     tx_special_data = None, tx_encrypted_memo = None\<rparr>"

definition spend_block :: Block where
  "spend_block = \<lparr>blk_header = header_default\<lparr>bh_height := 1\<rparr>, blk_transactions = [spend_tx], blk_masternode_rewards = [],
     blk_time_attestations = [], blk_consensus_participants_bitmap = [], blk_liveness_recovery = None\<rparr>"

definition start_chain :: "sled_db Chain" where
  "start_chain = \<lparr>ch_utxo = mgr2, ch_pool = pool_new [], ch_blocks = [], ch_undo = [], ch_special_undo = [], ch_mnreg = {},
     ch_tx_index = None, ch_height = 0\<rparr>"

definition grown_chain :: "sled_db Chain" where
  "grown_chain = (let (log, m) = process_block_utxos extern0 (SledUtxoStorage bincode_codec) 9 spend_block mgr2
     in save_undo_log log (start_chain\<lparr>ch_utxo := m, ch_blocks := [(1, spend_block)], ch_height := 1\<rparr>))"

lemma mgr2_fields:
  "st_get (SledUtxoStorage bincode_codec) (storage mgr2) = [out1 \<mapsto> utxo1]"
  "spent_tombstones mgr2 = {}" "get_state mgr2 = [out1 \<mapsto> Unspent]"
proof -
  have f: "utxo_fits utxo1" using utxo1_fine by (simp add: utxo_fine_def)
  note s = utxo_storage.store_simps [OF sled_storage [OF bincode_codec_ok]]
  let ?m = "startup (SledUtxoStorage bincode_codec) (Inr []) (Inr {}) sled_open"
  have m: "storage ?m = sled_open" "spent_tombstones ?m = {}" "utxo_states ?m = []"
    by (simp_all add: startup_def enable_collateral_persistence_def new_with_storage_def
        enable_spent_persistence_def initialize_states_def load_persisted_collateral_locks_def Let_def sled_defs sled_open_def)
  have o: "st_get (SledUtxoStorage bincode_codec) sled_open = Map.empty"
    by (auto simp: sled_defs sled_open_def fun_eq_iff split: option.split)
  show "st_get (SledUtxoStorage bincode_codec) (storage mgr2) = [out1 \<mapsto> utxo1]"
    "spent_tombstones mgr2 = {}" "get_state mgr2 = [out1 \<mapsto> Unspent]"
    using f by (simp_all add: mgr2_def add_utxo_def store_unspent_def s o m get_state_def fun_eq_iff)
qed

lemma spend_block_fits: "block_fits extern0 (SledUtxoStorage bincode_codec) utxo_fits spend_block mgr2"
proof -
  have t: "txid extern0 spend_tx = replicate 32 7" by (simp add: txid_def extern0_def)
  then have o: "outpoint (txid extern0 spend_tx) 0 \<noteq> out1"
    by (simp add: outpoint_def out1_def zero_hash_def)
  have "utxo_fits (output_utxo (txid extern0 spend_tx) 0 \<lparr>out_value = 6, out_script_pubkey = []\<rparr>)"
    by (simp add: t utxo_fits_def output_utxo_def outpoint_def hash256_ok_def from_utf8_lossy_def)
  with o show ?thesis
    by (simp add: block_fits_def spend_block_def mgr2_fields fresh_outs_def tx_outs_def tx_utxos_def tx_spends_def
        spend_tx_def [THEN arg_cong, of tx_outputs] spend_tx_def [THEN arg_cong, of tx_inputs])
qed

lemma mgr2_good: "store_good (SledUtxoStorage bincode_codec) (sled_ok bincode_codec) utxo_fits mgr2"
  using utxo_storage.ledger_okD [OF sled_storage [OF bincode_codec_ok]
      utxo_storage.reach_ledger_ok [OF sled_storage [OF bincode_codec_ok] mgr2_reach]] utxo1_fine
  by (simp add: store_good_def mgr2_fields utxo_fine_def)

theorem process_block_refines_witness:
  "let S = SledUtxoStorage bincode_codec; (log, m) = process_block_utxos extern0 S 9 spend_block mgr2
   in st_get S (storage m) = apply_tx extern0 spend_tx [out1 \<mapsto> utxo1] \<and> spent_tombstones m = {out1}
     \<and> fst ` set (ul_spent_utxos log) = {out1}"
proof -
  obtain log m where p: "process_block_utxos extern0 (SledUtxoStorage bincode_codec) 9 spend_block mgr2 = (log, m)" by fastforce
  show ?thesis
    using process_block_refines [OF bincode_codec_ok mgr2_good spend_block_fits p]
    by (simp add: p mgr2_fields spend_block_def [THEN arg_cong, of blk_transactions] tx_spends_def
        spend_tx_def [THEN arg_cong, of tx_inputs] Let_def)
qed

lemma grown_chain_extends: "extends extern0 (SledUtxoStorage bincode_codec) utxo_fits start_chain grown_chain"
proof -
  obtain log m where p: "process_block_utxos extern0 (SledUtxoStorage bincode_codec) 9 spend_block mgr2 = (log, m)" by fastforce
  have "ul_height log = 1"
    using utxo_storage.process_block_inv(4) [OF sled_storage [OF bincode_codec_ok] mgr2_good spend_block_fits p]
    by (simp add: spend_block_def)
  with p have "extended extern0 (SledUtxoStorage bincode_codec) utxo_fits 9 spend_block start_chain grown_chain"
    by (auto simp: extended_def start_chain_def grown_chain_def spend_block_fits save_undo_log_def fun_eq_iff)
      (simp_all add: spend_block_def)
  from extends.block [OF extends.here this] show ?thesis .
qed

theorem rollback_roundtrip_witness:
  "let S = SledUtxoStorage bincode_codec; (res, c) = rollback_to_height extern0 S Testnet 0 0 grown_chain
   in res = Inr 0 \<and> get_utxo S (ch_utxo c) = get_utxo S mgr2 \<and> spent_tombstones (ch_utxo c) = {}
     \<and> dget (ch_blocks c) 1 = None"
proof -
  let ?S = "SledUtxoStorage bincode_codec"
  have c0: "ch_utxo start_chain = mgr2" "ch_height start_chain = 0" by (simp_all add: start_chain_def)
  have c1: "ch_height grown_chain = 1" by (simp add: grown_chain_def save_undo_log_def case_prod_unfold Let_def)
  obtain res c where r: "rollback_to_height extern0 ?S Testnet 0 (ch_height start_chain) grown_chain = (res, c)" by fastforce
  show ?thesis
    using rollback_roundtrip [OF bincode_codec_ok _ grown_chain_extends _ r] mgr2_good r
    by (simp add: c0 c1 mgr2_fields MAX_REORG_DEPTH_def)
qed

end
