(* ===== verification/Block_Votes.thy ===== *)
theory Block_Votes
  imports Core_Types
begin

text \<open>
  The accumulators of block votes in \<open>src/consensus.rs\<close> (\<open>PrepareVoteAccumulator\<close>,
  \<open>PrecommitVoteAccumulator\<close>): one vote per voter over all blocks, and a block is signalled once
  when it holds more than half of the weight that voted so far. A vote of the first is a voter and
  a weight, of the second also a signature; what both do is written once over the type of a vote.
\<close>

section \<open>Ballots\<close>

type_synonym 'v ballots = "(hash256, 'v list) dmap"

definition votes_for :: "'v ballots \<Rightarrow> hash256 \<Rightarrow> 'v list" where
  "votes_for b h = (case dget b h of None \<Rightarrow> [] | Some vs \<Rightarrow> vs)"

definition voted_elsewhere :: "('v \<Rightarrow> string) \<Rightarrow> 'v ballots \<Rightarrow> hash256 \<Rightarrow> string \<Rightarrow> bool" where
  "voted_elsewhere voter b h i = list_ex (\<lambda>(h', vs). h' \<noteq> h \<and> list_ex (\<lambda>v. voter v = i) vs) b"

definition cast_vote :: "('v \<Rightarrow> string) \<Rightarrow> hash256 \<Rightarrow> 'v \<Rightarrow> 'v ballots \<Rightarrow> 'v ballots" where
  "cast_vote voter h v b =
     (if voted_elsewhere voter b h (voter v) then b
      else if list_ex (\<lambda>w. voter w = voter v) (votes_for b h) then dput h (votes_for b h) b
      else dput h (votes_for b h @ [v]) b)"

text \<open>The weight of everyone who voted, a voter counted at the first vote met.\<close>

fun count_once :: "('v \<Rightarrow> string) \<Rightarrow> ('v \<Rightarrow> u64) \<Rightarrow> 'v list \<Rightarrow> string set \<times> u64 \<Rightarrow> string set \<times> u64" where
  "count_once voter weight [] a = a"
| "count_once voter weight (v # vs) (seen, tot) =
     count_once voter weight vs
       (if voter v \<in> seen then (seen, tot) else (insert (voter v) seen, tot + weight v))"

definition participating :: "('v \<Rightarrow> string) \<Rightarrow> ('v \<Rightarrow> u64) \<Rightarrow> 'v ballots \<Rightarrow> u64" where
  "participating voter weight b = snd (count_once voter weight (concat (map snd b)) ({}, 0))"

definition majority :: "('v \<Rightarrow> string) \<Rightarrow> ('v \<Rightarrow> u64) \<Rightarrow> 'v ballots \<Rightarrow> hash256 \<Rightarrow> bool" where
  "majority voter weight b h =
     (case dget b h of None \<Rightarrow> False
      | Some vs \<Rightarrow> \<not> length vs < 2
          \<and> 0 < participating voter weight b
          \<and> participating voter weight b div 2 < sum_list (map weight vs))"

section \<open>The prepare accumulator\<close>

record PrepareVoteAccumulator =
  pv_votes :: "(string \<times> u64) ballots"
  pv_signaled :: "hash256 set"

definition prepare_new :: PrepareVoteAccumulator where
  "prepare_new = \<lparr>pv_votes = [], pv_signaled = {}\<rparr>"

definition prepare_add_vote ::
    "hash256 \<Rightarrow> string \<Rightarrow> u64 \<Rightarrow> PrepareVoteAccumulator \<Rightarrow> PrepareVoteAccumulator" where
  "prepare_add_vote h i w a = a\<lparr>pv_votes := cast_vote fst h (i, w) (pv_votes a)\<rparr>"

definition prepare_check ::
    "hash256 \<Rightarrow> PrepareVoteAccumulator \<Rightarrow> bool \<times> PrepareVoteAccumulator" where
  "prepare_check h a =
     (if h \<in> pv_signaled a then (False, a)
      else if majority fst snd (pv_votes a) h then (True, a\<lparr>pv_signaled := insert h (pv_signaled a)\<rparr>)
      else (False, a))"

definition prepare_weight :: "PrepareVoteAccumulator \<Rightarrow> hash256 \<Rightarrow> u64" where
  "prepare_weight a h = sum_list (map snd (votes_for (pv_votes a) h))"

definition prepare_voters :: "PrepareVoteAccumulator \<Rightarrow> hash256 \<Rightarrow> string list" where
  "prepare_voters a h = map fst (votes_for (pv_votes a) h)"

definition prepare_remove_voter :: "string \<Rightarrow> PrepareVoteAccumulator \<Rightarrow> PrepareVoteAccumulator" where
  "prepare_remove_voter i a =
     a\<lparr>pv_votes := map (\<lambda>(h, vs). (h, filter (\<lambda>v. fst v \<noteq> i) vs)) (pv_votes a)\<rparr>"

definition prepare_clear :: "hash256 \<Rightarrow> PrepareVoteAccumulator \<Rightarrow> PrepareVoteAccumulator" where
  "prepare_clear h a = a\<lparr>pv_votes := dremove h (pv_votes a), pv_signaled := pv_signaled a - {h}\<rparr>"

definition prepare_clear_all :: "PrepareVoteAccumulator \<Rightarrow> PrepareVoteAccumulator" where
  "prepare_clear_all a = a\<lparr>pv_votes := [], pv_signaled := {}\<rparr>"

definition prepare_all_voters :: "PrepareVoteAccumulator \<Rightarrow> (hash256 \<times> string list) list" where
  "prepare_all_voters a = map (\<lambda>(h, vs). (h, map fst vs)) (pv_votes a)"

section \<open>The precommit accumulator\<close>

type_synonym precommit_vote = "string \<times> u8 list \<times> u64"

definition pc_weight :: "precommit_vote \<Rightarrow> u64" where
  "pc_weight v = snd (snd v)"

record PrecommitVoteAccumulator =
  pc_votes :: "precommit_vote ballots"
  pc_signaled :: "hash256 set"

definition precommit_new :: PrecommitVoteAccumulator where
  "precommit_new = \<lparr>pc_votes = [], pc_signaled = {}\<rparr>"

definition precommit_add_vote ::
    "hash256 \<Rightarrow> string \<Rightarrow> u8 list \<Rightarrow> u64 \<Rightarrow> PrecommitVoteAccumulator \<Rightarrow> PrecommitVoteAccumulator" where
  "precommit_add_vote h i sig w a = a\<lparr>pc_votes := cast_vote fst h (i, sig, w) (pc_votes a)\<rparr>"

definition precommit_check ::
    "hash256 \<Rightarrow> PrecommitVoteAccumulator \<Rightarrow> bool \<times> PrecommitVoteAccumulator" where
  "precommit_check h a =
     (if h \<in> pc_signaled a then (False, a)
      else if majority fst pc_weight (pc_votes a) h
      then (True, a\<lparr>pc_signaled := insert h (pc_signaled a)\<rparr>)
      else (False, a))"

definition precommit_weight :: "PrecommitVoteAccumulator \<Rightarrow> hash256 \<Rightarrow> u64" where
  "precommit_weight a h = sum_list (map pc_weight (votes_for (pc_votes a) h))"

definition precommit_voters :: "PrecommitVoteAccumulator \<Rightarrow> hash256 \<Rightarrow> string list" where
  "precommit_voters a h = map fst (votes_for (pc_votes a) h)"

definition precommit_signatures :: "PrecommitVoteAccumulator \<Rightarrow> hash256 \<Rightarrow> (string \<times> u8 list) list" where
  "precommit_signatures a h = map (\<lambda>(i, sig, _). (i, sig)) (votes_for (pc_votes a) h)"

definition precommit_clear :: "hash256 \<Rightarrow> PrecommitVoteAccumulator \<Rightarrow> PrecommitVoteAccumulator" where
  "precommit_clear h a = a\<lparr>pc_votes := dremove h (pc_votes a), pc_signaled := pc_signaled a - {h}\<rparr>"

definition precommit_clear_all :: "PrecommitVoteAccumulator \<Rightarrow> PrecommitVoteAccumulator" where
  "precommit_clear_all a = a\<lparr>pc_votes := [], pc_signaled := {}\<rparr>"

definition precommit_all_voters :: "PrecommitVoteAccumulator \<Rightarrow> (hash256 \<times> string list) list" where
  "precommit_all_voters a = map (\<lambda>(h, vs). (h, map fst vs)) (pc_votes a)"

section \<open>Votes at both phases\<close>

text \<open>The fields of \<open>TimeVoteConsensus\<close> that block voting uses.\<close>

record block_voting =
  bv_prepare :: PrepareVoteAccumulator
  bv_precommit :: PrecommitVoteAccumulator
  bv_last_voted_height :: u64
  bv_last_block_voters :: "(hash256, string list) dmap"

definition block_voting_new :: block_voting where
  "block_voting_new = \<lparr>bv_prepare = prepare_new, bv_precommit = precommit_new, bv_last_voted_height = 0,
     bv_last_block_voters = []\<rparr>"

definition generate_prepare_vote :: "hash256 \<Rightarrow> string \<Rightarrow> u64 \<Rightarrow> block_voting \<Rightarrow> block_voting" where
  "generate_prepare_vote h i w t = t\<lparr>bv_prepare := prepare_add_vote h i w (bv_prepare t)\<rparr>"

definition accumulate_prepare_vote :: "hash256 \<Rightarrow> string \<Rightarrow> u64 \<Rightarrow> block_voting \<Rightarrow> block_voting" where
  "accumulate_prepare_vote h i w t = t\<lparr>bv_prepare := prepare_add_vote h i w (bv_prepare t)\<rparr>"

definition check_prepare_consensus :: "hash256 \<Rightarrow> block_voting \<Rightarrow> bool \<times> block_voting" where
  "check_prepare_consensus h t =
     (case prepare_check h (bv_prepare t) of (r, a) \<Rightarrow> (r, t\<lparr>bv_prepare := a\<rparr>))"

definition generate_precommit_vote ::
    "hash256 \<Rightarrow> string \<Rightarrow> u64 \<Rightarrow> u8 list \<Rightarrow> block_voting \<Rightarrow> block_voting" where
  "generate_precommit_vote h i w sig t =
     t\<lparr>bv_precommit := precommit_add_vote h i sig w (bv_precommit t)\<rparr>"

definition accumulate_precommit_vote ::
    "hash256 \<Rightarrow> string \<Rightarrow> u64 \<Rightarrow> u8 list \<Rightarrow> block_voting \<Rightarrow> block_voting" where
  "accumulate_precommit_vote h i w sig t =
     t\<lparr>bv_precommit := precommit_add_vote h i sig w (bv_precommit t)\<rparr>"

definition check_precommit_consensus :: "hash256 \<Rightarrow> block_voting \<Rightarrow> bool \<times> block_voting" where
  "check_precommit_consensus h t =
     (case precommit_check h (bv_precommit t) of (r, a) \<Rightarrow> (r, t\<lparr>bv_precommit := a\<rparr>))"

text \<open>\<open>if !voters.contains(&voter) { voters.push(voter) }\<close> for each of a list.\<close>

definition merge_voters :: "string list \<Rightarrow> string list \<Rightarrow> string list" where
  "merge_voters new old = fold (\<lambda>v vs. if v \<in> set vs then vs else vs @ [v]) new old"

definition cleanup_block_votes :: "hash256 \<Rightarrow> block_voting \<Rightarrow> block_voting" where
  "cleanup_block_votes h t =
     (let voters = merge_voters (prepare_voters (bv_prepare t) h) (precommit_voters (bv_precommit t) h)
      in t\<lparr>bv_last_block_voters := (if voters \<noteq> [] then dput h voters (bv_last_block_voters t)
                                   else bv_last_block_voters t),
           bv_prepare := prepare_clear h (bv_prepare t),
           bv_precommit := precommit_clear h (bv_precommit t)\<rparr>)"

definition keep_voters ::
    "hash256 \<times> string list \<Rightarrow> (hash256, string list) dmap \<Rightarrow> (hash256, string list) dmap" where
  "keep_voters e kept = (case e of (h, voters) \<Rightarrow>
     if voters = [] then kept
     else (case dget kept h of
             Some existing \<Rightarrow> dput h (merge_voters voters existing) kept
           | None \<Rightarrow> dput h voters kept))"

definition advance_vote_height :: "u64 \<Rightarrow> block_voting \<Rightarrow> block_voting" where
  "advance_vote_height new_height t =
     (let prev = bv_last_voted_height t; t1 = t\<lparr>bv_last_voted_height := new_height\<rparr>
      in if prev < new_height
         then t1\<lparr>bv_last_block_voters :=
                  fold keep_voters (prepare_all_voters (bv_prepare t))
                    (fold keep_voters (precommit_all_voters (bv_precommit t)) (bv_last_block_voters t)),
                bv_prepare := prepare_clear_all (bv_prepare t),
                bv_precommit := precommit_clear_all (bv_precommit t)\<rparr>
         else t1)"

definition get_finalized_block_voters :: "block_voting \<Rightarrow> hash256 \<Rightarrow> string list" where
  "get_finalized_block_voters t h =
     (case dget (bv_last_block_voters t) h of None \<Rightarrow> [] | Some vs \<Rightarrow> vs)"

end
