(* ===== verification/Block_Majority.thy ===== *)
theory Block_Majority
  imports Block_Votes
begin

text \<open>
  What the block votes guarantee: no voter is counted twice, at any moment at most one block holds
  a majority of the weight that voted, and no voter is lost when votes are cleared. The majority is
  of the weight seen so far: two blocks of one height can be signalled one after the other.
\<close>

section \<open>One vote per voter\<close>

definition ballot_ok :: "('v \<Rightarrow> string) \<Rightarrow> 'v ballots \<Rightarrow> bool" where
  "ballot_ok voter b \<longleftrightarrow> dinv b \<and> (\<forall>h. distinct (map voter (votes_for b h)))
     \<and> (\<forall>h h' v v'. v \<in> set (votes_for b h) \<longrightarrow> v' \<in> set (votes_for b h') \<longrightarrow> voter v = voter v' \<longrightarrow> h = h')"

lemma votes_for_put [simp]: "votes_for (dput h vs b) h' = (if h' = h then vs else votes_for b h')"
  by (simp add: votes_for_def)

lemma votes_for_remove [simp]: "votes_for (dremove h b) h' = (if h' = h then [] else votes_for b h')"
  by (simp add: votes_for_def)

lemma votes_for_Nil [simp]: "votes_for [] h = []"
  by (simp add: votes_for_def)

lemma votes_for_in: "v \<in> set (votes_for b h) \<Longrightarrow> \<exists>vs. (h, vs) \<in> set b \<and> v \<in> set vs"
  by (cases "dget b h") (auto simp: votes_for_def dest: map_of_SomeD)

lemma voted_elsewhereI:
  assumes "v \<in> set (votes_for b h')" "h' \<noteq> h"
  shows "voted_elsewhere voter b h (voter v)"
proof -
  obtain vs where vs: "(h', vs) \<in> set b" "v \<in> set vs" using votes_for_in [OF assms(1)] by blast
  have "list_ex (\<lambda>w. voter w = voter v) vs" using vs(2) by (auto simp: list_ex_iff)
  then have "(\<lambda>(h', vs). h' \<noteq> h \<and> list_ex (\<lambda>w. voter w = voter v) vs) (h', vs)" using assms(2) by simp
  then show ?thesis using vs(1) unfolding voted_elsewhere_def list_ex_iff by blast
qed

lemma cast_vote_ok:
  assumes "ballot_ok voter b"
  shows "ballot_ok voter (cast_vote voter h v b)"
proof -
  have keep: "ballot_ok voter (dput h (votes_for b h) b)" using assms by (auto simp: ballot_ok_def)
  have "ballot_ok voter (dput h (votes_for b h @ [v]) b)"
    if e: "\<not> voted_elsewhere voter b h (voter v)" and n: "voter v \<notin> voter ` set (votes_for b h)"
  proof -
    have "voter w \<noteq> voter v" if "w \<in> set (votes_for b h')" "h' \<noteq> h" for w h'
      using e voted_elsewhereI [OF that, of voter] by auto
    then show ?thesis using assms n unfolding ballot_ok_def
      by (simp add: al.invar_put) (metis imageI)
  qed
  moreover have "voter v \<notin> voter ` set (votes_for b h)" if "\<not> list_ex (\<lambda>w. voter w = voter v) (votes_for b h)"
    using that by (auto simp: list_ex_iff)
  ultimately show ?thesis using assms keep by (simp add: cast_vote_def)
qed

lemma remove_ok: "ballot_ok voter b \<Longrightarrow> ballot_ok voter (dremove h b)"
  by (auto simp: ballot_ok_def)

lemma empty_ok: "ballot_ok voter []"
  by (simp add: ballot_ok_def)

lemma votes_for_filter:
  "votes_for (map (\<lambda>(h, vs). (h, filter P vs)) b) h = filter P (votes_for b h)"
  by (induction b) (auto simp: votes_for_def)

lemma filter_ok:
  assumes "ballot_ok voter b"
  shows "ballot_ok voter (map (\<lambda>(h, vs). (h, filter P vs)) b)"
proof -
  have "map fst (map (\<lambda>(h, vs). (h, filter P vs)) b) = map fst b" by (induction b) auto
  then have "dinv (map (\<lambda>(h, vs). (h, filter P vs)) b)"
    using assms unfolding ballot_ok_def dinv_def by metis
  then show ?thesis using assms unfolding ballot_ok_def votes_for_filter
    by (simp add: distinct_map_filter) blast
qed

section \<open>Weights\<close>

lemma count_once_distinct:
  "distinct (map voter vs) \<Longrightarrow> voter ` set vs \<inter> seen = {} \<Longrightarrow>
     snd (count_once voter weight vs (seen, tot)) = tot + sum_list (map weight vs)"
  by (induction vs arbitrary: seen tot) (auto simp: add.assoc)

lemma votes_for_Cons:
  "votes_for ((h, vs) # b) h' = (if h' = h then vs else votes_for b h')"
  by (simp add: votes_for_def)

lemma votes_for_absent: "h \<notin> fst ` set b \<Longrightarrow> votes_for b h = []"
  by (simp add: votes_for_def map_of_eq_None_iff [THEN iffD2])

lemma ballot_ok_Cons:
  assumes "ballot_ok voter ((h, vs) # b)"
  shows "ballot_ok voter b" "h \<notin> fst ` set b"
    "voter ` set vs \<inter> voter ` set (concat (map snd b)) = {}" "distinct (map voter vs)"
proof -
  have h: "h \<notin> fst ` set b" and d: "dinv b" using assms by (auto simp: ballot_ok_def dinv_def)
  have eq: "votes_for b h' = (if h' = h then [] else votes_for ((h, vs) # b) h')" for h'
    by (simp add: votes_for_Cons votes_for_absent [OF h])
  show "ballot_ok voter b" using assms d unfolding ballot_ok_def eq by (simp split: if_splits)
  show "h \<notin> fst ` set b" by (rule h)
  have "distinct (map voter (votes_for ((h, vs) # b) h))" using assms unfolding ballot_ok_def by blast
  then show "distinct (map voter vs)" by (simp add: votes_for_Cons)
  have "voter ` set vs \<inter> voter ` set ws = {}" if "(h', ws) \<in> set b" for h' ws
  proof -
    have "h' \<noteq> h" using that h by force
    then have ws: "votes_for ((h, vs) # b) h' = ws"
      using in_set_dget [OF d] that by (simp add: votes_for_def)
    have "voter x \<noteq> voter y" if "x \<in> set vs" "y \<in> set ws" for x y
    proof
      assume eq: "voter x = voter y"
      have "x \<in> set (votes_for ((h, vs) # b) h)" using that(1) by (simp add: votes_for_Cons)
      moreover have "y \<in> set (votes_for ((h, vs) # b) h')" using that(2) by (simp add: ws)
      ultimately show False using assms eq \<open>h' \<noteq> h\<close> unfolding ballot_ok_def by blast
    qed
    then show ?thesis by auto
  qed
  then show "voter ` set vs \<inter> voter ` set (concat (map snd b)) = {}" by fastforce
qed

lemma ballot_ok_distinct: "ballot_ok voter b \<Longrightarrow> distinct (map voter (concat (map snd b)))"
proof (induction b)
  case (Cons e b)
  obtain h vs where e: "e = (h, vs)" by (cases e)
  note p = ballot_ok_Cons [OF Cons.prems [unfolded e]]
  show ?case using Cons.IH [OF p(1)] p(3,4) by (auto simp: e)
qed simp

definition voted_weight :: "('v \<Rightarrow> u64) \<Rightarrow> 'v list \<Rightarrow> nat" where
  "voted_weight weight vs = (\<Sum>v\<leftarrow>vs. unat (weight v))"

lemma weight_by_block:
  "dinv b \<Longrightarrow> voted_weight weight (concat (map snd b)) = (\<Sum>h \<in> fst ` set b. voted_weight weight (votes_for b h))"
proof (induction b)
  case (Cons e b)
  obtain h vs where e: "e = (h, vs)" by (cases e)
  have h: "h \<notin> fst ` set b" and d: "dinv b" using Cons.prems by (auto simp: e dinv_def)
  have "(\<Sum>x \<in> fst ` set b. voted_weight weight (votes_for (e # b) x))
      = (\<Sum>x \<in> fst ` set b. voted_weight weight (votes_for b x))"
    by (rule sum.cong) (use h in \<open>auto simp: e votes_for_Cons\<close>)
  then show ?case using Cons.IH [OF d] h
    by (simp add: e votes_for_Cons voted_weight_def)
qed (simp add: voted_weight_def)

lemma two_blocks_weight:
  assumes d: "dinv b" and "h \<noteq> h'"
  shows "voted_weight weight (votes_for b h) + voted_weight weight (votes_for b h')
    \<le> voted_weight weight (concat (map snd b))"
proof -
  let ?w = "\<lambda>x. voted_weight weight (votes_for b x)"
  have z: "?w x = 0" if "x \<notin> fst ` set b" for x
    using votes_for_absent [OF that] by (simp add: voted_weight_def)
  have "?w h + ?w h' = sum ?w {h, h'}" using assms(2) by simp
  also have "\<dots> = sum ?w ({h, h'} \<inter> fst ` set b)"
  proof (rule sum.mono_neutral_right)
    show "\<forall>x \<in> {h, h'} - {h, h'} \<inter> fst ` set b. ?w x = 0"
    proof
      fix x assume "x \<in> {h, h'} - {h, h'} \<inter> fst ` set b"
      then have "x \<notin> fst ` set b" by blast
      then show "?w x = 0" by (rule z)
    qed
  qed auto
  also have "\<dots> \<le> sum ?w (fst ` set b)" by (rule sum_mono2) auto
  finally show ?thesis using weight_by_block [OF d, of weight] by simp
qed

lemma majority_iff:
  assumes "ballot_ok voter b" "voted_weight weight (concat (map snd b)) < 2 ^ 64"
  shows "majority voter weight b h \<longleftrightarrow> 2 \<le> length (votes_for b h)
    \<and> voted_weight weight (concat (map snd b)) < 2 * voted_weight weight (votes_for b h)"
proof -
  let ?all = "concat (map snd b)"
  have "participating voter weight b = sum_list (map weight ?all)"
    using count_once_distinct [OF ballot_ok_distinct [OF assms(1)], of "{}" weight 0]
    by (simp add: participating_def)
  then have p: "unat (participating voter weight b) = voted_weight weight ?all"
    using assms(2) unat_sum_list [of "map weight ?all"] by (simp add: voted_weight_def comp_def)
  have "h \<noteq> replicate (length h + 1) 0" by (metis Suc_eq_plus1 length_replicate n_not_Suc_n)
  then have "voted_weight weight (votes_for b h) \<le> voted_weight weight ?all"
    using two_blocks_weight [of b h _ weight] assms(1) by (metis add_leD1 ballot_ok_def)
  then have w: "unat (sum_list (map weight (votes_for b h))) = voted_weight weight (votes_for b h)"
    using assms(2) unat_sum_list [of "map weight (votes_for b h)"] by (simp add: voted_weight_def comp_def)
  have "0 < participating voter weight b \<and> participating voter weight b div 2 < sum_list (map weight vs) \<longleftrightarrow>
      voted_weight weight ?all < 2 * voted_weight weight vs" if "vs = votes_for b h" for vs
    using p w that \<open>voted_weight weight (votes_for b h) \<le> _\<close>
    by (auto simp: word_less_nat_alt unat_div)
  then show ?thesis by (auto simp: majority_def votes_for_def split: option.splits)
qed

section \<open>Sequences of calls\<close>

datatype voting_call =
    PrepareVote hash256 string u64
  | PrecommitVote hash256 string u64 "u8 list"
  | CheckPrepare hash256
  | CheckPrecommit hash256
  | RemoveVoter string
  | CleanupVotes hash256
  | AdvanceHeight u64

definition voting_exec :: "voting_call \<Rightarrow> block_voting \<Rightarrow> block_voting" where
  "voting_exec c t = (case c of
     PrepareVote h i w \<Rightarrow> accumulate_prepare_vote h i w t
   | PrecommitVote h i w sig \<Rightarrow> accumulate_precommit_vote h i w sig t
   | CheckPrepare h \<Rightarrow> snd (check_prepare_consensus h t)
   | CheckPrecommit h \<Rightarrow> snd (check_precommit_consensus h t)
   | RemoveVoter i \<Rightarrow> t\<lparr>bv_prepare := prepare_remove_voter i (bv_prepare t)\<rparr>
   | CleanupVotes h \<Rightarrow> cleanup_block_votes h t
   | AdvanceHeight n \<Rightarrow> advance_vote_height n t)"

definition voting_ok :: "block_voting \<Rightarrow> bool" where
  "voting_ok t \<longleftrightarrow> ballot_ok fst (pv_votes (bv_prepare t)) \<and> ballot_ok fst (pc_votes (bv_precommit t))"

lemmas voting_defs = accumulate_prepare_vote_def accumulate_precommit_vote_def
  check_prepare_consensus_def check_precommit_consensus_def cleanup_block_votes_def
  advance_vote_height_def prepare_add_vote_def precommit_add_vote_def prepare_check_def
  precommit_check_def prepare_remove_voter_def prepare_clear_def precommit_clear_def
  prepare_clear_all_def precommit_clear_all_def

lemma voting_exec_ok: "voting_ok t \<Longrightarrow> voting_ok (voting_exec c t)"
  by (cases c) (simp_all add: voting_exec_def voting_ok_def voting_defs cast_vote_ok remove_ok empty_ok
      filter_ok Let_def)

lemma voting_run_ok: "voting_ok (fold voting_exec calls block_voting_new)"
proof -
  have "voting_ok t \<Longrightarrow> voting_ok (fold voting_exec calls t)" for t
    by (induction calls arbitrary: t) (simp_all add: voting_exec_ok)
  moreover have "voting_ok block_voting_new"
    by (simp add: voting_ok_def block_voting_new_def prepare_new_def precommit_new_def empty_ok)
  ultimately show ?thesis .
qed

text \<open>
  C25. After any sequence of votes, checks, re-votes, clean-ups and height changes, a block that
  passes the precommit check has at least two voters, all different, and more than half of the
  weight of all precommit votes held, and no other block passes the check on these votes; the same
  block does not pass a second time. (The weights together fit 64 bits.)
\<close>

theorem precommit_majority_unique:
  assumes run: "t = fold voting_exec calls block_voting_new"
    and small: "voted_weight pc_weight (concat (map snd (pc_votes (bv_precommit t)))) < 2 ^ 64"
    and pass: "fst (check_precommit_consensus h t)"
  shows "2 \<le> length (precommit_voters (bv_precommit t) h)
    \<and> distinct (precommit_voters (bv_precommit t) h)
    \<and> voted_weight pc_weight (concat (map snd (pc_votes (bv_precommit t))))
        < 2 * voted_weight pc_weight (votes_for (pc_votes (bv_precommit t)) h)
    \<and> (h' \<noteq> h \<longrightarrow> \<not> fst (check_precommit_consensus h' t))
    \<and> \<not> fst (check_precommit_consensus h (snd (check_precommit_consensus h t)))"
proof -
  let ?b = "pc_votes (bv_precommit t)"
  have ok: "ballot_ok fst ?b" using voting_run_ok [of calls] by (simp add: run voting_ok_def)
  have sig: "majority fst pc_weight ?b k" if "fst (check_precommit_consensus k t)" for k
    using that by (auto simp: check_precommit_consensus_def precommit_check_def split: prod.splits if_splits)
  note m = majority_iff [OF ok small]
  have h: "2 \<le> length (votes_for ?b h)"
    "voted_weight pc_weight (concat (map snd ?b)) < 2 * voted_weight pc_weight (votes_for ?b h)"
    using sig [OF pass] m by auto
  have "\<not> fst (check_precommit_consensus h' t)" if "h' \<noteq> h"
  proof
    assume "fst (check_precommit_consensus h' t)"
    then have "voted_weight pc_weight (concat (map snd ?b)) < 2 * voted_weight pc_weight (votes_for ?b h')"
      using sig m by blast
    moreover have "dinv ?b" using ok by (simp add: ballot_ok_def)
    ultimately show False using two_blocks_weight [OF _ that, of ?b pc_weight] h(2) by linarith
  qed
  moreover have "distinct (map fst (votes_for ?b h))" using ok unfolding ballot_ok_def by blast
  moreover have "\<not> fst (check_precommit_consensus h (snd (check_precommit_consensus h t)))"
    using pass by (auto simp: check_precommit_consensus_def precommit_check_def split: prod.splits if_splits)
  ultimately show ?thesis using h by (simp add: precommit_voters_def)
qed

definition vote_calls :: "voting_call list" where
  "vote_calls = [PrecommitVote [1] ''a'' 10 [], PrecommitVote [1] ''b'' 10 [], PrecommitVote [1] ''a'' 10 [],
     PrecommitVote [2] ''a'' 10 [], PrecommitVote [2] ''c'' 1 []]"

lemma vote_calls_run:
  "pc_votes (bv_precommit (fold voting_exec vote_calls block_voting_new))
     = [([1], [(''a'', [], 10), (''b'', [], 10)]), ([2], [(''c'', [], 1)])]"
  "pc_signaled (bv_precommit (fold voting_exec vote_calls block_voting_new)) = {}"
  by (simp_all add: vote_calls_def voting_exec_def voting_defs block_voting_new_def prepare_new_def
      precommit_new_def cast_vote_def voted_elsewhere_def votes_for_def)

theorem precommit_majority_unique_witness:
  "let t = fold voting_exec vote_calls block_voting_new
   in precommit_voters (bv_precommit t) [1] = [''a'', ''b''] \<and> fst (check_precommit_consensus [1] t)
     \<and> \<not> fst (check_precommit_consensus [2] t)"
proof -
  let ?t = "fold voting_exec vote_calls block_voting_new"
  have pass: "fst (check_precommit_consensus [1] ?t)"
    by (simp add: check_precommit_consensus_def precommit_check_def vote_calls_run majority_def
        participating_def pc_weight_def)
  have small: "voted_weight pc_weight (concat (map snd (pc_votes (bv_precommit ?t)))) < 2 ^ 64"
    by (simp add: vote_calls_run voted_weight_def pc_weight_def)
  have "\<not> fst (check_precommit_consensus [2] ?t)"
    using precommit_majority_unique [OF refl small pass, of "[2]"] by simp
  then show ?thesis using pass by (simp add: Let_def precommit_voters_def vote_calls_run votes_for_def)
qed

text \<open>
  The majority is of the weight that voted so far. Two nodes that vote first sign off one block;
  once three others have voted for a competitor of the same height, that one is signed off too.
\<close>

lemma two_blocks_signalled:
  "let t1 = fold voting_exec [PrecommitVote [1] ''a'' 1 [], PrecommitVote [1] ''b'' 1 []] block_voting_new;
       t2 = fold voting_exec [CheckPrecommit [1], PrecommitVote [2] ''c'' 1 [], PrecommitVote [2] ''d'' 1 [],
              PrecommitVote [2] ''e'' 1 []] t1
   in fst (check_precommit_consensus [1] t1) \<and> fst (check_precommit_consensus [2] t2)"
  by (simp add: voting_exec_def voting_defs block_voting_new_def prepare_new_def precommit_new_def
      cast_vote_def voted_elsewhere_def votes_for_def majority_def participating_def pc_weight_def Let_def)

section \<open>No voter is lost\<close>

lemma set_merge_voters: "set (merge_voters new old) = set new \<union> set old"
  unfolding merge_voters_def by (induction new arbitrary: old) (auto split: if_splits)

lemma keep_voters_set:
  "set (votes_for (keep_voters (k, voters) kept) h)
     = set (votes_for kept h) \<union> (if k = h then set voters else {})"
  by (auto simp: keep_voters_def votes_for_def set_merge_voters split: option.splits)

lemma keep_fold_set:
  "set (votes_for (fold keep_voters es kept) h)
     = set (votes_for kept h) \<union> \<Union> (set ` snd ` {e \<in> set es. fst e = h})"
proof (induction es arbitrary: kept)
  case (Cons e es)
  obtain k voters where e: "e = (k, voters)" by (cases e)
  have "{x \<in> set (e # es). fst x = h} = (if k = h then {e} else {}) \<union> {x \<in> set es. fst x = h}"
    by (auto simp: e)
  then show ?case by (auto simp: Cons.IH e keep_voters_set)
qed simp

lemma block_voters_of:
  assumes "dinv b"
  shows "\<Union> (set ` snd ` {e \<in> set (map (\<lambda>(h, vs). (h, map f vs)) b). fst e = h}) = f ` set (votes_for b h)"
proof -
  have eq: "{e \<in> set (map (\<lambda>(h, vs). (h, map f vs)) b). fst e = h} = (\<lambda>vs. (h, map f vs)) ` {vs. dget b h = Some vs}"
    using in_set_dget [OF assms] by force
  show ?thesis unfolding eq by (cases "dget b h") (simp_all add: votes_for_def)
qed

lemma keep_all_set:
  "dinv b \<Longrightarrow> set (votes_for (fold keep_voters (map (\<lambda>(h, vs). (h, map f vs)) b) kept) h)
     = set (votes_for kept h) \<union> f ` set (votes_for b h)"
  by (simp only: keep_fold_set block_voters_of)

text \<open>
  Moving to a higher block clears all votes but loses no voter: after any sequence of calls, the
  voters recorded for a block are those recorded before and everyone whose prepare or precommit
  vote for it was held, and the next height starts without votes.
\<close>

theorem advance_loses_no_voter:
  assumes run: "t = fold voting_exec calls block_voting_new"
    and up: "bv_last_voted_height t < n"
  shows "set (get_finalized_block_voters (advance_vote_height n t) h)
      = set (get_finalized_block_voters t h) \<union> set (prepare_voters (bv_prepare t) h)
        \<union> set (precommit_voters (bv_precommit t) h)
    \<and> pv_votes (bv_prepare (advance_vote_height n t)) = []
    \<and> pc_votes (bv_precommit (advance_vote_height n t)) = []"
proof -
  have ok: "dinv (pv_votes (bv_prepare t))" "dinv (pc_votes (bv_precommit t))"
    using voting_run_ok [of calls] by (simp_all add: run voting_ok_def ballot_ok_def)
  have g: "get_finalized_block_voters t h = votes_for (bv_last_block_voters t) h" for t
    by (simp add: get_finalized_block_voters_def votes_for_def)
  show ?thesis using up unfolding g
    by (simp add: advance_vote_height_def Let_def keep_all_set ok prepare_all_voters_def precommit_all_voters_def
        prepare_voters_def precommit_voters_def
        prepare_clear_all_def precommit_clear_all_def Un_ac)
qed

theorem advance_loses_no_voter_witness:
  "set (get_finalized_block_voters (advance_vote_height 7 (fold voting_exec vote_calls block_voting_new)) [1])
     = {''a'', ''b''}"
proof -
  let ?t = "fold voting_exec vote_calls block_voting_new"
  have t: "bv_last_voted_height ?t = 0" "bv_last_block_voters ?t = []" "pv_votes (bv_prepare ?t) = []"
    by (simp_all add: vote_calls_def voting_exec_def voting_defs block_voting_new_def prepare_new_def)
  have "bv_last_voted_height ?t < 7" by (simp add: t)
  from advance_loses_no_voter [OF refl this, of "[1]"] show ?thesis
    by (simp add: t vote_calls_run get_finalized_block_voters_def prepare_voters_def precommit_voters_def
        votes_for_def)
qed

end
