(* ===== verification/Time_Vote.thy ===== *)
theory Time_Vote
  imports Finality Block_Votes Tx_Pool
begin

text \<open>
  Voting on transactions (\<open>TimeVoteConsensus\<close> in \<open>src/consensus.rs\<close>): accumulation of signed votes,
  the finality check, certificates and competing certificates, and the record of finalized
  transactions. The masternode registry is the argument \<open>active\<close>, the list it returns as active
  masternodes; instants are those of \<open>Tx_Pool\<close>. Metrics that nothing reads are left out.
\<close>

section \<open>State\<close>

text \<open>The three readings of the clock: monotonic, seconds and milliseconds of the epoch.\<close>

record clock =
  ck_instant :: instant
  ck_secs :: i64
  ck_millis :: i64

datatype Preference = PrefAccept | PrefReject

record VotingState =
  vs_preference :: Preference
  vs_last_finalized :: "Preference option"

definition voting_state_new :: "Preference \<Rightarrow> VotingState" where
  "voting_state_new p = \<lparr>vs_preference = p, vs_last_finalized = None\<rparr>"

definition voting_state_finalize :: "VotingState \<Rightarrow> VotingState" where
  "voting_state_finalize s = s\<lparr>vs_last_finalized := Some (vs_preference s)\<rparr>"

record TimeProofConflictInfo =
  ci_txid :: hash256
  ci_slot_index :: u64
  ci_proof_count :: nat
  ci_proof_weights :: "u64 list"
  ci_max_weight :: u64
  ci_winning_proof_index :: nat
  ci_detected_at :: u64
  ci_resolved :: bool

record TimeVoteConsensus =
  tc_tx_state :: "(hash256, VotingState) dmap"
  tc_finalized_txs :: "(hash256, Preference \<times> instant) dmap"
  tc_avs_snapshots :: "(u64, AVSSnapshot) dmap"
  tc_votes :: "(hash256, TimeVote list) dmap"
  tc_weight :: "(hash256, u64) dmap"
  tc_blocks :: block_voting
  tc_tx_status :: "(hash256, TransactionStatus) dmap"
  tc_stall_timers :: "(hash256, instant) dmap"
  tc_alerts :: "(hash256, LivenessAlert list) dmap"
  tc_fallback_votes :: "(hash256, FallbackVote list) dmap"
  tc_proposal_to_tx :: "(hash256, hash256) dmap"
  tc_fallback_rounds :: "(hash256, u64 \<times> u32 \<times> instant) dmap"
  tc_byzantine :: "(string, bool) dmap"
  tc_competing :: "(hash256, TimeProof list) dmap"
  tc_conflicts :: "(hash256 \<times> u64, TimeProofConflictInfo) dmap"
  tc_txs_finalized :: usize
  tc_fallback_activations :: usize
  tc_conflicts_detected :: usize

definition timevote_new :: TimeVoteConsensus where
  "timevote_new = \<lparr>tc_tx_state = [], tc_finalized_txs = [], tc_avs_snapshots = [], tc_votes = [],
     tc_weight = [], tc_blocks = block_voting_new, tc_tx_status = [], tc_stall_timers = [], tc_alerts = [],
     tc_fallback_votes = [], tc_proposal_to_tx = [], tc_fallback_rounds = [], tc_byzantine = [],
     tc_competing = [], tc_conflicts = [], tc_txs_finalized = 0, tc_fallback_activations = 0,
     tc_conflicts_detected = 0\<rparr>"

section \<open>Tracking\<close>

definition get_validators :: "Masternode list \<Rightarrow> ValidatorInfo list" where
  "get_validators active =
     map (\<lambda>mn. \<lparr>vi_address = mn_address mn, vi_weight = sampling_weight (mn_tier mn)\<rparr>) active"

definition get_validator_addresses :: "Masternode list \<Rightarrow> string list" where
  "get_validator_addresses active = map vi_address (get_validators active)"

definition forget_tx :: "hash256 \<Rightarrow> TimeVoteConsensus \<Rightarrow> TimeVoteConsensus" where
  "forget_tx tid t = t\<lparr>tc_finalized_txs := dremove tid (tc_finalized_txs t),
     tc_tx_state := dremove tid (tc_tx_state t), tc_votes := dremove tid (tc_votes t),
     tc_weight := dremove tid (tc_weight t)\<rparr>"

text \<open>\<open>Instant::now() - retention\<close>; both are nanoseconds.\<close>

definition cleanup_old_finalized :: "instant \<Rightarrow> nat \<Rightarrow> TimeVoteConsensus \<Rightarrow> nat \<times> TimeVoteConsensus" where
  "cleanup_old_finalized now retention_secs t =
     (let cutoff = now - retention_secs * 1000000000;
          old = map fst (filter (\<lambda>(_, _, at). at < cutoff) (tc_finalized_txs t))
      in (length old, fold forget_tx old t))"

definition initiate_consensus ::
    "hash256 \<Rightarrow> Preference \<Rightarrow> TimeVoteConsensus \<Rightarrow> bool \<times> TimeVoteConsensus" where
  "initiate_consensus tid p t =
     (if dhas (tc_finalized_txs t) tid then (False, t)
      else if dhas (tc_tx_state t) tid then (False, t)
      else (True, t\<lparr>tc_tx_state := dput tid (voting_state_new p) (tc_tx_state t)\<rparr>))"

definition get_tx_state :: "TimeVoteConsensus \<Rightarrow> hash256 \<Rightarrow> (Preference \<times> bool) option" where
  "get_tx_state t tid = map_option (\<lambda>s. (vs_preference s, dhas (tc_finalized_txs t) tid)) (dget (tc_tx_state t) tid)"

definition timevote_is_finalized :: "TimeVoteConsensus \<Rightarrow> hash256 \<Rightarrow> bool" where
  "timevote_is_finalized t tid = dhas (tc_finalized_txs t) tid"

definition get_finalized_preference :: "TimeVoteConsensus \<Rightarrow> hash256 \<Rightarrow> Preference option" where
  "get_finalized_preference t tid = map_option fst (dget (tc_finalized_txs t) tid)"

definition create_avs_snapshot ::
    "u64 \<Rightarrow> Masternode list \<Rightarrow> u64 \<Rightarrow> TimeVoteConsensus \<Rightarrow> AVSSnapshot \<times> TimeVoteConsensus" where
  "create_avs_snapshot now active slot t =
     (let snapshot = avs_new_with_ref now slot (get_validators active);
          snaps = dput slot snapshot (tc_avs_snapshots t)
      in (snapshot, t\<lparr>tc_avs_snapshots := (if 100 < slot then dremove (slot - 100) snaps else snaps)\<rparr>))"

definition get_avs_snapshot :: "TimeVoteConsensus \<Rightarrow> u64 \<Rightarrow> AVSSnapshot option" where
  "get_avs_snapshot t slot = dget (tc_avs_snapshots t) slot"

section \<open>Votes\<close>

datatype VoteError =
    NotActive string
  | VoteSignature
  | DuplicateVote string
  | WeightOverflow
  | DuplicateInProof
  | NoVotesFound
  | NoAcceptVotes
  | SlotsDiffer
  | CommitmentsDiffer

definition get_accumulated_votes :: "TimeVoteConsensus \<Rightarrow> hash256 \<Rightarrow> TimeVote list" where
  "get_accumulated_votes t tid = (case dget (tc_votes t) tid of None \<Rightarrow> [] | Some vs \<Rightarrow> vs)"

definition get_accumulated_weight :: "TimeVoteConsensus \<Rightarrow> hash256 \<Rightarrow> u64" where
  "get_accumulated_weight t tid = (case dget (tc_weight t) tid of None \<Rightarrow> 0 | Some w \<Rightarrow> w)"

definition checked_add :: "u64 \<Rightarrow> u64 \<Rightarrow> u64 option" where
  "checked_add a b = (if unat a + unat b < 2 ^ 64 then Some (a + b) else None)"

definition find_active :: "Masternode list \<Rightarrow> string \<Rightarrow> Masternode option" where
  "find_active active i = List.find (\<lambda>mn. mn_address mn = i) active"

definition accumulate_timevote ::
    "extern \<Rightarrow> Masternode list \<Rightarrow> TimeVote \<Rightarrow> TimeVoteConsensus \<Rightarrow> (VoteError + u64) \<times> TimeVoteConsensus" where
  "accumulate_timevote X active v t =
     (case find_active active (tv_voter_mn_id v) of
        None \<Rightarrow> (Inl (NotActive (tv_voter_mn_id v)), t)
      | Some mn \<Rightarrow>
          if \<not> vote_verify X v (mn_public_key mn) then (Inl VoteSignature, t)
          else let tid = tv_txid v; votes = get_accumulated_votes t tid
            in if list_ex (\<lambda>w. tv_voter_mn_id w = tv_voter_mn_id v) votes
               then (Inl (DuplicateVote (tv_voter_mn_id v)), t)
               else let t1 = t\<lparr>tc_votes := dput tid (votes @ [v]) (tc_votes t)\<rparr>
                 in if tv_decision v = Accept
                    then (case checked_add (get_accumulated_weight t tid) (tv_voter_weight v) of
                            None \<Rightarrow> (Inl WeightOverflow,
                              t1\<lparr>tc_weight := dput tid (get_accumulated_weight t tid) (tc_weight t)\<rparr>)
                          | Some w \<Rightarrow> (Inr w, t1\<lparr>tc_weight := dput tid w (tc_weight t)\<rparr>))
                    else (Inr (get_accumulated_weight t tid), t1))"

fun finality_loop ::
    "AVSSnapshot \<Rightarrow> TimeVote list \<Rightarrow> u64 \<Rightarrow> string set \<Rightarrow> VoteError + u64" where
  "finality_loop snapshot [] tot seen = Inr tot"
| "finality_loop snapshot (v # vs) tot seen =
     (if tv_decision v \<noteq> Accept then finality_loop snapshot vs tot seen
      else if \<not> contains_validator snapshot (tv_voter_mn_id v) then finality_loop snapshot vs tot seen
      else if tv_voter_mn_id v \<in> seen then Inl DuplicateInProof
      else (case get_validator_weight snapshot (tv_voter_mn_id v) of
          None \<Rightarrow> finality_loop snapshot vs tot (insert (tv_voter_mn_id v) seen)
        | Some w \<Rightarrow> (case checked_add tot w of
              None \<Rightarrow> Inl WeightOverflow
            | Some tot' \<Rightarrow> finality_loop snapshot vs tot' (insert (tv_voter_mn_id v) seen))))"

definition check_timeproof_finality ::
    "TimeVoteConsensus \<Rightarrow> hash256 \<Rightarrow> AVSSnapshot \<Rightarrow> VoteError + bool" where
  "check_timeproof_finality t tid snapshot =
     (case get_accumulated_votes t tid of
        [] \<Rightarrow> Inr False
      | votes \<Rightarrow> (case finality_loop snapshot votes 0 {} of
            Inl e \<Rightarrow> Inl e | Inr tot \<Rightarrow> Inr (voting_threshold snapshot \<le> tot)))"

definition clear_timeproof_votes :: "hash256 \<Rightarrow> TimeVoteConsensus \<Rightarrow> TimeVoteConsensus" where
  "clear_timeproof_votes tid t =
     t\<lparr>tc_votes := dremove tid (tc_votes t), tc_weight := dremove tid (tc_weight t)\<rparr>"

section \<open>Certificates\<close>

definition record_finalization :: "clock \<Rightarrow> hash256 \<Rightarrow> u64 \<Rightarrow> TimeVoteConsensus \<Rightarrow> TimeVoteConsensus" where
  "record_finalization ck tid w t =
     t\<lparr>tc_finalized_txs := dput tid (PrefAccept, ck_instant ck) (tc_finalized_txs t),
       tc_tx_status := dput tid (Finalized (ck_millis ck) w) (tc_tx_status t),
       tc_txs_finalized := tc_txs_finalized t + 1\<rparr>"

definition assemble_timeproof :: "TimeVoteConsensus \<Rightarrow> hash256 \<Rightarrow> VoteError + TimeProof" where
  "assemble_timeproof t tid =
     (if get_accumulated_votes t tid = [] then Inl NoVotesFound
      else let accept_votes = filter (\<lambda>v. tv_decision v = Accept) (get_accumulated_votes t tid)
        in case accept_votes of
             [] \<Rightarrow> Inl NoAcceptVotes
           | r # _ \<Rightarrow>
               if \<not> list_all (\<lambda>v. tv_slot_index v = tv_slot_index r) accept_votes then Inl SlotsDiffer
               else if \<not> list_all (\<lambda>v. tv_txid v = tid
                         \<and> tv_tx_hash_commitment v = tv_tx_hash_commitment r) accept_votes
               then Inl CommitmentsDiffer
               else Inr \<lparr>tp_txid = tid, tp_slot_index = tv_slot_index r, tp_votes = accept_votes\<rparr>)"

definition verify_timeproof :: "extern \<Rightarrow> Masternode list \<Rightarrow> TimeProof \<Rightarrow> FinalityError + u64" where
  "verify_timeproof X active p =
     proof_verify X p (sum_list (map (sampling_weight \<circ> mn_tier) active))
       (\<lambda>i. map_option mn_public_key (find_active active i))"

fun checked_sum :: "u64 \<Rightarrow> u64 list \<Rightarrow> u64 option" where
  "checked_sum tot [] = Some tot"
| "checked_sum tot (w # ws) =
     (case checked_add tot w of None \<Rightarrow> None | Some tot' \<Rightarrow> checked_sum tot' ws)"

definition calculate_timeproof_weight :: "TimeProof \<Rightarrow> u64 option" where
  "calculate_timeproof_weight p = checked_sum 0 (map tv_voter_weight (tp_votes p))"

fun proof_weights :: "TimeProof list \<Rightarrow> u64 list option" where
  "proof_weights [] = Some []"
| "proof_weights (p # ps) =
     (case calculate_timeproof_weight p of None \<Rightarrow> None
      | Some w \<Rightarrow> (case proof_weights ps of None \<Rightarrow> None | Some ws \<Rightarrow> Some (w # ws)))"

text \<open>\<open>max_by_key\<close> keeps the last maximal element: index and value.\<close>

fun last_max :: "nat \<Rightarrow> u64 list \<Rightarrow> nat \<times> u64 \<Rightarrow> nat \<times> u64" where
  "last_max i [] best = best"
| "last_max i (w # ws) (j, b) = last_max (Suc i) ws (if b \<le> w then (i, w) else (j, b))"

definition competing_proofs :: "TimeVoteConsensus \<Rightarrow> hash256 \<Rightarrow> TimeProof list" where
  "competing_proofs t tid = (case dget (tc_competing t) tid of None \<Rightarrow> [] | Some ps \<Rightarrow> ps)"

definition detect_competing_timeproof ::
    "clock \<Rightarrow> TimeProof \<Rightarrow> u64 \<Rightarrow> TimeVoteConsensus \<Rightarrow> nat option \<times> TimeVoteConsensus" where
  "detect_competing_timeproof ck p new_weight t =
     (let tid = tp_txid p; old = competing_proofs t tid;
          t0 = t\<lparr>tc_competing := dput tid old (tc_competing t)\<rparr>
      in case proof_weights old of
           None \<Rightarrow> (None, t0)
         | Some ws \<Rightarrow>
             (let weights = ws @ [new_weight]; proofs = old @ [p];
                  (win, max_weight) = last_max 1 (tl weights) (0, hd weights);
                  t1 = t0\<lparr>tc_competing := dput tid proofs (tc_competing t0)\<rparr>
              in (Some win,
                  if 2 \<le> length proofs
                  then t1\<lparr>tc_conflicts := dput (tid, tp_slot_index p)
                           \<lparr>ci_txid = tid, ci_slot_index = tp_slot_index p, ci_proof_count = length proofs,
                            ci_proof_weights = weights, ci_max_weight = max_weight,
                            ci_winning_proof_index = win, ci_detected_at = ck_secs ck,
                            ci_resolved = False\<rparr> (tc_conflicts t1),
                         tc_conflicts_detected := tc_conflicts_detected t1 + 1\<rparr>
                  else t1)))"

fun first_max :: "TimeProof list \<Rightarrow> u64 \<times> TimeProof \<Rightarrow> (u64 \<times> TimeProof) option" where
  "first_max [] best = Some best"
| "first_max (p # ps) (b, w) =
     (case calculate_timeproof_weight p of None \<Rightarrow> None
      | Some x \<Rightarrow> first_max ps (if b < x then (x, p) else (b, w)))"

definition resolve_timeproof_fork ::
    "hash256 \<Rightarrow> TimeVoteConsensus \<Rightarrow> (VoteError + TimeProof option) \<times> TimeVoteConsensus" where
  "resolve_timeproof_fork tid t =
     (case dget (tc_competing t) tid of
        None \<Rightarrow> (Inr None, t)
      | Some [] \<Rightarrow> (Inr None, t)
      | Some (p # ps) \<Rightarrow>
          (case first_max (p # ps) (0, p) of
             None \<Rightarrow> (Inl WeightOverflow, t)
           | Some (_, win) \<Rightarrow>
               (Inr (Some win),
                (case dget (tc_conflicts t) (tid, tp_slot_index win) of
                   None \<Rightarrow> t
                 | Some c \<Rightarrow> t\<lparr>tc_conflicts := dput (tid, tp_slot_index win) (c\<lparr>ci_resolved := True\<rparr>)
                                (tc_conflicts t)\<rparr>))))"

definition get_conflict_info :: "TimeVoteConsensus \<Rightarrow> hash256 \<Rightarrow> u64 \<Rightarrow> TimeProofConflictInfo option" where
  "get_conflict_info t tid slot = dget (tc_conflicts t) (tid, slot)"

definition clear_competing_timeproofs :: "hash256 \<Rightarrow> TimeVoteConsensus \<Rightarrow> TimeVoteConsensus" where
  "clear_competing_timeproofs tid t = t\<lparr>tc_competing := dremove tid (tc_competing t)\<rparr>"

end
