(* ===== verification/Time_Vote_Props.thy ===== *)
theory Time_Vote_Props
  imports Time_Vote Finality_Props
begin

text \<open>
  What the accumulated votes of a transaction guarantee: one verified vote per validator, a weight
  that is the sum of the accepting votes, and a certificate assembled from them that every node
  with the same validators accepts. Also how the rules for competing certificates differ.
\<close>

section \<open>Accumulated votes\<close>

definition accept_weight :: "TimeVote list \<Rightarrow> nat" where
  "accept_weight vs = (\<Sum>v\<leftarrow>filter (\<lambda>v. tv_decision v = Accept) vs. unat (tv_voter_weight v))"

definition votes_ok :: "extern \<Rightarrow> Masternode set \<Rightarrow> TimeVoteConsensus \<Rightarrow> hash256 \<Rightarrow> bool" where
  "votes_ok X K t tid \<longleftrightarrow>
     (let vs = get_accumulated_votes t tid
      in distinct (map tv_voter_mn_id vs)
         \<and> (\<forall>v \<in> set vs. tv_txid v = tid
              \<and> (\<exists>mn \<in> K. mn_address mn = tv_voter_mn_id v \<and> vote_verify X v (mn_public_key mn)))
         \<and> unat (get_accumulated_weight t tid) \<le> accept_weight vs
         \<and> (accept_weight vs < 2 ^ 64 \<longrightarrow> unat (get_accumulated_weight t tid) = accept_weight vs))"

datatype vote_call =
    CastVote "Masternode list" TimeVote
  | ClearVotes hash256
  | CleanupFinalized instant nat
  | RecordFinalization clock hash256 u64

definition vote_exec :: "extern \<Rightarrow> vote_call \<Rightarrow> TimeVoteConsensus \<Rightarrow> TimeVoteConsensus" where
  "vote_exec X c t = (case c of
     CastVote active v \<Rightarrow> snd (accumulate_timevote X active v t)
   | ClearVotes tid \<Rightarrow> clear_timeproof_votes tid t
   | CleanupFinalized now n \<Rightarrow> snd (cleanup_old_finalized now n t)
   | RecordFinalization ck tid w \<Rightarrow> record_finalization ck tid w t)"

definition voters_known :: "Masternode set \<Rightarrow> vote_call \<Rightarrow> bool" where
  "voters_known K c = (case c of CastVote active _ \<Rightarrow> set active \<subseteq> K | _ \<Rightarrow> True)"

lemma votes_ok_cong:
  "get_accumulated_votes t' tid = get_accumulated_votes t tid \<Longrightarrow>
   get_accumulated_weight t' tid = get_accumulated_weight t tid \<Longrightarrow> votes_ok X K t' tid = votes_ok X K t tid"
  by (simp add: votes_ok_def)

lemma votes_ok_none:
  "dget (tc_votes t) tid = None \<Longrightarrow> dget (tc_weight t) tid = None \<Longrightarrow> votes_ok X K t tid"
  by (simp add: votes_ok_def get_accumulated_votes_def get_accumulated_weight_def accept_weight_def)

lemma forget_ok:
  assumes "votes_ok X K t tid"
  shows "votes_ok X K (forget_tx k t) tid"
proof (cases "k = tid")
  case True
  then show ?thesis by (intro votes_ok_none) (simp_all add: forget_tx_def)
next
  case False
  then have "get_accumulated_votes (forget_tx k t) tid = get_accumulated_votes t tid"
    "get_accumulated_weight (forget_tx k t) tid = get_accumulated_weight t tid"
    by (simp_all add: forget_tx_def get_accumulated_votes_def get_accumulated_weight_def)
  then show ?thesis by (rule votes_ok_cong [THEN iffD2]) (rule assms)
qed

lemma accept_weight_append: "accept_weight (vs @ [v]) =
    accept_weight vs + (if tv_decision v = Accept then unat (tv_voter_weight v) else 0)"
  by (simp add: accept_weight_def)

lemma checked_add_some: "checked_add a b = Some c \<Longrightarrow> unat c = unat a + unat b"
  by (auto simp: checked_add_def unat_word_ariths split: if_splits)

lemma accumulate_cases:
  assumes "accumulate_timevote X active v t = (r, t')"
  obtains "t' = t"
  | mn where "mn \<in> set active" "mn_address mn = tv_voter_mn_id v" "vote_verify X v (mn_public_key mn)"
      "tv_voter_mn_id v \<notin> tv_voter_mn_id ` set (get_accumulated_votes t (tv_txid v))"
      "get_accumulated_votes t' = (get_accumulated_votes t)(tv_txid v := get_accumulated_votes t (tv_txid v) @ [v])"
      "get_accumulated_weight t' = (get_accumulated_weight t)(tv_txid v :=
         (if tv_decision v = Accept
          then case checked_add (get_accumulated_weight t (tv_txid v)) (tv_voter_weight v) of
                 None \<Rightarrow> get_accumulated_weight t (tv_txid v) | Some w \<Rightarrow> w
          else get_accumulated_weight t (tv_txid v)))"
proof (cases "t' = t")
  case True
  then show ?thesis by (rule that(1))
next
  case False
  then obtain mn where mn: "find_active active (tv_voter_mn_id v) = Some mn"
    "vote_verify X v (mn_public_key mn)"
    "\<not> list_ex (\<lambda>w. tv_voter_mn_id w = tv_voter_mn_id v) (get_accumulated_votes t (tv_txid v))"
    using assms by (auto simp: accumulate_timevote_def Let_def split: option.splits if_splits)
  have a: "mn \<in> set active" "mn_address mn = tv_voter_mn_id v"
    using mn(1) by (auto simp: find_active_def find_Some_iff)
  show ?thesis
  proof (rule that(2) [OF a mn(2)])
    show "tv_voter_mn_id v \<notin> tv_voter_mn_id ` set (get_accumulated_votes t (tv_txid v))"
      using mn(3) by (auto simp: list_ex_iff)
    show "get_accumulated_votes t' = (get_accumulated_votes t)(tv_txid v := get_accumulated_votes t (tv_txid v) @ [v])"
      using assms mn by (auto simp: accumulate_timevote_def Let_def get_accumulated_votes_def fun_eq_iff
          split: option.splits if_splits)
    show "get_accumulated_weight t' = (get_accumulated_weight t)(tv_txid v :=
         (if tv_decision v = Accept
          then case checked_add (get_accumulated_weight t (tv_txid v)) (tv_voter_weight v) of
                 None \<Rightarrow> get_accumulated_weight t (tv_txid v) | Some w \<Rightarrow> w
          else get_accumulated_weight t (tv_txid v)))"
      using assms mn by (auto simp: accumulate_timevote_def Let_def get_accumulated_weight_def fun_eq_iff
          split: option.splits if_splits)
  qed
qed

lemma accumulate_ok:
  assumes ok: "votes_ok X K t tid" and K: "set active \<subseteq> K"
  shows "votes_ok X K (snd (accumulate_timevote X active v t)) tid"
proof -
  obtain r t' where a: "accumulate_timevote X active v t = (r, t')" by fastforce
  from a show ?thesis
  proof (cases rule: accumulate_cases)
    case 1
    then show ?thesis using ok by (simp add: a)
  next
    case (2 mn)
    show ?thesis
    proof (cases "tv_txid v = tid")
      case False
      then have "get_accumulated_votes t' tid = get_accumulated_votes t tid"
        "get_accumulated_weight t' tid = get_accumulated_weight t tid" by (simp_all add: 2(5,6))
      then have "votes_ok X K t' tid" by (rule votes_ok_cong [THEN iffD2]) (rule ok)
      then show ?thesis by (simp add: a)
    next
      case True
      let ?vs = "get_accumulated_votes t tid" and ?w = "get_accumulated_weight t tid"
      have vs: "get_accumulated_votes t' tid = ?vs @ [v]" unfolding 2(5) True by simp
      have w: "get_accumulated_weight t' tid = (if tv_decision v = Accept
          then case checked_add ?w (tv_voter_weight v) of None \<Rightarrow> ?w | Some x \<Rightarrow> x else ?w)"
        unfolding 2(6) True by simp
      have "unat (get_accumulated_weight t' tid) = accept_weight (?vs @ [v])"
        if "accept_weight (?vs @ [v]) < 2 ^ 64"
      proof -
        have "accept_weight ?vs < 2 ^ 64" using that by (simp add: accept_weight_append)
        then have "unat ?w = accept_weight ?vs" using ok by (simp add: votes_ok_def Let_def)
        then show ?thesis using that
          by (simp add: w accept_weight_append checked_add_def unat_word_ariths split: if_splits)
      qed
      moreover have "unat (get_accumulated_weight t' tid) \<le> accept_weight (?vs @ [v])"
      proof -
        have "unat ?w \<le> accept_weight ?vs" using ok by (simp add: votes_ok_def Let_def)
        then show ?thesis by (auto simp: w accept_weight_append split: option.split dest!: checked_add_some)
      qed
      moreover have "mn \<in> K" using 2(1) K by blast
      ultimately have "votes_ok X K t' tid"
        using ok 2(2-4) True unfolding votes_ok_def Let_def vs by auto
      then show ?thesis by (simp add: a)
    qed
  qed
qed

lemma vote_exec_ok:
  assumes ok: "votes_ok X K t tid" and c: "voters_known K c"
  shows "votes_ok X K (vote_exec X c t) tid"
proof (cases c)
  case (CastVote active v)
  then show ?thesis using accumulate_ok [OF ok] c by (simp add: vote_exec_def voters_known_def)
next
  case (ClearVotes k)
  show ?thesis
  proof (cases "k = tid")
    case True
    then show ?thesis unfolding vote_exec_def ClearVotes
      by (intro votes_ok_none) (simp_all add: clear_timeproof_votes_def)
  next
    case False
    then have "get_accumulated_votes (clear_timeproof_votes k t) tid = get_accumulated_votes t tid"
      "get_accumulated_weight (clear_timeproof_votes k t) tid = get_accumulated_weight t tid"
      by (simp_all add: clear_timeproof_votes_def get_accumulated_votes_def get_accumulated_weight_def)
    then have "votes_ok X K (clear_timeproof_votes k t) tid"
      by (rule votes_ok_cong [THEN iffD2]) (rule ok)
    then show ?thesis by (simp add: vote_exec_def ClearVotes)
  qed
next
  case (CleanupFinalized now n)
  have "votes_ok X K t tid \<Longrightarrow> votes_ok X K (fold forget_tx ks t) tid" for ks t
    by (induction ks arbitrary: t) (simp_all add: forget_ok)
  then show ?thesis using ok by (simp add: vote_exec_def CleanupFinalized cleanup_old_finalized_def Let_def)
next
  case (RecordFinalization ck k w)
  have "get_accumulated_votes (record_finalization ck k w t) tid = get_accumulated_votes t tid"
    "get_accumulated_weight (record_finalization ck k w t) tid = get_accumulated_weight t tid"
    by (simp_all add: record_finalization_def get_accumulated_votes_def get_accumulated_weight_def)
  then have "votes_ok X K (record_finalization ck k w t) tid"
    by (rule votes_ok_cong [THEN iffD2]) (rule ok)
  then show ?thesis by (simp add: vote_exec_def RecordFinalization)
qed

lemma vote_run_ok:
  assumes "list_all (voters_known K) calls"
  shows "votes_ok X K (fold (vote_exec X) calls timevote_new) tid"
proof -
  have "votes_ok X K t tid \<Longrightarrow> votes_ok X K (fold (vote_exec X) calls t) tid" for t
    using assms by (induction calls arbitrary: t) (simp_all add: vote_exec_ok)
  moreover have "votes_ok X K timevote_new tid" by (rule votes_ok_none) (simp_all add: timevote_new_def)
  ultimately show ?thesis .
qed

text \<open>
  C20. After any sequence of incoming votes (whatever validators were active at each), clearings,
  clean-ups and finalizations, the votes held for a transaction are votes on that transaction, at
  most one per voter, each with a valid signature of a masternode of that name. The accumulated
  weight is never more than the weights its accepting votes declare, and it is their sum as long as
  the sum fits 64 bits. (Beyond that a vote is kept without its weight.)
\<close>

theorem accumulated_votes_sound:
  assumes "list_all (voters_known K) calls" and "t = fold (vote_exec X) calls timevote_new"
  shows "distinct (map tv_voter_mn_id (get_accumulated_votes t tid))
    \<and> (\<forall>v \<in> set (get_accumulated_votes t tid). tv_txid v = tid
         \<and> (\<exists>mn \<in> K. mn_address mn = tv_voter_mn_id v \<and> vote_verify X v (mn_public_key mn)))
    \<and> unat (get_accumulated_weight t tid) \<le> accept_weight (get_accumulated_votes t tid)
    \<and> (accept_weight (get_accumulated_votes t tid) < 2 ^ 64 \<longrightarrow>
         unat (get_accumulated_weight t tid) = accept_weight (get_accumulated_votes t tid))"
  using vote_run_ok [OF assms(1), of X tid] assms(2) by (simp add: votes_ok_def Let_def)

text \<open>An overflow is reported as an error, but the vote stays with the others and its weight is missing.\<close>

lemma overflowing_vote_kept:
  assumes "accumulate_timevote X active v t = (Inl WeightOverflow, t')"
  shows "v \<in> set (get_accumulated_votes t' (tv_txid v)) \<and> tv_decision v = Accept
    \<and> get_accumulated_weight t' (tv_txid v) = get_accumulated_weight t (tv_txid v)"
  using assms
  by (auto simp: accumulate_timevote_def Let_def get_accumulated_votes_def get_accumulated_weight_def
      split: option.splits if_splits)

definition tv_node :: "string \<Rightarrow> Masternode" where
  "tv_node i = new_legacy i [] 0 [1] Silver 0"

definition tv_vote :: "string \<Rightarrow> VoteDecision \<Rightarrow> TimeVote" where
  "tv_vote i d = \<lparr>tv_chain_id = 1, tv_txid = [7], tv_tx_hash_commitment = [7], tv_slot_index = 3,
     tv_decision = d, tv_voter_mn_id = i, tv_voter_weight = 100, tv_signature = []\<rparr>"

definition tv_calls :: "vote_call list" where
  "tv_calls = (let active = [tv_node ''a'', tv_node ''b'', tv_node ''c'']
     in [CastVote active (tv_vote ''a'' Accept), CastVote active (tv_vote ''b'' Accept),
         CastVote active (tv_vote ''a'' Accept), CastVote active (tv_vote ''c'' Reject),
         CastVote active (tv_vote ''d'' Accept)])"

lemma tv_run:
  "get_accumulated_votes (fold (vote_exec extern0) tv_calls timevote_new) [7]
     = [tv_vote ''a'' Accept, tv_vote ''b'' Accept, tv_vote ''c'' Reject]"
  "get_accumulated_weight (fold (vote_exec extern0) tv_calls timevote_new) [7] = 200"
proof -
  have v: "vote_verify extern0 v pk" for v pk by (simp add: vote_verify_def signed_by_def extern0_def)
  have f: "tv_txid (tv_vote i d) = [7]" "tv_voter_mn_id (tv_vote i d) = i" "tv_decision (tv_vote i d) = d"
    "tv_voter_weight (tv_vote i d) = 100" "mn_address (tv_node i) = i" for i d
    by (simp_all add: tv_vote_def tv_node_def new_legacy_def)
  show "get_accumulated_votes (fold (vote_exec extern0) tv_calls timevote_new) [7]
     = [tv_vote ''a'' Accept, tv_vote ''b'' Accept, tv_vote ''c'' Reject]"
    "get_accumulated_weight (fold (vote_exec extern0) tv_calls timevote_new) [7] = 200"
    by (simp_all add: tv_calls_def vote_exec_def accumulate_timevote_def find_active_def v f
        get_accumulated_votes_def get_accumulated_weight_def timevote_new_def checked_add_def Let_def)
qed

theorem accumulated_votes_sound_witness:
  "let t = fold (vote_exec extern0) tv_calls timevote_new
   in map tv_voter_mn_id (get_accumulated_votes t [7]) = [''a'', ''b'', ''c'']
      \<and> unat (get_accumulated_weight t [7]) = accept_weight (get_accumulated_votes t [7])"
proof -
  let ?t = "fold (vote_exec extern0) tv_calls timevote_new"
  let ?K = "{tv_node ''a'', tv_node ''b'', tv_node ''c''}"
  have "list_all (voters_known ?K) tv_calls" by (simp add: tv_calls_def voters_known_def Let_def)
  moreover have "accept_weight (get_accumulated_votes ?t [7]) < 2 ^ 64"
    unfolding tv_run by (simp add: accept_weight_def tv_vote_def)
  ultimately have "unat (get_accumulated_weight ?t [7]) = accept_weight (get_accumulated_votes ?t [7])"
    using accumulated_votes_sound [OF _ refl, of ?K tv_calls extern0 "[7]"] by blast
  then show ?thesis by (simp add: Let_def tv_run) (simp add: tv_vote_def)
qed

section \<open>Certificates\<close>

lemma assemble_iff:
  "assemble_timeproof t tid = Inr p \<Longrightarrow>
     tp_votes p = filter (\<lambda>v. tv_decision v = Accept) (get_accumulated_votes t tid) \<and> tp_votes p \<noteq> []
     \<and> (\<forall>v \<in> set (tp_votes p). tv_txid v = tid \<and> tv_slot_index v = tp_slot_index p
          \<and> tv_tx_hash_commitment v = tv_tx_hash_commitment (hd (tp_votes p)))"
  by (auto simp: assemble_timeproof_def Let_def list_all_iff split: if_splits list.splits)

lemma assembled_proof_verifies:
  assumes run: "list_all (voters_known K) calls" "t = fold (vote_exec X) calls timevote_new"
    and small: "accept_weight (get_accumulated_votes t tid) < 2 ^ 64"
    and asm: "assemble_timeproof t tid = Inr p"
    and chain: "\<forall>v \<in> set (tp_votes p). tv_chain_id v = cid"
    and known: "\<forall>v \<in> set (tp_votes p). \<exists>mn. find_active active (tv_voter_mn_id v) = Some mn
      \<and> vote_verify X v (mn_public_key mn)"
    and quorum: "finality_threshold (sum_list (map (sampling_weight \<circ> mn_tier) active))
      \<le> get_accumulated_weight t tid"
  shows "verify_timeproof X active p = Inr (get_accumulated_weight t tid)"
proof -
  let ?vs = "tp_votes p" and ?key = "\<lambda>i. map_option mn_public_key (find_active active i)"
  have a: "?vs = filter (\<lambda>v. tv_decision v = Accept) (get_accumulated_votes t tid)" "?vs \<noteq> []"
    "\<forall>v \<in> set ?vs. tv_txid v = tid \<and> tv_slot_index v = tp_slot_index p
      \<and> tv_tx_hash_commitment v = tv_tx_hash_commitment (hd ?vs)"
    using assemble_iff [OF asm] by auto
  have ok: "distinct (map tv_voter_mn_id (get_accumulated_votes t tid))"
    "unat (get_accumulated_weight t tid) = accept_weight (get_accumulated_votes t tid)"
    using vote_run_ok [OF run(1), of X tid] small by (simp_all add: run(2) votes_ok_def Let_def)
  have sum: "sum_list (map tv_voter_weight ?vs) = get_accumulated_weight t tid"
  proof (rule word_unat_eq_iff [THEN iffD2])
    have "(\<Sum>v\<leftarrow>?vs. unat (tv_voter_weight v)) = accept_weight (get_accumulated_votes t tid)"
      by (simp add: a(1) accept_weight_def)
    then show "unat (sum_list (map tv_voter_weight ?vs)) = unat (get_accumulated_weight t tid)"
      using unat_sum_list [of "map tv_voter_weight ?vs"] small ok(2) by (simp add: comp_def)
  qed
  obtain r rest where r: "?vs = r # rest" using a(2) by (cases ?vs) auto
  have "proof_loop X ?key r ?vs 0 {} = Inr (get_accumulated_weight t tid)"
    unfolding proof_loop_iff
  proof (intro conjI ballI)
    fix v assume v: "v \<in> set ?vs"
    have rv: "r \<in> set ?vs" by (simp add: r)
    show "tv_chain_id v = tv_chain_id r" using chain v rv by simp
    show "tv_txid v = tv_txid r" "tv_slot_index v = tv_slot_index r"
      "tv_tx_hash_commitment v = tv_tx_hash_commitment r" using a(3) v rv by simp_all
    show "tv_decision v = Accept" using v by (simp add: a(1))
    show "tv_voter_mn_id v \<notin> {}" by simp
    show "\<exists>pk. ?key (tv_voter_mn_id v) = Some pk \<and> vote_verify X v pk" using known v by force
  next
    show "distinct (map tv_voter_mn_id ?vs)" using ok(1) by (simp add: a(1) distinct_map_filter)
    show "get_accumulated_weight t tid = 0 + sum_list (map tv_voter_weight ?vs)" by (simp add: sum)
  qed
  then show ?thesis using quorum by (simp add: verify_timeproof_def proof_verify_def r not_less)
qed

lemma find_active_distinct:
  "distinct (map mn_address active) \<Longrightarrow> mn \<in> set active \<Longrightarrow> find_active active (mn_address mn) = Some mn"
  by (induction active) (auto simp: find_active_def)

text \<open>
  C23. A certificate assembled by one node is accepted by another. Let every vote have arrived while
  the validators active at the collector were among those of the receiver, one entry per address; let
  the votes name one chain and their declared weights fit 64 bits together. If the accumulated weight
  reaches 67% of the receiver's validator weight, then \<open>verify_timeproof\<close> accepts the assembled
  certificate with exactly the accumulated weight.
\<close>

theorem assembled_proof_accepted:
  assumes run: "list_all (voters_known (set active)) calls" "t = fold (vote_exec X) calls timevote_new"
    and active: "distinct (map mn_address active)"
    and small: "accept_weight (get_accumulated_votes t tid) < 2 ^ 64"
    and asm: "assemble_timeproof t tid = Inr p"
    and chain: "\<forall>v \<in> set (tp_votes p). tv_chain_id v = cid"
    and quorum: "finality_threshold (sum_list (map (sampling_weight \<circ> mn_tier) active))
      \<le> get_accumulated_weight t tid"
  shows "verify_timeproof X active p = Inr (get_accumulated_weight t tid)"
proof (rule assembled_proof_verifies [OF run small asm chain _ quorum], intro ballI)
  fix v assume "v \<in> set (tp_votes p)"
  then have "v \<in> set (get_accumulated_votes t tid)" using assemble_iff [OF asm] by auto
  then obtain mn where "mn \<in> set active" "mn_address mn = tv_voter_mn_id v" "vote_verify X v (mn_public_key mn)"
    using vote_run_ok [OF run(1), of X tid] by (auto simp: run(2) votes_ok_def Let_def)
  then show "\<exists>mn. find_active active (tv_voter_mn_id v) = Some mn \<and> vote_verify X v (mn_public_key mn)"
    using find_active_distinct [OF active] by metis
qed

definition tv_active :: "Masternode list" where
  "tv_active = [tv_node ''a'', tv_node ''b'', tv_node ''c'']"

definition tv_accepts :: "vote_call list" where
  "tv_accepts = map (\<lambda>i. CastVote tv_active (tv_vote i Accept)) [''a'', ''b'', ''c'']"

lemma tv_accepts_run:
  "get_accumulated_votes (fold (vote_exec extern0) tv_accepts timevote_new) [7]
     = [tv_vote ''a'' Accept, tv_vote ''b'' Accept, tv_vote ''c'' Accept]"
  "get_accumulated_weight (fold (vote_exec extern0) tv_accepts timevote_new) [7] = 300"
proof -
  have v: "vote_verify extern0 v pk" for v pk by (simp add: vote_verify_def signed_by_def extern0_def)
  have f: "tv_txid (tv_vote i d) = [7]" "tv_voter_mn_id (tv_vote i d) = i" "tv_decision (tv_vote i d) = d"
    "tv_voter_weight (tv_vote i d) = 100" "mn_address (tv_node i) = i" for i d
    by (simp_all add: tv_vote_def tv_node_def new_legacy_def)
  show "get_accumulated_votes (fold (vote_exec extern0) tv_accepts timevote_new) [7]
      = [tv_vote ''a'' Accept, tv_vote ''b'' Accept, tv_vote ''c'' Accept]"
    "get_accumulated_weight (fold (vote_exec extern0) tv_accepts timevote_new) [7] = 300"
    by (simp_all add: tv_accepts_def tv_active_def vote_exec_def accumulate_timevote_def find_active_def v f
        get_accumulated_votes_def get_accumulated_weight_def timevote_new_def checked_add_def Let_def)
qed

theorem assembled_proof_accepted_witness:
  "verify_timeproof extern0 tv_active \<lparr>tp_txid = [7], tp_slot_index = 3,
     tp_votes = [tv_vote ''a'' Accept, tv_vote ''b'' Accept, tv_vote ''c'' Accept]\<rparr> = Inr 300"
proof -
  let ?t = "fold (vote_exec extern0) tv_accepts timevote_new"
  let ?p = "\<lparr>tp_txid = [7], tp_slot_index = 3,
     tp_votes = [tv_vote ''a'' Accept, tv_vote ''b'' Accept, tv_vote ''c'' Accept]\<rparr>"
  have "verify_timeproof extern0 tv_active ?p = Inr (get_accumulated_weight ?t [7])"
  proof (rule assembled_proof_accepted [of tv_active tv_accepts _ _ "[7]" _ 1])
    show "list_all (voters_known (set tv_active)) tv_accepts" by (simp add: tv_accepts_def voters_known_def)
    show "distinct (map mn_address tv_active)" by (simp add: tv_active_def tv_node_def new_legacy_def)
    show "accept_weight (get_accumulated_votes ?t [7]) < 2 ^ 64"
      unfolding tv_accepts_run by (simp add: accept_weight_def tv_vote_def)
    show "assemble_timeproof ?t [7] = Inr ?p"
      unfolding assemble_timeproof_def tv_accepts_run by (simp add: tv_vote_def)
    show "\<forall>v \<in> set (tp_votes ?p). tv_chain_id v = 1" by (simp add: tv_vote_def)
    show "finality_threshold (sum_list (map (sampling_weight \<circ> mn_tier) tv_active)) \<le> get_accumulated_weight ?t [7]"
      unfolding tv_accepts_run by (simp add: tv_active_def tv_node_def new_legacy_def finality_threshold_def div_ceil_def)
  qed simp
  then show ?thesis by (simp add: tv_accepts_run)
qed

text \<open>
  Two competing certificates of equal weight: \<open>detect_competing_timeproof\<close> reports the later one as
  the winner, \<open>resolve_timeproof_fork\<close> selects the earlier one.
\<close>

lemma competing_tie:
  assumes "tp_votes p = [tv_vote ''a'' Accept]" "tp_votes q = [tv_vote ''b'' Accept]"
    "tp_txid p = [7]" "tp_txid q = [7]"
  shows "let t1 = snd (detect_competing_timeproof ck p 100 timevote_new);
             t2 = snd (detect_competing_timeproof ck q 100 t1)
         in fst (detect_competing_timeproof ck q 100 t1) = Some 1
            \<and> fst (resolve_timeproof_fork [7] t2) = Inr (Some p)"
proof -
  have w: "calculate_timeproof_weight p = Some 100" "calculate_timeproof_weight q = Some 100"
    by (simp_all add: calculate_timeproof_weight_def assms tv_vote_def checked_add_def)
  show ?thesis
    by (simp add: detect_competing_timeproof_def competing_proofs_def timevote_new_def assms w Let_def
        resolve_timeproof_fork_def split: option.split)
qed

end
