(* ===== verification/Fallback.thy ===== *)
theory Fallback
  imports Time_Vote
begin

text \<open>
  The liveness fallback of \<open>src/consensus.rs\<close> and its message handlers in
  \<open>src/network/message_handler/consensus.rs\<close>: the status of a transaction, alerts about stalled
  ones, the leader of a fallback round and the votes on its proposal. The registry is a list of
  masternodes with their active flag; messages to send are part of the result. The rolling average
  of finality times (floating point, for display) and log messages are left out.
\<close>

section \<open>Identity and signatures\<close>

record NodeIdentity =
  ni_address :: string
  ni_signing_key :: "u8 list"

definition sign_finality_vote ::
    "extern \<Rightarrow> NodeIdentity \<Rightarrow> u32 \<Rightarrow> hash256 \<Rightarrow> hash256 \<Rightarrow> u64 \<Rightarrow> VoteDecision \<Rightarrow> string \<Rightarrow> u64 \<Rightarrow> TimeVote" where
  "sign_finality_vote X idn cid tid com slot d voter w =
     (let v = \<lparr>tv_chain_id = cid, tv_txid = tid, tv_tx_hash_commitment = com, tv_slot_index = slot,
               tv_decision = d, tv_voter_mn_id = voter, tv_voter_weight = w, tv_signature = []\<rparr>;
          msg = le_bytes 4 cid @ tid @ com @ le_bytes 8 slot
            @ [case d of Accept \<Rightarrow> 0x01 | Reject \<Rightarrow> 0x00] @ as_bytes voter @ le_bytes 8 w
      in v\<lparr>tv_signature := ed_sign X (ni_signing_key idn) msg\<rparr>)"

definition sign_liveness_alert ::
    "extern \<Rightarrow> NodeIdentity \<Rightarrow> u32 \<Rightarrow> hash256 \<Rightarrow> hash256 \<Rightarrow> u64 \<Rightarrow> PollResult list \<Rightarrow> u64 \<Rightarrow> u32 \<Rightarrow> LivenessAlert" where
  "sign_liveness_alert X idn cid tid com slot hist stall conf =
     (let a = \<lparr>la_chain_id = cid, la_txid = tid, la_tx_hash_commitment = com, la_slot_index = slot,
               la_poll_history = hist, la_current_confidence = conf, la_stall_duration_ms = stall,
               la_reporter_mn_id = ni_address idn, la_reporter_signature = []\<rparr>
      in a\<lparr>la_reporter_signature := ed_sign X (ni_signing_key idn) (alert_message a)\<rparr>)"

definition sign_finality_proposal ::
    "extern \<Rightarrow> NodeIdentity \<Rightarrow> u32 \<Rightarrow> hash256 \<Rightarrow> hash256 \<Rightarrow> u64 \<Rightarrow> FallbackDecision \<Rightarrow> string \<Rightarrow> FinalityProposal" where
  "sign_finality_proposal X idn cid tid com slot d just =
     (let p = \<lparr>fp_chain_id = cid, fp_txid = tid, fp_tx_hash_commitment = com, fp_slot_index = slot,
               fp_decision = d, fp_justification = just, fp_leader_mn_id = ni_address idn,
               fp_leader_signature = []\<rparr>
      in p\<lparr>fp_leader_signature := ed_sign X (ni_signing_key idn) (proposal_message p)\<rparr>)"

definition sign_fallback_vote ::
    "extern \<Rightarrow> NodeIdentity \<Rightarrow> u32 \<Rightarrow> hash256 \<Rightarrow> FallbackVoteDecision \<Rightarrow> u64 \<Rightarrow> FallbackVote" where
  "sign_fallback_vote X idn cid ph d w =
     (let v = \<lparr>fv_chain_id = cid, fv_proposal_hash = ph, fv_vote = d, fv_voter_mn_id = ni_address idn,
               fv_voter_weight = w, fv_voter_signature = []\<rparr>
      in v\<lparr>fv_voter_signature := ed_sign X (ni_signing_key idn) (fallback_vote_message v)\<rparr>)"

section \<open>Status of a transaction\<close>

definition STALL_TIMEOUT :: duration where "STALL_TIMEOUT = 30 * 1000000000"
definition FALLBACK_ROUND_TIMEOUT :: duration where "FALLBACK_ROUND_TIMEOUT = 10 * 1000000000"
definition MAX_FALLBACK_ROUNDS :: u32 where "MAX_FALLBACK_ROUNDS = 5"

definition start_stall_timer :: "clock \<Rightarrow> hash256 \<Rightarrow> TimeVoteConsensus \<Rightarrow> TimeVoteConsensus" where
  "start_stall_timer ck tid t = t\<lparr>tc_stall_timers := dput tid (ck_instant ck) (tc_stall_timers t)\<rparr>"

definition check_stall_timeout :: "clock \<Rightarrow> TimeVoteConsensus \<Rightarrow> hash256 \<Rightarrow> bool" where
  "check_stall_timeout ck t tid =
     (case dget (tc_stall_timers t) tid of None \<Rightarrow> False | Some at \<Rightarrow> STALL_TIMEOUT < ck_instant ck - at)"

definition stop_stall_timer :: "hash256 \<Rightarrow> TimeVoteConsensus \<Rightarrow> TimeVoteConsensus" where
  "stop_stall_timer tid t = t\<lparr>tc_stall_timers := dremove tid (tc_stall_timers t)\<rparr>"

definition set_tx_status :: "hash256 \<Rightarrow> TransactionStatus \<Rightarrow> TimeVoteConsensus \<Rightarrow> TimeVoteConsensus" where
  "set_tx_status tid s t = t\<lparr>tc_tx_status := dput tid s (tc_tx_status t)\<rparr>"

definition get_tx_status :: "TimeVoteConsensus \<Rightarrow> hash256 \<Rightarrow> TransactionStatus option" where
  "get_tx_status t tid = dget (tc_tx_status t) tid"

definition clear_fallback :: "hash256 \<Rightarrow> TimeVoteConsensus \<Rightarrow> TimeVoteConsensus" where
  "clear_fallback tid t = t\<lparr>tc_fallback_rounds := dremove tid (tc_fallback_rounds t),
     tc_alerts := dremove tid (tc_alerts t)\<rparr>"

definition transition_to_finalized :: "clock \<Rightarrow> hash256 \<Rightarrow> u64 \<Rightarrow> TimeVoteConsensus \<Rightarrow> TimeVoteConsensus" where
  "transition_to_finalized ck tid w t =
     clear_fallback tid (stop_stall_timer tid (set_tx_status tid (Finalized (ck_millis ck) w) t))"

text \<open>The slot of the epoch: \<open>timestamp() as u64 / 600\<close>.\<close>

definition transition_to_fallback_resolution ::
    "clock \<Rightarrow> hash256 \<Rightarrow> u32 \<Rightarrow> TimeVoteConsensus \<Rightarrow> TimeVoteConsensus" where
  "transition_to_fallback_resolution ck tid alerts t =
     (let t1 = stop_stall_timer tid (set_tx_status tid (FallbackResolution (ck_millis ck) 0 alerts) t)
      in t1\<lparr>tc_fallback_rounds := dput tid (ck_secs ck div 600, 0, ck_instant ck) (tc_fallback_rounds t1)\<rparr>)"

definition transition_to_rejected :: "clock \<Rightarrow> hash256 \<Rightarrow> string \<Rightarrow> TimeVoteConsensus \<Rightarrow> TimeVoteConsensus" where
  "transition_to_rejected ck tid reason t =
     clear_fallback tid (stop_stall_timer tid (set_tx_status tid (Rejected (ck_millis ck) reason) t))"

definition get_stalled_transactions :: "clock \<Rightarrow> TimeVoteConsensus \<Rightarrow> hash256 list" where
  "get_stalled_transactions ck t =
     map fst (filter (\<lambda>(_, at). STALL_TIMEOUT < ck_instant ck - at) (tc_stall_timers t))"

fun same_status :: "TransactionStatus \<Rightarrow> TransactionStatus \<Rightarrow> bool" where
  "same_status Seen Seen = True"
| "same_status (Voting _ _ _) (Voting _ _ _) = True"
| "same_status (FallbackResolution _ _ _) (FallbackResolution _ _ _) = True"
| "same_status (Finalized _ _) (Finalized _ _) = True"
| "same_status (Rejected _ _) (Rejected _ _) = True"
| "same_status (TxArchived _ _) (TxArchived _ _) = True"
| "same_status _ _ = False"

definition get_transactions_by_status :: "TimeVoteConsensus \<Rightarrow> TransactionStatus \<Rightarrow> hash256 list" where
  "get_transactions_by_status t target = map fst (filter (\<lambda>(_, s). same_status s target) (tc_tx_status t))"

definition is_fallback :: "TransactionStatus \<Rightarrow> bool" where
  "is_fallback s = (case s of FallbackResolution _ _ _ \<Rightarrow> True | _ \<Rightarrow> False)"

definition has_pending_fallback_transactions :: "TimeVoteConsensus \<Rightarrow> bool" where
  "has_pending_fallback_transactions t = list_ex (is_fallback \<circ> snd) (tc_tx_status t)"

definition decide_fallback_vote :: "TimeVoteConsensus \<Rightarrow> hash256 \<Rightarrow> FallbackVoteDecision" where
  "decide_fallback_vote t tid = (case get_tx_status t tid of
     Some (Voting _ _ _) \<Rightarrow> Approve
   | Some (FallbackResolution _ _ _) \<Rightarrow> Approve
   | _ \<Rightarrow> FvReject)"

definition determine_fallback_decision :: "TimeVoteConsensus \<Rightarrow> hash256 \<Rightarrow> FallbackDecision" where
  "determine_fallback_decision t tid = (case dget (tc_tx_state t) tid of
     Some s \<Rightarrow> (case vs_preference s of PrefAccept \<Rightarrow> FallbackAccept | PrefReject \<Rightarrow> FallbackReject)
   | None \<Rightarrow> FallbackReject)"

section \<open>Alerts and votes\<close>

definition alerts_for :: "TimeVoteConsensus \<Rightarrow> hash256 \<Rightarrow> LivenessAlert list" where
  "alerts_for t tid = (case dget (tc_alerts t) tid of None \<Rightarrow> [] | Some as \<Rightarrow> as)"

definition get_alert_count :: "TimeVoteConsensus \<Rightarrow> hash256 \<Rightarrow> nat" where
  "get_alert_count t tid = length (remdups (map la_reporter_mn_id (alerts_for t tid)))"

definition alert_threshold :: "nat \<Rightarrow> nat" where
  "alert_threshold n = (n - 1) div 3 + 1"

definition accumulate_liveness_alert ::
    "LivenessAlert \<Rightarrow> nat \<Rightarrow> TimeVoteConsensus \<Rightarrow> bool \<times> TimeVoteConsensus" where
  "accumulate_liveness_alert a n t =
     (let tid = la_txid a;
          t1 = t\<lparr>tc_alerts := dput tid (alerts_for t tid @ [a]) (tc_alerts t)\<rparr>;
          k = get_alert_count t1 tid
      in (alert_threshold n \<le> k,
          if k = alert_threshold n
          then t1\<lparr>tc_fallback_activations := tc_fallback_activations t1 + 1\<rparr> else t1))"

definition fallback_votes_for :: "TimeVoteConsensus \<Rightarrow> hash256 \<Rightarrow> FallbackVote list" where
  "fallback_votes_for t ph = (case dget (tc_fallback_votes t) ph of None \<Rightarrow> [] | Some vs \<Rightarrow> vs)"

definition side_weight :: "FallbackVoteDecision \<Rightarrow> FallbackVote list \<Rightarrow> u64" where
  "side_weight d vs = sum_list (map fv_voter_weight (filter (\<lambda>v. fv_vote v = d) vs))"

definition accumulate_fallback_vote ::
    "FallbackVote \<Rightarrow> u64 \<Rightarrow> TimeVoteConsensus \<Rightarrow> FallbackVoteDecision option \<times> TimeVoteConsensus" where
  "accumulate_fallback_vote v total_avs_weight t =
     (let ph = fv_proposal_hash v; votes = fallback_votes_for t ph @ [v];
          q_finality = total_avs_weight * 2 div 3
      in (if q_finality \<le> side_weight Approve votes then Some Approve
          else if q_finality \<le> side_weight FvReject votes then Some FvReject
          else None,
          t\<lparr>tc_fallback_votes := dput ph votes (tc_fallback_votes t)\<rparr>))"

definition get_vote_status :: "TimeVoteConsensus \<Rightarrow> hash256 \<Rightarrow> (u64 \<times> u64 \<times> nat) option" where
  "get_vote_status t ph = map_option (\<lambda>vs. (side_weight Approve vs, side_weight FvReject vs, length vs))
     (dget (tc_fallback_votes t) ph)"

definition register_proposal :: "hash256 \<Rightarrow> hash256 \<Rightarrow> TimeVoteConsensus \<Rightarrow> TimeVoteConsensus" where
  "register_proposal ph tid t = t\<lparr>tc_proposal_to_tx := dput ph tid (tc_proposal_to_tx t)\<rparr>"

definition get_proposal_txid :: "TimeVoteConsensus \<Rightarrow> hash256 \<Rightarrow> hash256 option" where
  "get_proposal_txid t ph = dget (tc_proposal_to_tx t) ph"

definition finalize_from_fallback ::
    "clock \<Rightarrow> hash256 \<Rightarrow> FallbackVoteDecision \<Rightarrow> u64 \<Rightarrow> TimeVoteConsensus \<Rightarrow> TimeVoteConsensus" where
  "finalize_from_fallback ck tid d w t = (case d of
     Approve \<Rightarrow> transition_to_finalized ck tid w t
   | FvReject \<Rightarrow> transition_to_rejected ck tid ''Fallback consensus rejected'' t)"

definition detect_alert_equivocation :: "TimeVoteConsensus \<Rightarrow> hash256 \<Rightarrow> string \<Rightarrow> bool" where
  "detect_alert_equivocation t tid reporter =
     (1 < length (filter (\<lambda>a. la_reporter_mn_id a = reporter) (alerts_for t tid)))"

definition detect_vote_equivocation :: "TimeVoteConsensus \<Rightarrow> hash256 \<Rightarrow> string \<Rightarrow> bool" where
  "detect_vote_equivocation t ph voter =
     (case filter (\<lambda>v. fv_voter_mn_id v = voter) (fallback_votes_for t ph) of
        [] \<Rightarrow> False
      | v # vs \<Rightarrow> list_ex (\<lambda>w. fv_vote w \<noteq> fv_vote v) (v # vs))"

definition detect_multiple_proposals :: "TimeVoteConsensus \<Rightarrow> hash256 \<Rightarrow> hash256 list" where
  "detect_multiple_proposals t tid = map fst (filter (\<lambda>(_, x). x = tid) (tc_proposal_to_tx t))"

definition saturating_add :: "u64 \<Rightarrow> u64 \<Rightarrow> u64" where
  "saturating_add a b = (if unat a + unat b < 2 ^ 64 then a + b else - 1)"

definition validate_vote_weight :: "TimeVoteConsensus \<Rightarrow> hash256 \<Rightarrow> u64 \<Rightarrow> bool" where
  "validate_vote_weight t ph total_avs_weight =
     (case dget (tc_fallback_votes t) ph of None \<Rightarrow> True
      | Some vs \<Rightarrow> \<not> total_avs_weight * 11 div 10
                    < fold (\<lambda>v tot. saturating_add tot (fv_voter_weight v)) vs 0)"

definition is_byzantine_flagged :: "TimeVoteConsensus \<Rightarrow> string \<Rightarrow> bool" where
  "is_byzantine_flagged t i = (case dget (tc_byzantine t) i of None \<Rightarrow> False | Some b \<Rightarrow> b)"

definition flag_byzantine :: "string \<Rightarrow> TimeVoteConsensus \<Rightarrow> TimeVoteConsensus" where
  "flag_byzantine i t = t\<lparr>tc_byzantine := dput i True (tc_byzantine t)\<rparr>"

section \<open>Leaders\<close>

text \<open>The running minimum of \<open>elect_fallback_leader\<close> starts at the all-ones hash.\<close>

definition leader_hash :: "extern \<Rightarrow> hash256 \<Rightarrow> u64 \<Rightarrow> u32 \<Rightarrow> hash256 \<Rightarrow> string \<Rightarrow> hash256" where
  "leader_hash X tid slot round prev i =
     sha256 X (tid @ le_bytes 8 slot @ le_bytes 4 round @ prev @ as_bytes i)"

definition elect_step ::
    "(string \<Rightarrow> hash256) \<Rightarrow> string \<Rightarrow> hash256 \<times> string option \<Rightarrow> hash256 \<times> string option" where
  "elect_step h i best = (if h i < fst best then (h i, Some i) else best)"

definition elect_fallback_leader ::
    "extern \<Rightarrow> hash256 \<Rightarrow> u64 \<Rightarrow> u32 \<Rightarrow> AVSSnapshot \<Rightarrow> hash256 \<Rightarrow> string option" where
  "elect_fallback_leader X tid slot round avs prev =
     (if av_validators avs = [] \<and> av_validators_ref avs = None then None
      else snd (fold (elect_step (leader_hash X tid slot round prev))
             (case av_validators_ref avs of Some vs \<Rightarrow> map vi_address vs | None \<Rightarrow> map fst (av_validators avs))
             (replicate 32 0xff, None)))"

definition is_fallback_leader ::
    "extern \<Rightarrow> NodeIdentity option \<Rightarrow> hash256 \<Rightarrow> u64 \<Rightarrow> u32 \<Rightarrow> AVSSnapshot \<Rightarrow> hash256 \<Rightarrow> bool" where
  "is_fallback_leader X idn tid slot round avs prev =
     (case idn of None \<Rightarrow> False
      | Some n \<Rightarrow> (case elect_fallback_leader X tid slot round avs prev of
            None \<Rightarrow> False | Some l \<Rightarrow> ni_address n = l))"

definition leader_score :: "extern \<Rightarrow> hash256 \<Rightarrow> u64 \<Rightarrow> hash256 \<Rightarrow> Masternode \<Rightarrow> hash256" where
  "leader_score X tid slot prev mn = sha256 X (tid @ le_bytes 8 slot @ prev @ mn_public_key mn)"

definition compute_fallback_leader ::
    "extern \<Rightarrow> hash256 \<Rightarrow> u64 \<Rightarrow> Masternode list \<Rightarrow> hash256 \<Rightarrow> string option" where
  "compute_fallback_leader X tid slot avs prev =
     (if avs = [] then None
      else (case sort_key fst (map (\<lambda>mn. (leader_score X tid slot prev mn, mn_address mn)) avs) of
          [] \<Rightarrow> None | (_, i) # _ \<Rightarrow> Some i))"

section \<open>Rounds\<close>

datatype fallback_msg =
    MsgAlert LivenessAlert
  | MsgProposal FinalityProposal
  | MsgVote FallbackVote

definition broadcast_finality_proposal ::
    "extern \<Rightarrow> NodeIdentity option \<Rightarrow> hash256 \<Rightarrow> u64 \<Rightarrow> FallbackDecision \<Rightarrow> fallback_msg list" where
  "broadcast_finality_proposal X idn tid slot d = (case idn of None \<Rightarrow> []
     | Some n \<Rightarrow> [MsgProposal (sign_finality_proposal X n 1 tid tid slot d
                   (''Fallback decision for slot '' @ show_nat (unat slot)))])"

definition broadcast_liveness_alert ::
    "extern \<Rightarrow> clock \<Rightarrow> NodeIdentity option \<Rightarrow> hash256 \<Rightarrow> u64 \<Rightarrow> TimeVoteConsensus \<Rightarrow> fallback_msg list" where
  "broadcast_liveness_alert X ck idn tid slot t = (case idn of None \<Rightarrow> []
     | Some n \<Rightarrow> (case get_tx_status t tid of
           Some (Voting conf _ started) \<Rightarrow>
             (let elapsed = ck_millis ck - started
              in [MsgAlert (sign_liveness_alert X n 1 tid tid slot [] (if sint elapsed < 0 then 0 else elapsed) conf)])
         | _ \<Rightarrow> []))"

definition broadcast_fallback_vote ::
    "extern \<Rightarrow> NodeIdentity option \<Rightarrow> hash256 \<Rightarrow> FallbackVoteDecision \<Rightarrow> u64 \<Rightarrow> fallback_msg list" where
  "broadcast_fallback_vote X idn ph d w = (case idn of None \<Rightarrow> []
     | Some n \<Rightarrow> [MsgVote (sign_fallback_vote X n 1 ph d w)])"

definition execute_fallback_as_leader ::
    "extern \<Rightarrow> clock \<Rightarrow> NodeIdentity option \<Rightarrow> hash256 \<Rightarrow> u64 \<Rightarrow> u32 \<Rightarrow> TimeVoteConsensus
      \<Rightarrow> fallback_msg list \<times> TimeVoteConsensus" where
  "execute_fallback_as_leader X ck idn tid slot round t =
     (case idn of None \<Rightarrow> ([], t)
      | Some n \<Rightarrow> (broadcast_finality_proposal X idn tid slot (determine_fallback_decision t tid),
          t\<lparr>tc_fallback_rounds := dput tid (slot, round, ck_instant ck) (tc_fallback_rounds t)\<rparr>))"

text \<open>One timed-out round of \<open>check_fallback_timeouts\<close>; \<open>nodes\<close> is the registry with active flags.\<close>

definition timeout_one ::
    "extern \<Rightarrow> clock \<Rightarrow> NodeIdentity option \<Rightarrow> (Masternode \<times> bool) list \<Rightarrow> hash256
      \<Rightarrow> hash256 \<times> u64 \<times> u32 \<times> instant \<Rightarrow> (nat \<times> fallback_msg list) \<times> TimeVoteConsensus
      \<Rightarrow> (nat \<times> fallback_msg list) \<times> TimeVoteConsensus" where
  "timeout_one X ck idn nodes prev e a = (case (e, a) of ((tid, slot, round, _), ((n, msgs), t)) \<Rightarrow>
     if MAX_FALLBACK_ROUNDS \<le> round
     then let t1 = transition_to_rejected ck tid ''Fallback failed after 5 rounds, awaiting TimeLock sync'' t
       in ((n + 1, msgs), t1\<lparr>tc_fallback_rounds := dremove tid (tc_fallback_rounds t1)\<rparr>)
     else let t1 = t\<lparr>tc_fallback_rounds := dput tid (slot + 1, round + 1, ck_instant ck) (tc_fallback_rounds t)\<rparr>;
              avs = map fst (filter snd nodes)
       in case compute_fallback_leader X tid (slot + 1) avs prev of
            None \<Rightarrow> ((n, msgs), t1)
          | Some leader \<Rightarrow>
              ((n + 1, msgs @ (if map_option ni_address idn = Some leader
                 then broadcast_finality_proposal X idn tid (slot + 1)
                   (case get_tx_status t1 tid of Some (FallbackResolution _ _ _) \<Rightarrow> FallbackAccept
                    | _ \<Rightarrow> FallbackReject)
                 else [])), t1))"

definition round_timed_out :: "clock \<Rightarrow> hash256 \<times> u64 \<times> u32 \<times> instant \<Rightarrow> bool" where
  "round_timed_out ck e = (case e of (_, _, _, started) \<Rightarrow> FALLBACK_ROUND_TIMEOUT \<le> ck_instant ck - started)"

definition check_fallback_timeouts ::
    "extern \<Rightarrow> clock \<Rightarrow> NodeIdentity option \<Rightarrow> (Masternode \<times> bool) list \<Rightarrow> hash256 \<Rightarrow> TimeVoteConsensus
      \<Rightarrow> (nat \<times> fallback_msg list) \<times> TimeVoteConsensus" where
  "check_fallback_timeouts X ck idn nodes prev t =
     fold (timeout_one X ck idn nodes prev) (filter (round_timed_out ck) (tc_fallback_rounds t)) ((0, []), t)"

section \<open>Message handlers\<close>

datatype FallbackError = UnknownNode string | BadFallbackSignature | Equivocation string

definition find_node :: "(Masternode \<times> bool) list \<Rightarrow> string \<Rightarrow> Masternode option" where
  "find_node nodes i = find_active (map fst nodes) i"

definition handle_liveness_alert ::
    "extern \<Rightarrow> clock \<Rightarrow> (Masternode \<times> bool) list \<Rightarrow> LivenessAlert \<Rightarrow> TimeVoteConsensus
      \<Rightarrow> (FallbackError + fallback_msg list) \<times> TimeVoteConsensus" where
  "handle_liveness_alert X ck nodes a t =
     (case find_node nodes (la_reporter_mn_id a) of
        None \<Rightarrow> (Inl (UnknownNode (la_reporter_mn_id a)), t)
      | Some mn \<Rightarrow>
          if \<not> alert_verify X a (mn_public_key mn) then (Inl BadFallbackSignature, t)
          else if detect_alert_equivocation t (la_txid a) (la_reporter_mn_id a)
          then (Inl (Equivocation (la_reporter_mn_id a)), flag_byzantine (la_reporter_mn_id a) t)
          else (Inr [MsgAlert a],
            (case get_tx_status t (la_txid a) of
               Some (Voting _ _ _) \<Rightarrow>
                 if check_stall_timeout ck t (la_txid a)
                 then (case accumulate_liveness_alert a (length nodes) t of
                         (True, t') \<Rightarrow> transition_to_fallback_resolution ck (la_txid a)
                                        (of_nat (get_alert_count t' (la_txid a))) t'
                       | (False, t') \<Rightarrow> t')
                 else t
             | _ \<Rightarrow> t)))"

text \<open>\<open>weight\<close> is what \<open>get_voter_weight\<close> returns for this node.\<close>

definition handle_finality_proposal ::
    "extern \<Rightarrow> NodeIdentity option \<Rightarrow> u64 \<Rightarrow> (Masternode \<times> bool) list \<Rightarrow> hash256 \<Rightarrow> FinalityProposal
      \<Rightarrow> TimeVoteConsensus \<Rightarrow> (FallbackError + fallback_msg list) \<times> TimeVoteConsensus" where
  "handle_finality_proposal X idn weight nodes prev p t =
     (case find_node nodes (fp_leader_mn_id p) of
        None \<Rightarrow> (Inl (UnknownNode (fp_leader_mn_id p)), t)
      | Some mn \<Rightarrow>
          if \<not> proposal_verify X p (mn_public_key mn) then (Inl BadFallbackSignature, t)
          else let ph = proposal_hash X p; t1 = register_proposal ph (fp_txid p) t;
                   t2 = (if 1 < length (detect_multiple_proposals t1 (fp_txid p))
                         then flag_byzantine (fp_leader_mn_id p) t1 else t1)
            in (if compute_fallback_leader X (fp_txid p) (fp_slot_index p) (map fst (filter snd nodes)) prev
                     = Some (fp_leader_mn_id p)
                then Inr (broadcast_fallback_vote X idn ph (decide_fallback_vote t2 (fp_txid p)) weight
                       @ [MsgProposal p])
                else Inr [], t2))"

definition handle_fallback_vote ::
    "extern \<Rightarrow> clock \<Rightarrow> Masternode list \<Rightarrow> FallbackVote \<Rightarrow> TimeVoteConsensus
      \<Rightarrow> (FallbackError + fallback_msg list) \<times> TimeVoteConsensus" where
  "handle_fallback_vote X ck active v t =
     (case find_active active (fv_voter_mn_id v) of
        None \<Rightarrow> (Inl (UnknownNode (fv_voter_mn_id v)), t)
      | Some mn \<Rightarrow>
          if \<not> fallback_vote_verify X v (mn_public_key mn) then (Inl BadFallbackSignature, t)
          else if detect_vote_equivocation t (fv_proposal_hash v) (fv_voter_mn_id v)
          then (Inl (Equivocation (fv_voter_mn_id v)), flag_byzantine (fv_voter_mn_id v) t)
          else let tot = sum_list (map (\<lambda>mn. max (sampling_weight (mn_tier mn)) 1) active)
            in case accumulate_fallback_vote v tot t of
                 (None, t1) \<Rightarrow> (Inr [MsgVote v], t1)
               | (Some d, t1) \<Rightarrow> (Inr [MsgVote v],
                   (case get_proposal_txid t1 (fv_proposal_hash v) of
                      None \<Rightarrow> t1
                    | Some tid \<Rightarrow> finalize_from_fallback ck tid d
                        (case get_vote_status t1 (fv_proposal_hash v) of None \<Rightarrow> 0
                         | Some (a, r, _) \<Rightarrow> (case d of Approve \<Rightarrow> a | FvReject \<Rightarrow> r)) t1)))"

end
