(* ===== verification/Fallback_Props.thy ===== *)
theory Fallback_Props
  imports Fallback
begin

text \<open>
  What the liveness fallback guarantees: every round ends within a bounded number of timeouts,
  nodes with the same view elect the same leader whatever the order of their lists, and fallback
  starts only when more nodes reported the stall than may be faulty; and where it does not: a
  repeated vote counts again, and the two leader elections disagree.
\<close>

section \<open>Rounds end\<close>

lemmas status_defs = get_tx_status_def set_tx_status_def stop_stall_timer_def clear_fallback_def
  transition_to_rejected_def

lemma timeout_one_other:
  assumes "k \<noteq> tid" "timeout_one X ck idn nodes prev (k, e) (a, t) = (a', t')"
  shows "dget (tc_fallback_rounds t') tid = dget (tc_fallback_rounds t) tid"
    "get_tx_status t' tid = get_tx_status t tid"
proof -
  obtain slot round st n msgs where e: "e = (slot, round, st)" "a = (n, msgs)" by (metis prod.exhaust)
  show "dget (tc_fallback_rounds t') tid = dget (tc_fallback_rounds t) tid"
    "get_tx_status t' tid = get_tx_status t tid"
    using assms by (auto simp: timeout_one_def e status_defs Let_def split: if_splits option.splits)
qed

lemma timeout_fold_other:
  assumes "tid \<notin> fst ` set es" "fold (timeout_one X ck idn nodes prev) es (a, t) = (a', t')"
  shows "dget (tc_fallback_rounds t') tid = dget (tc_fallback_rounds t) tid
    \<and> get_tx_status t' tid = get_tx_status t tid"
  using assms
proof (induction es arbitrary: a t)
  case (Cons e es)
  obtain k r where e: "e = (k, r)" by (cases e)
  obtain a1 t1 where s: "timeout_one X ck idn nodes prev e (a, t) = (a1, t1)" by fastforce
  have "k \<noteq> tid" using Cons.prems(1) by (auto simp: e)
  note o = timeout_one_other [OF this s [unfolded e]]
  show ?case using Cons.IH [of a1 t1] Cons.prems s o by simp
qed simp

lemma timeout_one_self:
  assumes "timeout_one X ck idn nodes prev (tid, slot, round, st) (a, t) = (a', t')"
  shows "if 5 \<le> round then dget (tc_fallback_rounds t') tid = None
      \<and> (\<exists>at r. get_tx_status t' tid = Some (Rejected at r))
    else dget (tc_fallback_rounds t') tid = Some (slot + 1, round + 1, ck_instant ck)"
  using assms by (cases a) (auto simp: timeout_one_def status_defs MAX_FALLBACK_ROUNDS_def Let_def
      split: if_splits option.splits)

lemma check_timeouts_self:
  assumes d: "dinv (tc_fallback_rounds t)"
    and r: "dget (tc_fallback_rounds t) tid = Some (slot, round, started)"
    and late: "started + FALLBACK_ROUND_TIMEOUT \<le> ck_instant ck"
    and c: "check_fallback_timeouts X ck idn nodes prev t = (a', t')"
  shows "if 5 \<le> round then dget (tc_fallback_rounds t') tid = None
      \<and> (\<exists>at r. get_tx_status t' tid = Some (Rejected at r))
    else dget (tc_fallback_rounds t') tid = Some (slot + 1, round + 1, ck_instant ck)"
proof -
  let ?es = "filter (round_timed_out ck) (tc_fallback_rounds t)"
  have "(tid, slot, round, started) \<in> set ?es"
    using r late by (auto simp: round_timed_out_def dest: dget_in_set)
  then obtain xs ys where es: "?es = xs @ (tid, slot, round, started) # ys" by (meson split_list)
  have "distinct (map fst ?es)" using d by (simp add: dinv_def distinct_map_filter)
  then have y: "tid \<notin> fst ` set ys" unfolding es by auto
  obtain a1 t1 where f1: "fold (timeout_one X ck idn nodes prev) xs ((0, []), t) = (a1, t1)" by fastforce
  obtain a2 t2 where f2: "timeout_one X ck idn nodes prev (tid, slot, round, started) (a1, t1) = (a2, t2)"
    by fastforce
  have f3: "fold (timeout_one X ck idn nodes prev) ys (a2, t2) = (a', t')"
    using c unfolding check_fallback_timeouts_def es by (simp add: f1 f2)
  show ?thesis using timeout_one_self [OF f2] timeout_fold_other [OF y f3] by (simp split: if_splits)
qed

lemma dinv_timeout_one:
  "dinv (tc_fallback_rounds t) \<Longrightarrow> timeout_one X ck idn nodes prev e (a, t) = (a', t') \<Longrightarrow>
     dinv (tc_fallback_rounds t')"
  by (auto simp: timeout_one_def status_defs Let_def split: prod.splits if_splits option.splits)

lemma dinv_check_timeouts:
  assumes "dinv (tc_fallback_rounds t)"
  shows "dinv (tc_fallback_rounds (snd (check_fallback_timeouts X ck idn nodes prev t)))"
proof -
  have "dinv (tc_fallback_rounds (snd a)) \<Longrightarrow>
      dinv (tc_fallback_rounds (snd (fold (timeout_one X ck idn nodes prev) es a)))" for es a
  proof (induction es arbitrary: a)
    case (Cons e es)
    obtain b t' where "timeout_one X ck idn nodes prev e a = (b, t')" by fastforce
    then have "dinv (tc_fallback_rounds (snd (timeout_one X ck idn nodes prev e a)))"
      using dinv_timeout_one [of "snd a" X ck idn nodes prev e "fst a"] Cons.prems by simp
    then show ?case using Cons.IH by simp
  qed simp
  then show ?thesis using assms by (simp add: check_fallback_timeouts_def)
qed

definition run_checks ::
    "extern \<Rightarrow> NodeIdentity option \<Rightarrow> (Masternode \<times> bool) list \<Rightarrow> hash256 \<Rightarrow> clock list
      \<Rightarrow> TimeVoteConsensus \<Rightarrow> TimeVoteConsensus" where
  "run_checks X idn nodes prev cks t =
     fold (\<lambda>ck t. snd (check_fallback_timeouts X ck idn nodes prev t)) cks t"

fun spaced :: "instant \<Rightarrow> clock list \<Rightarrow> bool" where
  "spaced at [] = True"
| "spaced at (ck # cks) = (at + FALLBACK_ROUND_TIMEOUT \<le> ck_instant ck \<and> spaced (ck_instant ck) cks)"

lemma check_timeouts_early:
  assumes r: "dget (tc_fallback_rounds t) tid = Some (slot, round, started)" and d: "dinv (tc_fallback_rounds t)"
    and early: "ck_instant ck < started + FALLBACK_ROUND_TIMEOUT" "0 < FALLBACK_ROUND_TIMEOUT"
  shows "dget (tc_fallback_rounds (snd (check_fallback_timeouts X ck idn nodes prev t))) tid = Some (slot, round, started)"
proof -
  let ?es = "filter (round_timed_out ck) (tc_fallback_rounds t)"
  have "tid \<notin> fst ` set ?es"
    using in_set_dget [OF d, of tid] r early by (auto simp: round_timed_out_def)
  from timeout_fold_other [OF this, of X ck idn nodes prev "(0, [])" t] r
  show ?thesis by (metis check_fallback_timeouts_def prod.collapse)
qed

lemma check_timeouts_gone:
  assumes "dget (tc_fallback_rounds t) tid = None" and d: "dinv (tc_fallback_rounds t)"
  shows "dget (tc_fallback_rounds (snd (check_fallback_timeouts X ck idn nodes prev t))) tid = None
    \<and> get_tx_status (snd (check_fallback_timeouts X ck idn nodes prev t)) tid = get_tx_status t tid"
proof -
  let ?es = "filter (round_timed_out ck) (tc_fallback_rounds t)"
  have "tid \<notin> fst ` set ?es" using in_set_dget [OF d, of tid] assms(1) by auto
  from timeout_fold_other [OF this, of X ck idn nodes prev "(0, [])" t] assms(1)
  show ?thesis by (metis check_fallback_timeouts_def prod.collapse)
qed

lemma run_checks_Cons: "run_checks X idn nodes prev (ck # cks) t =
    run_checks X idn nodes prev cks (snd (check_fallback_timeouts X ck idn nodes prev t))"
  by (simp add: run_checks_def)

lemma run_checks_gone:
  "dget (tc_fallback_rounds t) tid = None \<Longrightarrow> dinv (tc_fallback_rounds t) \<Longrightarrow>
   dget (tc_fallback_rounds (run_checks X idn nodes prev cks t)) tid = None
   \<and> get_tx_status (run_checks X idn nodes prev cks t) tid = get_tx_status t tid"
proof (induction cks arbitrary: t)
  case (Cons ck cks)
  let ?t = "snd (check_fallback_timeouts X ck idn nodes prev t)"
  show ?case unfolding run_checks_Cons
    using Cons.IH [of ?t] check_timeouts_gone [OF Cons.prems, of X ck idn nodes prev]
      dinv_check_timeouts [OF Cons.prems(2), of X ck idn nodes prev] by simp
qed (simp add: run_checks_def)

text \<open>Checks that follow one another within \<open>g\<close>, from the instant \<open>at\<close> on.\<close>

fun timely :: "nat \<Rightarrow> instant \<Rightarrow> clock list \<Rightarrow> bool" where
  "timely g at [] = True"
| "timely g at (ck # cks) = (at \<le> ck_instant ck \<and> ck_instant ck \<le> at + g \<and> timely g (ck_instant ck) cks)"

lemma rounds_end_from:
  assumes "dinv (tc_fallback_rounds t)"
    and "dget (tc_fallback_rounds t) tid = Some (slot, round, started)" "round \<le> 5"
    and "timely g at cks" "started \<le> at" "at < started + FALLBACK_ROUND_TIMEOUT"
    and "started + (6 - unat round) * (FALLBACK_ROUND_TIMEOUT + g) \<le> last (at # map ck_instant cks)"
  shows "dget (tc_fallback_rounds (run_checks X idn nodes prev cks t)) tid = None
    \<and> (\<exists>time r. get_tx_status (run_checks X idn nodes prev cks t) tid = Some (Rejected time r))"
  using assms
proof (induction cks arbitrary: t slot round started at)
  case Nil
  have "unat round \<le> 5" using Nil.prems(3) by (simp add: word_le_nat_alt)
  then have "1 * (FALLBACK_ROUND_TIMEOUT + g) \<le> (6 - unat round) * (FALLBACK_ROUND_TIMEOUT + g)"
    by (intro mult_le_mono1) simp
  then have "started + FALLBACK_ROUND_TIMEOUT \<le> started + (6 - unat round) * (FALLBACK_ROUND_TIMEOUT + g)"
    by (intro add_left_mono) (metis le_add1 le_trans mult_1)
  also have "\<dots> \<le> at" using Nil.prems(7) by simp
  finally show ?case using Nil.prems(6) by simp
next
  case (Cons ck cks)
  let ?t = "snd (check_fallback_timeouts X ck idn nodes prev t)" and ?T = FALLBACK_ROUND_TIMEOUT
  note d = dinv_check_timeouts [OF Cons.prems(1), of X ck idn nodes prev]
  have pos: "0 < ?T" by (simp add: FALLBACK_ROUND_TIMEOUT_def)
  have tm: "at \<le> ck_instant ck" "ck_instant ck \<le> at + g" "timely g (ck_instant ck) cks" using Cons.prems(4) by simp_all
  have l: "last (at # map ck_instant (ck # cks)) = last (ck_instant ck # map ck_instant cks)" by simp
  have r5: "unat round \<le> 5" using Cons.prems(3) by (simp add: word_le_nat_alt)
  show ?case
  proof (cases "ck_instant ck < started + ?T")
    case True
    note e = check_timeouts_early [OF Cons.prems(2,1) True pos, of X idn nodes prev]
    show ?thesis unfolding run_checks_Cons
      by (rule Cons.IH [OF d e Cons.prems(3) tm(3)]) (use True tm(1) Cons.prems(5,7) l in simp_all)
  next
    case False
    then have late: "started + ?T \<le> ck_instant ck" by simp
    note s = check_timeouts_self [OF Cons.prems(1,2) late surjective_pairing, of X idn nodes prev]
    show ?thesis
    proof (cases "round = 5")
      case True
      then have "dget (tc_fallback_rounds ?t) tid = None" "\<exists>time r. get_tx_status ?t tid = Some (Rejected time r)"
        using s by simp_all
      then show ?thesis unfolding run_checks_Cons using run_checks_gone [OF _ d, of tid X idn nodes prev cks] by simp
    next
      case False
      then have lt: "round < 5" using Cons.prems(3) by simp
      then have u: "unat round < 5" by (simp add: word_less_nat_alt)
      then have u1: "unat (round + 1) = unat round + 1" by (simp add: unat_word_ariths)
      have e: "dget (tc_fallback_rounds ?t) tid = Some (slot + 1, round + 1, ck_instant ck)" using s lt by (simp add: not_le)
      have "6 - unat round = Suc (6 - unat (round + 1))" using u by (simp add: u1)
      then have "started + ?T + g + (6 - unat (round + 1)) * (?T + g) \<le> last (at # map ck_instant (ck # cks))"
        using Cons.prems(7) by (simp add: algebra_simps)
      then have need: "ck_instant ck + (6 - unat (round + 1)) * (?T + g) \<le> last (ck_instant ck # map ck_instant cks)"
        using tm(2) Cons.prems(6) l by linarith
      have "round + 1 \<le> 5" using u by (simp add: word_le_nat_alt u1)
      from Cons.IH [OF d e this tm(3) _ _ need] pos show ?thesis unfolding run_checks_Cons by simp
    qed
  qed
qed

text \<open>
  C27. A fallback that reaches no quorum ends. If the time-out check runs at intervals of at most
  \<open>g\<close> and nothing else decides the transaction, then a transaction in round \<open>r\<close>, at most five, is
  rejected and out of the rounds once \<open>6 - r\<close> times ten seconds plus \<open>g\<close> have passed since its round
  began, whatever else is in fallback, whoever leads and whatever the registry holds.
\<close>

theorem fallback_rounds_end:
  assumes "dinv (tc_fallback_rounds t)"
    and "dget (tc_fallback_rounds t) tid = Some (slot, round, started)" "round \<le> 5"
    and "timely g started cks"
    and "started + (6 - unat round) * (FALLBACK_ROUND_TIMEOUT + g) \<le> last (started # map ck_instant cks)"
  shows "dget (tc_fallback_rounds (run_checks X idn nodes prev cks t)) tid = None
    \<and> (\<exists>time r. get_tx_status (run_checks X idn nodes prev cks t) tid = Some (Rejected time r))"
  using rounds_end_from [OF assms(1-4) _ _ assms(5)] by (simp add: FALLBACK_ROUND_TIMEOUT_def)

text \<open>
  From round 0 it takes six time-outs, 60 seconds: after five checks, each ten seconds after the
  last, the transaction is in round 5 and still undecided.
\<close>

lemma five_timeouts_undecided:
  assumes "dinv (tc_fallback_rounds t)" and "dget (tc_fallback_rounds t) tid = Some (slot, round, started)"
    and "unat round + length cks \<le> 5" and "spaced started cks"
  shows "\<exists>slot' at. dget (tc_fallback_rounds (run_checks X idn nodes prev cks t)) tid
    = Some (slot', round + of_nat (length cks), at)"
  using assms
proof (induction cks arbitrary: t slot round started)
  case (Cons ck cks)
  let ?t = "snd (check_fallback_timeouts X ck idn nodes prev t)"
  have late: "started + FALLBACK_ROUND_TIMEOUT \<le> ck_instant ck" using Cons.prems(4) by simp
  note s = check_timeouts_self [OF Cons.prems(1,2) late surjective_pairing, of X idn nodes prev]
  have u: "unat round < 5" using Cons.prems(3) by simp
  then have "round < 5" by (simp add: word_less_nat_alt)
  then have e: "dget (tc_fallback_rounds ?t) tid = Some (slot + 1, round + 1, ck_instant ck)"
    using s by (simp add: not_le)
  have "unat (round + 1) = unat round + 1" using u by (simp add: unat_word_ariths)
  then show ?case unfolding run_checks_Cons
    using Cons.IH [OF dinv_check_timeouts [OF Cons.prems(1)] e] Cons.prems(3,4) by (simp add: algebra_simps)
qed (simp add: run_checks_def)

definition tick :: "nat \<Rightarrow> clock" where
  "tick n = \<lparr>ck_instant = n * 10000000000, ck_secs = 0, ck_millis = 0\<rparr>"

definition stalled_tx :: TimeVoteConsensus where
  "stalled_tx = transition_to_fallback_resolution (tick 0) zero_hash 2 timevote_new"

theorem fallback_rounds_end_witness:
  "\<exists>at r. get_tx_status (run_checks extern0 None [] zero_hash (map tick [1, 2, 3, 4, 5, 6, 7, 8, 9, 10, 11, 12]) stalled_tx) zero_hash
     = Some (Rejected at r)"
proof -
  have "dinv (tc_fallback_rounds stalled_tx)"
    "dget (tc_fallback_rounds stalled_tx) zero_hash = Some (0, 0, 0)"
    by (simp_all add: stalled_tx_def transition_to_fallback_resolution_def status_defs timevote_new_def
        tick_def Let_def dinv_def)
  moreover have "timely 10000000000 0 (map tick [1, 2, 3, 4, 5, 6, 7, 8, 9, 10, 11, 12])" by (simp add: tick_def)
  ultimately show ?thesis
    using fallback_rounds_end [where cks = "map tick [1, 2, 3, 4, 5, 6, 7, 8, 9, 10, 11, 12]" and g = 10000000000]
    by (simp add: tick_def FALLBACK_ROUND_TIMEOUT_def)
qed

section \<open>Leaders\<close>

lemma elect_fold:
  defines "r \<equiv> \<lambda>h ids s. fold (elect_step h) ids s"
  shows "fst (r h ids s) \<le> fst s \<and> (\<forall>i \<in> set ids. fst (r h ids s) \<le> h i)
    \<and> (r h ids s = s \<or> (\<exists>i \<in> set ids. r h ids s = (h i, Some i) \<and> h i < fst s))"
  unfolding r_def
proof (induction ids arbitrary: s)
  case (Cons i ids)
  have "elect_step h i s = s \<and> fst s \<le> h i \<or> elect_step h i s = (h i, Some i) \<and> h i < fst s"
    by (auto simp: elect_step_def)
  then show ?case using Cons.IH [of "elect_step h i s"] by auto
qed simp

text \<open>The node with the least hash wins, if that hash is below the all-ones start value.\<close>

lemma elect_order:
  assumes "set ids = set js" "inj_on h (set ids)"
  shows "snd (fold (elect_step h) ids (b, None)) = snd (fold (elect_step h) js (b, None))"
  using elect_fold [where h = h and ids = ids and s = "(b, None)"]
    elect_fold [where h = h and ids = js and s = "(b, None)"] assms
  by (auto simp: inj_on_def) (meson antisym)

lemma elect_with_ref: "elect_fallback_leader X tid slot round (avs_new_with_ref now s vs) prev
    = snd (fold (elect_step (leader_hash X tid slot round prev)) (map vi_address vs) (replicate 32 0xff, None))"
  by (simp add: elect_fallback_leader_def avs_new_with_ref_def)

lemma compute_leader_order:
  assumes "mset avs = mset avs'" and inj: "inj_on (leader_score X tid slot prev) (set avs)"
  shows "compute_fallback_leader X tid slot avs prev = compute_fallback_leader X tid slot avs' prev"
proof -
  let ?f = "\<lambda>mn. (leader_score X tid slot prev mn, mn_address mn)"
  have set: "set avs = set avs'" using assms(1) by (metis mset_eq_setD)
  have "inj_on fst (set (map ?f avs))" using inj by (auto simp: inj_on_def)
  moreover have "mset (map ?f avs) = mset (sort_key fst (map ?f avs'))" using assms(1) by simp
  ultimately have eq: "sort_key fst (map ?f avs) = sort_key fst (map ?f avs')"
    by (intro sort_key_inj_key_eq) simp_all
  have "avs = [] \<longleftrightarrow> avs' = []" using set by auto
  then show ?thesis unfolding compute_fallback_leader_def eq by (simp only:)
qed

text \<open>The leader the receivers check has the least score.\<close>

lemma compute_leader_least:
  assumes "avs \<noteq> []"
  shows "\<exists>mn \<in> set avs. compute_fallback_leader X tid slot avs prev = Some (mn_address mn)
    \<and> (\<forall>mn' \<in> set avs. leader_score X tid slot prev mn \<le> leader_score X tid slot prev mn')"
proof -
  let ?f = "\<lambda>mn. (leader_score X tid slot prev mn, mn_address mn)"
  have len: "length (sort_key fst (map ?f avs)) = length avs" by simp
  then obtain e rest where r: "sort_key fst (map ?f avs) = e # rest"
    using assms by (cases "sort_key fst (map ?f avs)") auto
  have all: "set (sort_key fst (map ?f avs)) = ?f ` set avs" by simp
  then obtain mn where mn: "mn \<in> set avs" "e = ?f mn" unfolding r by auto
  have "sorted (map fst (e # rest))" unfolding r [symmetric] by simp
  then have "fst e \<le> fst x" if "x \<in> ?f ` set avs" for x using that unfolding all [symmetric] r by auto
  then have "fst e \<le> leader_score X tid slot prev mn'" if "mn' \<in> set avs" for mn' using that by force
  then show ?thesis using assms r mn by (intro bexI [of _ mn]) (auto simp: compute_fallback_leader_def)
qed

text \<open>
  C35. Nodes that see the same active masternodes agree on the fallback leader, in whatever order
  their registries list them, as long as the hashes of different nodes differ: both for the leader a
  node elects to propose (\<open>elect_fallback_leader\<close>) and for the one its receivers check
  (\<open>compute_fallback_leader\<close>). The first, if any is elected, is a node of
  least hash, the second one of least score. (That the two functions hash different things is shown below.)
\<close>

theorem fallback_leader_agreed:
  assumes same: "mset avs = mset avs'"
    and hashes: "inj_on (leader_hash X tid slot round prev) (mn_address ` set avs)"
    and scores: "inj_on (leader_score X tid slot prev) (set avs)"
  shows "elect_fallback_leader X tid slot round (avs_new_with_ref now s (get_validators avs)) prev
      = elect_fallback_leader X tid slot round (avs_new_with_ref now' s' (get_validators avs')) prev
    \<and> (\<forall>i. elect_fallback_leader X tid slot round (avs_new_with_ref now s (get_validators avs)) prev = Some i \<longrightarrow>
         i \<in> mn_address ` set avs
         \<and> (\<forall>j \<in> mn_address ` set avs. leader_hash X tid slot round prev i \<le> leader_hash X tid slot round prev j))
    \<and> compute_fallback_leader X tid slot avs prev = compute_fallback_leader X tid slot avs' prev
    \<and> (avs \<noteq> [] \<longrightarrow> (\<exists>mn \<in> set avs. compute_fallback_leader X tid slot avs prev = Some (mn_address mn)
         \<and> (\<forall>mn' \<in> set avs. leader_score X tid slot prev mn \<le> leader_score X tid slot prev mn')))"
proof (intro conjI)
  let ?h = "leader_hash X tid slot round prev" and ?is = "map vi_address (get_validators avs)"
  have addr: "set (map vi_address (get_validators ms)) = mn_address ` set ms" for ms
    by (auto simp: get_validators_def)
  have "set avs = set avs'" using same by (metis mset_eq_setD)
  then show "elect_fallback_leader X tid slot round (avs_new_with_ref now s (get_validators avs)) prev
      = elect_fallback_leader X tid slot round (avs_new_with_ref now' s' (get_validators avs')) prev"
    using hashes unfolding elect_with_ref by (intro elect_order) (simp_all only: addr)
  show "\<forall>i. elect_fallback_leader X tid slot round (avs_new_with_ref now s (get_validators avs)) prev = Some i \<longrightarrow>
      i \<in> mn_address ` set avs \<and> (\<forall>j \<in> mn_address ` set avs. ?h i \<le> ?h j)"
    unfolding elect_with_ref addr [symmetric]
    using elect_fold [where h = ?h and ids = ?is and s = "(replicate 32 0xff, None)"] by auto
  show "compute_fallback_leader X tid slot avs prev = compute_fallback_leader X tid slot avs' prev"
    using same scores by (rule compute_leader_order)
  show "avs \<noteq> [] \<longrightarrow> (\<exists>mn \<in> set avs. compute_fallback_leader X tid slot avs prev = Some (mn_address mn)
      \<and> (\<forall>mn' \<in> set avs. leader_score X tid slot prev mn \<le> leader_score X tid slot prev mn'))"
    using compute_leader_least by blast
qed

definition fb_node :: "string \<Rightarrow> u8 \<Rightarrow> Masternode" where
  "fb_node i b = new_legacy i [] 0 [b] Bronze 0"

lemma fb_scores:
  "leader_score extern0 [] 0 [] (fb_node i b) = b # replicate 8 0 @ replicate 23 7"
  by (simp add: leader_score_def fb_node_def new_legacy_def extern0_def le_bytes_def eval_nat_numeral)

lemma fb_hashes: "leader_hash extern0 [] 0 0 [] [c] = of_nat (of_char c) # replicate 12 0 @ replicate 19 7"
  by (simp add: leader_hash_def extern0_def le_bytes_def as_bytes_def eval_nat_numeral)

theorem fallback_leader_agreed_witness:
  "elect_fallback_leader extern0 [] 0 0 (avs_new_with_ref 0 0 (get_validators [fb_node ''a'' 5, fb_node ''b'' 2])) []
     = elect_fallback_leader extern0 [] 0 0 (avs_new_with_ref 1 1 (get_validators [fb_node ''b'' 2, fb_node ''a'' 5])) []
   \<and> compute_fallback_leader extern0 [] 0 [fb_node ''a'' 5, fb_node ''b'' 2] []
     = compute_fallback_leader extern0 [] 0 [fb_node ''b'' 2, fb_node ''a'' 5] []"
proof -
  let ?l = "[fb_node ''a'' 5, fb_node ''b'' 2]" and ?r = "[fb_node ''b'' 2, fb_node ''a'' 5]"
  have addr: "mn_address (fb_node i b) = i" for i b by (simp add: fb_node_def new_legacy_def)
  have "mset ?l = mset ?r" by simp
  moreover have "inj_on (leader_hash extern0 [] 0 0 []) (mn_address ` set ?l)"
    by (simp add: addr fb_hashes inj_on_def)
  moreover have "inj_on (leader_score extern0 [] 0 []) (set ?l)" by (simp add: fb_scores inj_on_def)
  ultimately show ?thesis using fallback_leader_agreed [of ?l ?r extern0 "[]" 0 0 "[]" 0 0 1 1] by blast
qed

text \<open>
  The periodic task elects with \<open>elect_fallback_leader\<close>, which hashes the address and the round; the
  receivers of its proposal check \<open>compute_fallback_leader\<close>, which hashes the public key. With two
  nodes whose keys and addresses order differently, the elected leader is refused by everyone.
\<close>

lemma leaders_disagree:
  "elect_fallback_leader extern0 [] 0 0
     (avs_new_with_ref 0 0 (get_validators [fb_node ''a'' 5, fb_node ''b'' 2])) [] = Some ''a''
   \<and> compute_fallback_leader extern0 [] 0 [fb_node ''a'' 5, fb_node ''b'' 2] [] = Some ''b''"
proof -
  have "replicate 32 (0xff :: u8) = 0xff # replicate 31 0xff" by (simp add: eval_nat_numeral)
  then show ?thesis
    by (simp add: elect_fallback_leader_def avs_new_with_ref_def get_validators_def elect_step_def
        compute_fallback_leader_def fb_scores) (simp add: fb_node_def new_legacy_def fb_hashes)
qed

section \<open>Alerts\<close>

lemma alert_count_card: "get_alert_count t tid = card (la_reporter_mn_id ` set (alerts_for t tid))"
  by (simp add: get_alert_count_def length_remdups_card_conv)

text \<open>
  C37. A transaction enters fallback resolution through an alert only when the stall is reported by
  more different nodes than may be faulty: of \<open>n\<close> registered nodes, more than \<open>(n - 1) div 3\<close> have
  reported it, so whichever set of at most that many nodes is faulty, one of the reporters is not.
\<close>

theorem fallback_needs_correct_reporter:
  assumes h: "handle_liveness_alert X ck nodes a t = (Inr msgs, t')"
    and before: "\<forall>s. get_tx_status t (la_txid a) = Some s \<longrightarrow> \<not> is_fallback s"
    and after: "get_tx_status t' (la_txid a) = Some s" "is_fallback s"
    and faulty: "finite F" "card F \<le> (length nodes - 1) div 3"
  shows "(length nodes - 1) div 3 < card (la_reporter_mn_id ` set (alerts_for t' (la_txid a)))
    \<and> (\<exists>i \<in> la_reporter_mn_id ` set (alerts_for t' (la_txid a)). i \<notin> F)"
proof -
  obtain r t1 where acc: "accumulate_liveness_alert a (length nodes) t = (r, t1)" by fastforce
  have st: "get_tx_status t1 = get_tx_status t"
    using acc by (auto simp: accumulate_liveness_alert_def Let_def get_tx_status_def fun_eq_iff split: if_splits)
  have r: "r" and t': "t' = transition_to_fallback_resolution ck (la_txid a) (of_nat (get_alert_count t1 (la_txid a))) t1"
    using h before after st by (auto simp: handle_liveness_alert_def acc
        split: option.splits if_splits TransactionStatus.splits bool.splits)
  have al: "alerts_for t' (la_txid a) = alerts_for t1 (la_txid a)"
    by (simp add: t' transition_to_fallback_resolution_def alerts_for_def stop_stall_timer_def set_tx_status_def Let_def)
  have "alert_threshold (length nodes) \<le> get_alert_count t1 (la_txid a)"
    using acc r by (auto simp: accumulate_liveness_alert_def Let_def get_alert_count_def alerts_for_def split: if_splits)
  then have more: "(length nodes - 1) div 3 < card (la_reporter_mn_id ` set (alerts_for t' (la_txid a)))"
    by (simp add: alert_count_card al alert_threshold_def)
  then have "card F < card (la_reporter_mn_id ` set (alerts_for t' (la_txid a)))" using faulty(2) by simp
  then have "\<exists>i \<in> la_reporter_mn_id ` set (alerts_for t' (la_txid a)). i \<notin> F"
    using faulty(1) by (metis card_mono leD subsetI)
  with more show ?thesis ..
qed

definition stall_alert :: LivenessAlert where
  "stall_alert = \<lparr>la_chain_id = 1, la_txid = zero_hash, la_tx_hash_commitment = zero_hash, la_slot_index = 0,
     la_poll_history = [], la_current_confidence = 0, la_stall_duration_ms = 0, la_reporter_mn_id = ''a'',
     la_reporter_signature = []\<rparr>"

definition voting_tx :: TimeVoteConsensus where
  "voting_tx = start_stall_timer (tick 0) zero_hash (set_tx_status zero_hash (Voting 0 0 0) timevote_new)"

theorem fallback_needs_correct_reporter_witness:
  "''a'' \<in> la_reporter_mn_id ` set (alerts_for (snd (handle_liveness_alert extern0 (tick 4)
      [(fb_node ''a'' 5, True)] stall_alert voting_tx)) zero_hash)"
proof -
  have tid: "la_txid stall_alert = zero_hash" "la_reporter_mn_id stall_alert = ''a''" by (simp_all add: stall_alert_def)
  have stalled: "check_stall_timeout (tick 4) voting_tx zero_hash"
    by (simp add: check_stall_timeout_def voting_tx_def start_stall_timer_def tick_def STALL_TIMEOUT_def)
  have none: "alerts_for voting_tx zero_hash = []"
    by (simp add: voting_tx_def start_stall_timer_def set_tx_status_def timevote_new_def alerts_for_def)
  have st: "get_tx_status voting_tx zero_hash = Some (Voting 0 0 0)"
    by (simp add: voting_tx_def start_stall_timer_def set_tx_status_def get_tx_status_def)
  obtain t1 where acc: "accumulate_liveness_alert stall_alert 1 voting_tx = (True, t1)"
    by (simp add: accumulate_liveness_alert_def Let_def tid none [unfolded alerts_for_def] get_alert_count_def
        alerts_for_def alert_threshold_def)
  let ?t' = "transition_to_fallback_resolution (tick 4) zero_hash (of_nat (get_alert_count t1 zero_hash)) t1"
  have h: "handle_liveness_alert extern0 (tick 4) [(fb_node ''a'' 5, True)] stall_alert voting_tx
      = (Inr [MsgAlert stall_alert], ?t')"
    using stalled acc by (simp add: handle_liveness_alert_def tid find_node_def find_active_def fb_node_def
        new_legacy_def alert_verify_def signed_by_def extern0_def detect_alert_equivocation_def none st)
  have after: "get_tx_status ?t' (la_txid stall_alert)
      = Some (FallbackResolution (ck_millis (tick 4)) 0 (of_nat (get_alert_count t1 zero_hash)))"
    by (simp add: transition_to_fallback_resolution_def get_tx_status_def stop_stall_timer_def set_tx_status_def
        Let_def tid)
  have "alerts_for ?t' zero_hash = [stall_alert]"
    using acc by (auto simp: transition_to_fallback_resolution_def alerts_for_def stop_stall_timer_def
        set_tx_status_def Let_def accumulate_liveness_alert_def none [unfolded alerts_for_def] tid split: if_splits)
  moreover have "\<exists>i \<in> la_reporter_mn_id ` set (alerts_for ?t' (la_txid stall_alert)). i \<notin> {}"
    by (rule fallback_needs_correct_reporter [OF h _ after, THEN conjunct2]) (simp_all add: st tid is_fallback_def)
  ultimately show ?thesis by (auto simp: h tid)
qed

section \<open>Repeated votes\<close>

text \<open>
  \<open>accumulate_fallback_vote\<close> does not look for an earlier vote of the same voter, and equivocation is
  only detected between different decisions: one node that sends its own vote three times reaches
  the quorum of four nodes of equal weight alone.
\<close>

definition lone_vote :: FallbackVote where
  "lone_vote = \<lparr>fv_chain_id = 1, fv_proposal_hash = zero_hash, fv_vote = Approve, fv_voter_mn_id = ''a'',
     fv_voter_weight = 10, fv_voter_signature = []\<rparr>"

definition four_nodes :: "Masternode list" where
  "four_nodes = [fb_node ''a'' 1, fb_node ''b'' 2, fb_node ''c'' 3, fb_node ''d'' 4]"

lemma lone_vote_step:
  assumes "fallback_votes_for t zero_hash = replicate n lone_vote"
  shows "snd (handle_fallback_vote extern0 (tick 0) four_nodes lone_vote t) =
    (case accumulate_fallback_vote lone_vote 40 t of
       (None, t1) \<Rightarrow> t1
     | (Some d, t1) \<Rightarrow> (case get_proposal_txid t1 zero_hash of None \<Rightarrow> t1
         | Some tid \<Rightarrow> finalize_from_fallback (tick 0) tid d
             (case get_vote_status t1 zero_hash of None \<Rightarrow> 0
              | Some (a, r, _) \<Rightarrow> (case d of Approve \<Rightarrow> a | FvReject \<Rightarrow> r)) t1))"
proof -
  have "fv_proposal_hash lone_vote = zero_hash" "fv_voter_mn_id lone_vote = ''a''" by (simp_all add: lone_vote_def)
  moreover have "find_active four_nodes ''a'' = Some (fb_node ''a'' 1)"
    by (simp add: find_active_def four_nodes_def fb_node_def new_legacy_def)
  moreover have "sum_list (map (\<lambda>mn. max (sampling_weight (mn_tier mn)) 1) four_nodes) = 40"
    by (simp add: four_nodes_def fb_node_def new_legacy_def)
  moreover have "\<not> detect_vote_equivocation t zero_hash ''a''"
    by (cases n) (auto simp: detect_vote_equivocation_def assms filter_replicate list_ex_iff)
  moreover have "fallback_vote_verify extern0 v pk" for v pk
    by (simp add: fallback_vote_verify_def signed_by_def extern0_def)
  ultimately show ?thesis
    by (simp add: handle_fallback_vote_def split: prod.split option.split)
qed

lemma lone_vote_accumulates:
  assumes "fallback_votes_for t zero_hash = replicate n lone_vote"
  shows "accumulate_fallback_vote lone_vote 40 t =
    (if 26 \<le> (of_nat (Suc n) * 10 :: u64) then Some Approve else None,
     t\<lparr>tc_fallback_votes := dput zero_hash (replicate (Suc n) lone_vote) (tc_fallback_votes t)\<rparr>)"
proof -
  have p: "fv_proposal_hash lone_vote = zero_hash" "fv_vote lone_vote = Approve" "fv_voter_weight lone_vote = 10"
    by (simp_all add: lone_vote_def)
  have r: "replicate n lone_vote @ [lone_vote] = replicate (Suc n) lone_vote" by (simp add: replicate_append_same)
  have "side_weight Approve (replicate k lone_vote) = of_nat k * 10" "side_weight FvReject (replicate k lone_vote) = 0" for k
    by (simp_all add: side_weight_def p sum_list_replicate)
  then show ?thesis by (simp only: accumulate_fallback_vote_def Let_def p assms r) simp
qed

lemma repeated_fallback_vote_decides:
  "let t = register_proposal zero_hash [9] timevote_new;
       t' = fold (\<lambda>v t. snd (handle_fallback_vote extern0 (tick 0) four_nodes v t)) [lone_vote, lone_vote, lone_vote] t
   in get_tx_status t' [9] = Some (Finalized 0 30)"
proof -
  let ?t = "\<lambda>n. (register_proposal zero_hash [9] timevote_new)
    \<lparr>tc_fallback_votes := (if n = 0 then [] else [(zero_hash, replicate n lone_vote)])\<rparr>"
  have v: "fallback_votes_for (?t n) zero_hash = replicate n lone_vote" for n
    by (simp add: fallback_votes_for_def)
  have s: "accumulate_fallback_vote lone_vote 40 (?t n)
      = (if 26 \<le> (of_nat (Suc n) * 10 :: u64) then Some Approve else None, ?t (Suc n))" for n
    by (simp add: lone_vote_accumulates [OF v])
  have "snd (handle_fallback_vote extern0 (tick 0) four_nodes lone_vote (?t 0)) = ?t (Suc 0)"
    using s [of 0] by (simp only: lone_vote_step [OF v]) simp
  moreover have "snd (handle_fallback_vote extern0 (tick 0) four_nodes lone_vote (?t (Suc 0))) = ?t (Suc (Suc 0))"
    using s [of "Suc 0"] by (simp only: lone_vote_step [OF v]) simp
  moreover have "get_tx_status (snd (handle_fallback_vote extern0 (tick 0) four_nodes lone_vote (?t (Suc (Suc 0))))) [9]
      = Some (Finalized 0 30)"
    using s [of "Suc (Suc 0)"] by (simp only: lone_vote_step [OF v])
      (simp add: get_proposal_txid_def register_proposal_def finalize_from_fallback_def transition_to_finalized_def
        status_defs get_vote_status_def tick_def timevote_new_def side_weight_def lone_vote_def)
  moreover have "?t 0 = register_proposal zero_hash [9] timevote_new"
    by (simp add: register_proposal_def timevote_new_def)
  ultimately show ?thesis by (simp add: Let_def)
qed

end
