(* ===== verification/F64.thy ===== *)
theory F64
  imports Prelude
begin

text \<open>
  Rust's \<open>f64\<close> as far as the node uses it: finite values that are not negative. Every such value is
  a multiple of the smallest one, \<open>2\<close>\<open>^-1074\<close>, and the natural number \<open>n\<close> stands for the value
  \<open>n * 2\<close>\<open>^-1074\<close>. Each operation is the exact result rounded to 53 binary digits, to the nearest
  value and on a tie to the even last digit; below \<open>2\<close>\<open>^53\<close> multiples the result is a whole multiple,
  which are the subnormal values. Overflow to infinity is left out: the users prove their bounds.
\<close>

section \<open>Rounding\<close>

fun bit_length :: "nat \<Rightarrow> nat" where
  "bit_length n = (if n = 0 then 0 else Suc (bit_length (n div 2)))"

declare bit_length.simps [simp del]

text \<open>The fraction \<open>p / q\<close> rounded: \<open>s\<close> binary digits before the point are dropped.\<close>

definition f64_round :: "nat \<Rightarrow> nat \<Rightarrow> nat" where
  "f64_round p q =
     (let s = bit_length (p div q) - 53; d = q * 2 ^ s; n = p div d; r = p mod d
      in (if d < 2 * r \<or> d = 2 * r \<and> odd n then n + 1 else n) * 2 ^ s)"

text \<open>Rounding a natural number.\<close>

definition round_f64 :: "nat \<Rightarrow> nat" where "round_f64 n = f64_round n 1"

section \<open>Operations\<close>

type_synonym f64 = nat

definition f64_one :: f64 where "f64_one = 2 ^ 1074"

text \<open>A decimal literal \<open>p / q\<close>, an integer converted by \<open>as f64\<close>, and the arithmetic.\<close>

definition f64_lit :: "nat \<Rightarrow> nat \<Rightarrow> f64" where "f64_lit p q = f64_round (p * f64_one) q"
definition f64_of :: "nat \<Rightarrow> f64" where "f64_of n = f64_round (n * f64_one) 1"
definition f64_add :: "f64 \<Rightarrow> f64 \<Rightarrow> f64" where "f64_add a b = f64_round (a + b) 1"
definition f64_mul :: "f64 \<Rightarrow> f64 \<Rightarrow> f64" where "f64_mul a b = f64_round (a * b) f64_one"
definition f64_div :: "f64 \<Rightarrow> f64 \<Rightarrow> f64" where "f64_div a b = f64_round (a * f64_one) b"

text \<open>\<open>(a - b).abs()\<close> and \<open>(a - b).max(0.0)\<close>: rounding is the same on both sides of zero.\<close>

definition f64_abs_diff :: "f64 \<Rightarrow> f64 \<Rightarrow> f64" where "f64_abs_diff a b = f64_round (a - b + (b - a)) 1"
definition f64_monus :: "f64 \<Rightarrow> f64 \<Rightarrow> f64" where "f64_monus a b = f64_round (a - b) 1"

section \<open>Rounding is monotone around representable values\<close>

lemma bit_length_zero [simp]: "bit_length 0 = 0"
  by (simp add: bit_length.simps)

lemma bit_length_lower: "0 < n \<Longrightarrow> 2 ^ (bit_length n - 1) \<le> n"
proof (induction n rule: bit_length.induct)
  case (1 n)
  show ?case
  proof (cases "n div 2 = 0")
    case True
    then show ?thesis using 1(2) by (simp add: bit_length.simps)
  next
    case False
    then have "2 ^ (bit_length (n div 2) - 1) \<le> n div 2" using 1 by simp
    moreover have "bit_length n = Suc (bit_length (n div 2))" "0 < bit_length (n div 2)"
      using 1(2) False by (simp_all add: bit_length.simps)
    ultimately show ?thesis by (cases "bit_length (n div 2)") (auto simp: )
  qed
qed

lemma bit_length_upper: "n < 2 ^ k \<Longrightarrow> bit_length n \<le> k"
proof (induction k arbitrary: n)
  case (Suc k)
  then have "bit_length (n div 2) \<le> k" by simp
  then show ?case by (subst bit_length.simps) simp
qed simp

definition f64_exact :: "nat \<Rightarrow> bool" where
  "f64_exact k \<longleftrightarrow> (\<exists>m j. k = m * 2 ^ j \<and> m < 2 ^ 53)"

lemma f64_exactI [intro]: "m < 2 ^ 53 \<Longrightarrow> f64_exact (m * 2 ^ j)"
  unfolding f64_exact_def by blast

lemma f64_exact_shift: "f64_exact k \<Longrightarrow> f64_exact (k * 2 ^ i)"
  unfolding f64_exact_def by (metis mult.assoc power_add)

lemma less_bit_length: "n < 2 ^ bit_length n"
proof (induction n rule: bit_length.induct)
  case (1 n)
  then show ?case by (cases "n = 0") (auto simp: bit_length.simps [of n])
qed

text \<open>A representable value that reaches the rounded range has its dropped digits zero.\<close>

lemma exact_dvd:
  assumes "f64_exact k" "2 ^ (52 + s) \<le> k"
  shows "2 ^ s dvd k"
proof -
  obtain m j where k: "k = m * 2 ^ j" "m < 2 ^ 53" using assms(1) unfolding f64_exact_def by blast
  have "\<not> j < s"
  proof
    assume "j < s"
    then have "(2::nat) ^ (53 + j) \<le> 2 ^ (52 + s)" by (intro power_increasing) auto
    moreover have "k < 2 ^ (53 + j)" using k by (simp add: power_add)
    ultimately show False using assms(2) by linarith
  qed
  then have "(2::nat) ^ s dvd 2 ^ j" by (simp add: le_imp_power_dvd)
  then show ?thesis by (simp add: k(1))
qed

lemma f64_round_cases:
  assumes "0 < q"
  obtains s n where "f64_round p q = n * 2 ^ s" "n * 2 ^ s * q \<le> p" "p < (n + 1) * 2 ^ s * q"
      "s = 0 \<or> 2 ^ 52 \<le> n" "n < 2 ^ 53"
  | s n where "f64_round p q = (n + 1) * 2 ^ s" "n * 2 ^ s * q < p" "p < (n + 1) * 2 ^ s * q"
      "s = 0 \<or> 2 ^ 52 \<le> n" "n < 2 ^ 53"
proof -
  define s where "s = bit_length (p div q) - 53"
  define d n r where "d = q * 2 ^ s" and "n = p div d" and "r = p mod d"
  have n: "n = p div q div 2 ^ s" by (simp add: n_def d_def div_mult2_eq)
  have p: "p = n * d + r" "r < d" using assms by (simp_all only: n_def r_def div_mult_mod_eq) (simp add: d_def)
  have big: "s = 0 \<or> 2 ^ 52 \<le> n"
  proof (cases "s = 0")
    case False
    then have "bit_length (p div q) - 1 = 52 + s" by (simp add: s_def)
    moreover have "p div q \<noteq> 0" using False by (intro notI) (simp add: s_def)
    ultimately have "2 ^ (52 + s) \<le> p div q" using bit_length_lower [of "p div q"] by simp
    then have "2 ^ 52 * 2 ^ s \<le> p div q" by (simp add: power_add)
    then show ?thesis by (simp add: n less_eq_div_iff_mult_less_eq)
  qed simp
  have "p div q < 2 ^ bit_length (p div q)" by (rule less_bit_length)
  also have "\<dots> \<le> 2 ^ (53 + s)" by (intro power_increasing) (auto simp: s_def)
  finally have small: "n < 2 ^ 53" by (simp add: n div_less_iff_less_mult power_add)
  have f: "f64_round p q = (if d < 2 * r \<or> d = 2 * r \<and> odd n then n + 1 else n) * 2 ^ s"
    by (simp add: f64_round_def Let_def s_def n_def r_def d_def)
  have lo: "n * 2 ^ s * q \<le> p" and hi: "p < (n + 1) * 2 ^ s * q"
    using p by (simp_all add: d_def algebra_simps)
  show thesis
  proof (cases "d < 2 * r \<or> d = 2 * r \<and> odd n")
    case True
    then have "n * 2 ^ s * q < p" using p by (auto simp: d_def algebra_simps)
    with True f hi big small that(2) show thesis by simp
  next
    case False
    with f lo hi big small that(1) show thesis by simp
  qed
qed

lemma f64_round_le:
  assumes "0 < q" "f64_exact k" "p \<le> k * q"
  shows "f64_round p q \<le> k"
proof (cases rule: f64_round_cases [OF assms(1), of p])
  case (1 s n)
  then have "n * 2 ^ s * q \<le> k * q" using assms(3) by linarith
  then show ?thesis using assms(1) 1(1) by simp
next
  case (2 s n)
  then have "n * 2 ^ s * q < k * q" using assms(3) by linarith
  then have less: "n * 2 ^ s < k" by simp
  have "2 ^ s dvd k"
  proof (cases "s = 0")
    case False
    then have "2 ^ (52 + s) \<le> n * 2 ^ s" using 2(4) by (simp add: power_add)
    then show ?thesis using less by (intro exact_dvd [OF assms(2)]) linarith
  qed simp
  then obtain c where c: "k = c * 2 ^ s" by (metis dvd_def mult.commute)
  then have "n + 1 \<le> c" using less by simp
  then show ?thesis using 2(1) c by (metis mult_le_mono1)
qed

lemma f64_round_ge:
  assumes "0 < q" "f64_exact k" "k * q \<le> p"
  shows "k \<le> f64_round p q"
proof (cases rule: f64_round_cases [OF assms(1), of p])
  case (1 s n)
  then have "k * q < (n + 1) * 2 ^ s * q" using assms(3) by linarith
  then have less: "k < (n + 1) * 2 ^ s" using assms(1) by simp
  show ?thesis
  proof (cases "s = 0 \<or> 2 ^ (52 + s) \<le> k")
    case True
    then have "2 ^ s dvd k" using exact_dvd [OF assms(2)] by auto
    then obtain c where c: "k = c * 2 ^ s" by (metis dvd_def mult.commute)
    then have "c < n + 1" using less by (simp only: mult_less_cancel2)
    then have "c \<le> n" by simp
    then show ?thesis using 1(1) c by simp
  next
    case False
    then have "2 ^ (52 + s) \<le> n * 2 ^ s" using 1(4) by (simp add: power_add)
    moreover have "k < 2 ^ (52 + s)" using False by (simp only: de_Morgan_disj not_le)
    ultimately show ?thesis unfolding 1(1) by linarith
  qed
next
  case (2 s n)
  then have "k * q < (n + 1) * 2 ^ s * q" using assms(3) by linarith
  then show ?thesis using 2(1) by simp
qed

lemma f64_round_exact:
  assumes "0 < q"
  shows "f64_exact (f64_round p q)"
proof (cases rule: f64_round_cases [OF assms, of p])
  case (1 s n)
  show ?thesis unfolding 1(1) using 1(5) by (rule f64_exactI)
next
  case (2 s n)
  show ?thesis
  proof (cases "n + 1 = 2 ^ 53")
    case True
    then have "f64_round p q = 1 * 2 ^ (53 + s)" using 2(1) by (simp add: power_add)
    then show ?thesis using f64_exactI [of 1 "53 + s"] by simp
  next
    case False
    then have "n + 1 < 2 ^ 53" using 2(5) by linarith
    then show ?thesis unfolding 2(1) by (rule f64_exactI)
  qed
qed

section \<open>Rounding natural numbers\<close>

lemma round_f64_eq:
  "round_f64 n =
     (let s = bit_length n - 53; q = n div 2 ^ s; r = n mod 2 ^ s
      in if s = 0 then n
         else (if 2 ^ (s - 1) < r \<or> r = 2 ^ (s - 1) \<and> odd q then q + 1 else q) * 2 ^ s)"
proof (cases "bit_length n - 53")
  case 0
  then show ?thesis by (simp add: round_f64_def f64_round_def)
next
  case (Suc s)
  then have "(2 ^ (bit_length n - 53) < 2 * r) = (2 ^ s < r)" "(2 ^ (bit_length n - 53) = 2 * r) = (r = 2 ^ s)" for r :: nat
    by auto
  then show ?thesis using Suc by (simp add: round_f64_def f64_round_def Let_def)
qed

lemma round_small: "n < 2 ^ 53 \<Longrightarrow> round_f64 n = n"
  using bit_length_upper [of n 53] by (simp add: round_f64_eq Let_def)

lemma round_error:
  "2 ^ 53 * n \<le> 2 ^ 53 * round_f64 n + n" "2 ^ 53 * round_f64 n \<le> 2 ^ 53 * n + n"
proof -
  define s where "s = bit_length n - 53"
  consider "s = 0" | s' where "s = Suc s'" by (cases s) auto
  then have "2 ^ 53 * n \<le> 2 ^ 53 * round_f64 n + n \<and> 2 ^ 53 * round_f64 n \<le> 2 ^ 53 * n + n"
  proof cases
    case 1
    then show ?thesis by (simp add: round_f64_eq Let_def s_def [symmetric])
  next
    case 2
    define q r h where "q = n div 2 ^ s" and "r = n mod 2 ^ s" and "h = (2::nat) ^ s'"
    have two: "2 ^ s = 2 * h" by (simp add: h_def 2)
    have n: "n = q * (2 * h) + r" unfolding two [symmetric] q_def r_def by (rule div_mult_mod_eq [symmetric])
    have r: "r < 2 * h" unfolding two [symmetric] r_def by simp
    have "2 ^ (bit_length n - 1) \<le> n"
    proof (rule bit_length_lower)
      show "0 < n" using 2 by (cases n) (simp_all add: s_def)
    qed
    moreover have "bit_length n - 1 = 53 + s'" using 2 by (simp add: s_def)
    ultimately have big: "2 ^ 53 * h \<le> n" by (simp add: power_add h_def)
    have "round_f64 n = (if h < r \<or> r = h \<and> odd q then q + 1 else q) * (2 * h)"
      by (simp add: round_f64_eq Let_def s_def [symmetric] q_def r_def h_def 2)
    then have "round_f64 n \<le> n + h \<and> n \<le> round_f64 n + h" using n r by (auto simp: algebra_simps split: if_splits)
    then have "2 ^ 53 * round_f64 n \<le> 2 ^ 53 * n + 2 ^ 53 * h \<and> 2 ^ 53 * n \<le> 2 ^ 53 * round_f64 n + 2 ^ 53 * h" by simp
    then show ?thesis using big by linarith
  qed
  then show "2 ^ 53 * n \<le> 2 ^ 53 * round_f64 n + n" "2 ^ 53 * round_f64 n \<le> 2 ^ 53 * n + n" by simp_all
qed

end
