(* ===== verification/Fees.thy ===== *)
theory Fees
  imports Core_Types
begin

text \<open>
  The fee schedule of \<open>src/consensus.rs\<close>: the tiers governance can replace, the fee a transfer
  has to pay and the fee the wallet takes out of a gross amount. Amounts are 64-bit words; the
  product in \<open>required_fee\<close> wraps, the one in \<open>required_fee_subtract\<close> saturates.
\<close>

section \<open>Constants and the schedule\<close>

definition MAX_MEMPOOL_TRANSACTIONS :: usize where "MAX_MEMPOOL_TRANSACTIONS = 10000"
definition MAX_TX_SIZE :: nat where "MAX_TX_SIZE = 10000000"
definition MIN_TX_FEE :: u64 where "MIN_TX_FEE = 1000000"
definition DUST_THRESHOLD :: u64 where "DUST_THRESHOLD = 1000"

record FeeSchedule =
  fs_tiers :: "(u64 \<times> u64) list"
  fs_min_fee :: u64

definition default_fee_schedule :: FeeSchedule where
  "default_fee_schedule = \<lparr>fs_tiers =
     [(100 * SATOSHIS_PER_TIME, 100), (1000 * SATOSHIS_PER_TIME, 50),
      (10000 * SATOSHIS_PER_TIME, 25), (- 1, 10)], fs_min_fee = MIN_TX_FEE\<rparr>"

definition tier_rate :: "(u64 \<times> u64) list \<Rightarrow> u64 \<Rightarrow> u64" where
  "tier_rate tiers amount =
     (case List.find (\<lambda>(up_to, _). amount < up_to) tiers of Some (_, bps) \<Rightarrow> bps | None \<Rightarrow> 10)"

definition required_fee :: "FeeSchedule \<Rightarrow> u64 \<Rightarrow> u64" where
  "required_fee fs send_amount =
     max (send_amount * tier_rate (fs_tiers fs) send_amount div 10000) (fs_min_fee fs)"

definition tier_fee :: "u64 \<Rightarrow> u64 \<Rightarrow> u64 \<Rightarrow> u64" where
  "tier_fee min_fee amount rate_bps =
     max (div_ceil (saturating_mul amount rate_bps) (10000 + rate_bps)) min_fee"

fun subtract_loop :: "u64 \<Rightarrow> u64 \<Rightarrow> (u64 \<times> u64) list \<Rightarrow> u64" where
  "subtract_loop min_fee amount [] = min_fee"
| "subtract_loop min_fee amount ((tier_limit, rate_bps) # tiers) =
     (let f = tier_fee min_fee amount rate_bps
      in if saturating_sub amount f < tier_limit then f else subtract_loop min_fee amount tiers)"

definition required_fee_subtract :: "FeeSchedule \<Rightarrow> u64 \<Rightarrow> u64" where
  "required_fee_subtract fs amount = subtract_loop (fs_min_fee fs) amount (fs_tiers fs)"

section \<open>The fee of a tier\<close>

lemma unat_tier_fee:
  assumes r: "unat amount * unat rate < 2 ^ 64" "unat rate \<le> 10000"
  shows "unat (tier_fee mf amount rate)
    = max ((unat amount * unat rate + (9999 + unat rate)) div (10000 + unat rate)) (unat mf)"
proof -
  have d: "unat (10000 + rate :: u64) = 10000 + unat rate"
    using r(2) by (simp add: unat_word_ariths)
  have p: "unat (saturating_mul amount rate) = unat amount * unat rate"
    using r(1) by (simp add: saturating_mul_def unat_word_ariths)
  have "unat (div_ceil (saturating_mul amount rate) (10000 + rate))
      = (unat amount * unat rate + (9999 + unat rate)) div (10000 + unat rate)"
    using unat_div_ceil [of "10000 + rate" "saturating_mul amount rate"] by (simp add: d p)
  then show ?thesis by (simp add: tier_fee_def max_def word_le_nat_alt)
qed

lemma ceil_times: "a * r \<le> (a * r + (9999 + r)) div (10000 + r) * (10000 + r)" for a r :: nat
proof -
  have "(a * r + (9999 + r)) div (10000 + r) * (10000 + r) + (a * r + (9999 + r)) mod (10000 + r)
      = a * r + (9999 + r)" by (simp only: div_mult_mod_eq)
  moreover have "(a * r + (9999 + r)) mod (10000 + r) < 10000 + r" by simp
  ultimately show ?thesis by linarith
qed

text \<open>A tier's fee covers its rate on what is left after the fee.\<close>

lemma ceil_fee_covers:
  fixes a r f :: nat
  assumes "(a * r + (9999 + r)) div (10000 + r) \<le> f"
  shows "(a - f) * r div 10000 \<le> f"
proof -
  have "a * r \<le> (a * r + (9999 + r)) div (10000 + r) * (10000 + r)" by (rule ceil_times)
  also have "\<dots> \<le> f * (10000 + r)" using assms by simp
  finally have "a * r \<le> f * 10000 + f * r" by (simp add: algebra_simps)
  then have "(a - f) * r \<le> f * 10000" by (simp add: diff_mult_distrib)
  then have "(a - f) * r div 10000 \<le> f * 10000 div 10000" by (rule div_le_mono)
  then show ?thesis by simp
qed

lemma ceil_fee_mono:
  fixes a r s :: nat
  assumes "s \<le> r"
  shows "(a * s + (9999 + s)) div (10000 + s) \<le> (a * r + (9999 + r)) div (10000 + r)"
proof -
  define q where "q = (a * r + (9999 + r)) div (10000 + r)"
  have q: "a * r \<le> q * 10000 + q * r" using ceil_times [of a r] by (simp add: q_def algebra_simps)
  have "a * s \<le> q * 10000 + q * s"
  proof (cases "q < a")
    case True
    have "(a - q) * s \<le> (a - q) * r" using assms by simp
    also have "\<dots> \<le> q * 10000" using q by (simp add: diff_mult_distrib)
    finally show ?thesis by (simp add: diff_mult_distrib)
  next
    case False
    then have "a * s \<le> q * s" by simp
    then show ?thesis by linarith
  qed
  then have "a * s + (9999 + s) < (q + 1) * (10000 + s)" by (simp add: algebra_simps)
  then have "(a * s + (9999 + s)) div (10000 + s) < q + 1" by (rule less_mult_imp_div_less)
  then show ?thesis by (simp add: q_def)
qed

lemma tier_fee_mono:
  assumes "s \<le> r" and "unat amount * unat r < 2 ^ 64" "unat r \<le> 10000"
  shows "tier_fee mf amount s \<le> tier_fee mf amount r"
proof -
  have s: "unat s \<le> unat r" using assms(1) by (simp add: word_le_nat_alt)
  then have "unat amount * unat s \<le> unat amount * unat r" by simp
  then have "unat amount * unat s < 2 ^ 64" "unat s \<le> 10000" using assms(2,3) s by linarith+
  then show ?thesis using ceil_fee_mono [OF s, of "unat amount"] assms(2,3)
    by (simp add: word_le_nat_alt unat_tier_fee max.mono)
qed

section \<open>The wallet's fee is one the validator accepts\<close>

lemma saturating_sub_antimono: "f \<le> g \<Longrightarrow> saturating_sub a g \<le> saturating_sub a f"
  by (simp add: word_le_nat_alt)

lemma tier_covers:
  assumes "unat amount * unat rate < 2 ^ 64" "unat rate \<le> 10000"
  shows "saturating_sub amount (tier_fee mf amount rate) * rate div 10000 \<le> tier_fee mf amount rate"
proof -
  let ?f = "tier_fee mf amount rate"
  have "(unat amount - unat ?f) * unat rate \<le> unat amount * unat rate" by simp
  then have "(unat amount - unat ?f) * unat rate < 2 ^ 64" using assms(1) by linarith
  then have "unat (saturating_sub amount ?f * rate) = (unat amount - unat ?f) * unat rate"
    by (simp add: unat_word_ariths)
  moreover have "(unat amount - unat ?f) * unat rate div 10000 \<le> unat ?f"
    by (rule ceil_fee_covers) (simp only: unat_tier_fee [OF assms] max.cobounded1)
  ultimately show ?thesis by (simp add: word_le_nat_alt unat_div)
qed

lemma subtract_loop_accepted:
  assumes "sorted_wrt (\<lambda>s t. snd t \<le> snd s) tiers"
    and "\<forall>t \<in> set tiers. unat amount * unat (snd t) < 2 ^ 64 \<and> unat (snd t) \<le> 10000"
    and "\<exists>t \<in> set tiers. amount < fst t" and f: "f = subtract_loop mf amount tiers"
  shows "saturating_sub amount f * tier_rate tiers (saturating_sub amount f) div 10000 \<le> f \<and> mf \<le> f
    \<and> (\<exists>t \<in> set tiers. f = tier_fee mf amount (snd t))"
  using assms
proof (induction tiers)
  case Nil
  then show ?case by simp
next
  case (Cons t tiers)
  obtain lim r where t: "t = (lim, r)" by (cases t)
  let ?g = "tier_fee mf amount r"
  have r: "unat amount * unat r < 2 ^ 64" "unat r \<le> 10000" using Cons.prems(2) by (auto simp: t)
  show ?case
  proof (cases "saturating_sub amount ?g < lim")
    case True
    then have "f = ?g" using Cons.prems(4) by (simp add: t)
    then show ?thesis using True tier_covers [OF r] by (simp add: t tier_rate_def tier_fee_def)
  next
    case False
    then have f: "f = subtract_loop mf amount tiers" using Cons.prems(4) by (simp add: t)
    have "\<not> amount < lim" using False saturating_sub_le [of amount ?g] by auto
    then have ex: "\<exists>t \<in> set tiers. amount < fst t" using Cons.prems(3) by (simp add: t)
    have ih: "saturating_sub amount f * tier_rate tiers (saturating_sub amount f) div 10000 \<le> f
        \<and> mf \<le> f \<and> (\<exists>t \<in> set tiers. f = tier_fee mf amount (snd t))"
      using Cons.IH [OF _ _ ex f] Cons.prems(1,2) by simp
    then obtain s where s: "s \<in> set tiers" "f = tier_fee mf amount (snd s)" by blast
    then have "snd s \<le> r" using Cons.prems(1) by (simp add: t)
    then have "f \<le> ?g" using tier_fee_mono [OF _ r] s(2) by simp
    then have "saturating_sub amount ?g \<le> saturating_sub amount f" by (rule saturating_sub_antimono)
    then have "\<not> saturating_sub amount f < lim" using False by simp
    then have "tier_rate (t # tiers) (saturating_sub amount f)
        = tier_rate tiers (saturating_sub amount f)" by (simp add: t tier_rate_def)
    then show ?thesis using ih by auto
  qed
qed

text \<open>
  A wallet that takes \<open>required_fee_subtract\<close> out of a gross amount builds a transfer the
  validator accepts: for every schedule whose rates do not rise from tier to tier (at most 100%)
  and that has a tier above the amount, the fee is at least what \<open>required_fee\<close> asks for the
  rest, also when the rest falls into a cheaper or dearer tier than the gross amount, and as long
  as amount times rate fits 64 bits.
\<close>

theorem subtracted_fee_accepted:
  assumes "sorted_wrt (\<lambda>s t. snd t \<le> snd s) (fs_tiers fs)"
    and "\<forall>t \<in> set (fs_tiers fs). unat amount * unat (snd t) < 2 ^ 64 \<and> unat (snd t) \<le> 10000"
    and "\<exists>t \<in> set (fs_tiers fs). amount < fst t"
  shows "required_fee fs (saturating_sub amount (required_fee_subtract fs amount))
    \<le> required_fee_subtract fs amount"
  using subtract_loop_accepted [OF assms refl, of "fs_min_fee fs"]
  by (simp add: required_fee_def required_fee_subtract_def)

theorem subtracted_fee_accepted_witness:
  "required_fee default_fee_schedule
     (saturating_sub 10000000000 (required_fee_subtract default_fee_schedule 10000000000))
   \<le> required_fee_subtract default_fee_schedule 10000000000"
  by (rule subtracted_fee_accepted)
    (simp_all add: default_fee_schedule_def SATOSHIS_PER_TIME_def)

text \<open>
  Without a tier above the amount the wallet falls back to the minimum fee, while the validator
  asks for 0.1%: a schedule that governance cuts to its first tier makes the two disagree.
\<close>

lemma bounded_schedule_disagrees:
  "required_fee_subtract (default_fee_schedule\<lparr>fs_tiers := [(10000000000, 100)]\<rparr>) 5000000000000
   < required_fee (default_fee_schedule\<lparr>fs_tiers := [(10000000000, 100)]\<rparr>)
       (5000000000000 - required_fee_subtract
         (default_fee_schedule\<lparr>fs_tiers := [(10000000000, 100)]\<rparr>) 5000000000000)"
  by (simp add: required_fee_def required_fee_subtract_def default_fee_schedule_def tier_fee_def
      tier_rate_def saturating_mul_def saturating_sub_def div_ceil_def MIN_TX_FEE_def
      SATOSHIS_PER_TIME_def max_def)

text \<open>The product of \<open>required_fee\<close> wraps: past 2^64 / rate the fee asked for drops to the minimum.\<close>

lemma required_fee_wraps:
  "required_fee default_fee_schedule 1844674407370955200 = MIN_TX_FEE"
  by (simp add: required_fee_def default_fee_schedule_def tier_rate_def MIN_TX_FEE_def
      SATOSHIS_PER_TIME_def max_def)

end
