(* ===== verification/Tx_Validation.thy ===== *)
theory Tx_Validation
  imports Fees Chain_Ledger
begin

text \<open>
  Validation of a transaction before it enters the pool (\<open>src/consensus.rs\<close>,
  \<open>validate_transaction_with_locks\<close> and the functions it calls): the size, the masternode payload,
  the state of every input, value and fee, and the signature of every input. The spam filter that
  runs before is in the theory \<open>Ai_Filter\<close>, which shows that it passes every transaction. Error
  messages are constructors; verifying a signature also caches the public key of the address, so
  validation returns the manager it leaves.
\<close>

section \<open>Errors\<close>

datatype TxError =
    SerializeError
  | TxTooLarge nat
  | SpecialFields string
  | CollateralInput OutPoint
  | NotUnspent UTXOState
  | UtxoMissing
  | DustOutput u64
  | SendTooSmall u64
  | FeeTooLow u64
  | InsufficientFee u64 u64 u64
  | InsufficientFunds u64 u64
  | UnsignedInput nat
  | NoSuchInput
  | OutputsSerialize
  | BadScriptSigLength nat
  | BadPublicKey
  | BadScriptUtf8
  | BadAddressPrefix
  | KeyMismatch string
  | SignatureInvalid nat
  | LockFailed UtxoError
  | NoMasternodes
  | GhostTx
  | NoInputs
  | NoOutputs
  | OldVersion
  | InputSpent
  | MempoolFull usize
  | PoolFailed PoolError
  | NoCallback
  | AiRejected nat

section \<open>Inputs\<close>

text \<open>One input of step 2: an error, or whether the input is already finalized.\<close>

definition input_status :: "'s UtxoStorage \<Rightarrow> 's mgr \<Rightarrow> hash256 \<Rightarrow> OutPoint \<Rightarrow> TxError + bool" where
  "input_status ops m our_txid out =
     (if is_collateral_locked m out then Inl (CollateralInput out)
      else (case get_state m out of
          Some Unspent \<Rightarrow> Inr False
        | Some (Locked t at) \<Rightarrow>
            if t = our_txid then Inr False else Inl (NotUnspent (Locked t at))
        | Some (SpentPending t v n at) \<Rightarrow>
            if t = our_txid then Inr False else Inl (NotUnspent (SpentPending t v n at))
        | Some (SpentFinalized t at v) \<Rightarrow>
            if t = our_txid then Inr True else Inl (NotUnspent (SpentFinalized t at v))
        | Some (Archived t h at) \<Rightarrow> Inl (NotUnspent (Archived t h at))
        | None \<Rightarrow>
            if is_tombstoned m out then Inr True
            else (case get_utxo ops m out of Inl _ \<Rightarrow> Inl UtxoMissing | Inr _ \<Rightarrow> Inr False)))"

fun check_inputs ::
    "'s UtxoStorage \<Rightarrow> 's mgr \<Rightarrow> hash256 \<Rightarrow> TxInput list \<Rightarrow> bool \<Rightarrow> TxError + bool" where
  "check_inputs ops m our_txid [] fin = Inr fin"
| "check_inputs ops m our_txid (i # is) fin =
     (case input_status ops m our_txid (in_previous_output i) of
        Inl e \<Rightarrow> Inl e
      | Inr f \<Rightarrow> check_inputs ops m our_txid is (fin \<and> f))"

text \<open>Step 3: the sum of the inputs, the address of the first, and whether all share it.\<close>

fun sum_inputs ::
    "'s UtxoStorage \<Rightarrow> 's mgr \<Rightarrow> TxInput list \<Rightarrow> u64 \<times> string option \<times> bool
      \<Rightarrow> TxError + (u64 \<times> string option \<times> bool)" where
  "sum_inputs ops m [] a = Inr a"
| "sum_inputs ops m (i # is) (s, addr, single) =
     (case get_utxo ops m (in_previous_output i) of
        Inl _ \<Rightarrow> Inl UtxoMissing
      | Inr u \<Rightarrow> sum_inputs ops m is (s + u_value u,
          (case addr of None \<Rightarrow> Some (u_address u) | Some a \<Rightarrow> Some a),
          (case addr of None \<Rightarrow> single | Some a \<Rightarrow> if a \<noteq> u_address u then False else single)))"

section \<open>Value and fee\<close>

text \<open>\<open>std::str::from_utf8\<close> and \<open>String::from_utf8\<close>: is the byte string well-formed?\<close>

function utf8_valid :: "u8 list \<Rightarrow> bool" where
  "utf8_valid [] = True"
| "utf8_valid (b # bs) =
     (case continuation_bytes b bs of (True, k) \<Rightarrow> utf8_valid (drop k bs) | (False, _) \<Rightarrow> False)"
  by pat_completeness auto
termination
  by (relation "measure length") auto

definition is_self_send :: "string option \<Rightarrow> bool \<Rightarrow> Transaction \<Rightarrow> bool" where
  "is_self_send addr single tx \<longleftrightarrow> single \<and> (case addr of None \<Rightarrow> False
     | Some a \<Rightarrow> list_all (\<lambda>out. utf8_valid (out_script_pubkey out) \<and> out_script_pubkey out = as_bytes a)
                   (tx_outputs tx))"

definition output_sum :: "Transaction \<Rightarrow> u64" where
  "output_sum tx = sum_list (map out_value (tx_outputs tx))"

definition is_dust :: "TxOutput \<Rightarrow> bool" where
  "is_dust out \<longleftrightarrow> 0 < out_value out \<and> out_value out < DUST_THRESHOLD"

definition send_amount :: "Transaction \<Rightarrow> u64" where
  "send_amount tx = (case tx_outputs tx of [] \<Rightarrow> output_sum tx | out # _ \<Rightarrow> out_value out)"

definition check_amounts ::
    "'s UtxoStorage \<Rightarrow> FeeSchedule \<Rightarrow> 's mgr \<Rightarrow> Transaction \<Rightarrow> TxError + u64" where
  "check_amounts ops fs m tx =
     (case sum_inputs ops m (tx_inputs tx) (0, None, True) of
        Inl e \<Rightarrow> Inl e
      | Inr (input_sum, addr, single) \<Rightarrow>
          (case List.find is_dust (tx_outputs tx) of
             Some out \<Rightarrow> Inl (DustOutput (out_value out))
           | None \<Rightarrow>
               if output_sum tx < SATOSHIS_PER_TIME then Inl (SendTooSmall (output_sum tx))
               else let actual_fee = saturating_sub input_sum (output_sum tx)
                 in if actual_fee < MIN_TX_FEE then Inl (FeeTooLow actual_fee)
                    else if \<not> is_self_send addr single tx
                         \<and> actual_fee < required_fee fs (send_amount tx)
                    then Inl (InsufficientFee actual_fee (required_fee fs (send_amount tx)) (send_amount tx))
                    else if input_sum < output_sum tx
                    then Inl (InsufficientFunds input_sum (output_sum tx))
                    else Inr actual_fee))"

section \<open>Signatures\<close>

definition CHAIN_ID :: u32 where "CHAIN_ID = 1"

definition signing_tx :: "Transaction \<Rightarrow> Transaction" where
  "signing_tx tx = tx\<lparr>tx_inputs := map (\<lambda>i. i\<lparr>in_script_sig := []\<rparr>) (tx_inputs tx),
     tx_encrypted_memo := None\<rparr>"

definition create_signature_message :: "extern \<Rightarrow> Transaction \<Rightarrow> nat \<Rightarrow> TxError + u8 list" where
  "create_signature_message X tx idx =
     (case outputs_bincode X (tx_outputs tx) of
        None \<Rightarrow> Inl OutputsSerialize
      | Some bytes \<Rightarrow> Inr ((if 2 \<le> tx_version tx then le_bytes 4 CHAIN_ID else [])
          @ txid X (signing_tx tx) @ le_bytes 4 (of_nat idx :: u32) @ sha256 X bytes))"

text \<open>The blocking task: the key of the script, its address and the signature.\<close>

definition check_script :: "extern \<Rightarrow> nat \<Rightarrow> u8 list \<Rightarrow> u8 list \<Rightarrow> u8 list \<Rightarrow> TxError + unit" where
  "check_script X idx addr_bytes script_sig message =
     (if length script_sig \<noteq> 96 then Inl (BadScriptSigLength (length script_sig))
      else let pk = take 32 script_sig; sig = drop 32 script_sig
        in if \<not> ed_key_ok X pk then Inl BadPublicKey
           else if \<not> utf8_valid addr_bytes then Inl BadScriptUtf8
           else (case (if take 5 addr_bytes = as_bytes ''TIME0'' then Some Testnet
                       else if take 5 addr_bytes = as_bytes ''TIME1'' then Some Mainnet else None) of
               None \<Rightarrow> Inl BadAddressPrefix
             | Some net \<Rightarrow>
                 let derived = as_string X (from_public_key X pk net)
                 in if as_bytes derived \<noteq> addr_bytes then Inl (KeyMismatch derived)
                    else if ed_verify_strict X pk message sig then Inr ()
                    else Inl (SignatureInvalid idx)))"

definition verify_input_signature ::
    "extern \<Rightarrow> 's UtxoStorage \<Rightarrow> Transaction \<Rightarrow> nat \<Rightarrow> 's mgr \<Rightarrow> (TxError + unit) \<times> 's mgr" where
  "verify_input_signature X ops tx idx m =
     (if length (tx_inputs tx) \<le> idx then (Inl NoSuchInput, m)
      else let i = tx_inputs tx ! idx
        in (case get_utxo ops m (in_previous_output i) of
              Inl _ \<Rightarrow> (Inl UtxoMissing, m)
            | Inr u \<Rightarrow>
                (case create_signature_message X tx idx of
                   Inl e \<Rightarrow> (Inl e, m)
                 | Inr msg \<Rightarrow>
                     (case check_script X idx (u_script_pubkey u) (in_script_sig i) msg of
                        Inl e \<Rightarrow> (Inl e, m)
                      | Inr _ \<Rightarrow>
                          (Inr (), if 32 \<le> length (in_script_sig i)
                            then register_pubkey (u_address u) (take 32 (in_script_sig i)) m
                            else m)))))"

fun verify_inputs ::
    "extern \<Rightarrow> 's UtxoStorage \<Rightarrow> Transaction \<Rightarrow> nat \<Rightarrow> TxInput list \<Rightarrow> 's mgr
      \<Rightarrow> (TxError + unit) \<times> 's mgr" where
  "verify_inputs X ops tx idx [] m = (Inr (), m)"
| "verify_inputs X ops tx idx (i # is) m =
     (if in_script_sig i = [] then (Inl (UnsignedInput idx), m)
      else (case verify_input_signature X ops tx idx m of
          (Inl e, m') \<Rightarrow> (Inl e, m')
        | (Inr _, m') \<Rightarrow> verify_inputs X ops tx (Suc idx) is m'))"

section \<open>Validation\<close>

definition special_fields :: "Transaction \<Rightarrow> TxError + unit" where
  "special_fields tx = (case tx_special_data tx of
     None \<Rightarrow> Inr ()
   | Some sd \<Rightarrow> (case validate_fields sd of Inl r \<Rightarrow> Inl (SpecialFields r) | Inr _ \<Rightarrow> Inr ()))"

definition validate_transaction_with_locks ::
    "extern \<Rightarrow> 's UtxoStorage \<Rightarrow> FeeSchedule \<Rightarrow> Transaction \<Rightarrow> hash256 \<Rightarrow> 's mgr
      \<Rightarrow> (TxError + u64) \<times> 's mgr" where
  "validate_transaction_with_locks X ops fs tx our_txid m =
     (case tx_bincode X tx of
        None \<Rightarrow> (Inl SerializeError, m)
      | Some bytes \<Rightarrow>
          if MAX_TX_SIZE < length bytes then (Inl (TxTooLarge (length bytes)), m)
          else (case special_fields tx of
              Inl e \<Rightarrow> (Inl e, m)
            | Inr _ \<Rightarrow>
                if is_masternode_reg tx \<or> is_masternode_dereg tx then (Inr 0, m)
                else (case check_inputs ops m our_txid (tx_inputs tx) (tx_inputs tx \<noteq> []) of
                    Inl e \<Rightarrow> (Inl e, m)
                  | Inr True \<Rightarrow> (Inr 0, m)
                  | Inr False \<Rightarrow>
                      (case check_amounts ops fs m tx of
                         Inl e \<Rightarrow> (Inl e, m)
                       | Inr fee \<Rightarrow>
                           (case verify_inputs X ops tx 0 (tx_inputs tx) m of
                              (Inl e, m') \<Rightarrow> (Inl e, m')
                            | (Inr _, m') \<Rightarrow> (Inr fee, m'))))))"

definition validate_transaction ::
    "extern \<Rightarrow> 's UtxoStorage \<Rightarrow> FeeSchedule \<Rightarrow> Transaction \<Rightarrow> 's mgr \<Rightarrow> (TxError + unit) \<times> 's mgr" where
  "validate_transaction X ops fs tx m =
     (case validate_transaction_with_locks X ops fs tx (txid X tx) m of
        (Inl e, m') \<Rightarrow> (Inl e, m') | (Inr _, m') \<Rightarrow> (Inr (), m'))"

end
