(* ===== verification/Ai_Filter.thy ===== *)
theory Ai_Filter
  imports F64 Tx_Validation
begin

text \<open>
  The spam filter in front of validation (\<open>src/ai/transaction_validator.rs\<close>), which \<open>main\<close> enables.
  It learns a pattern for each output address and rejects a transaction whose share of positive
  indicators reaches the threshold. The counters of indicators and checks are unbounded here; they
  are at most two for each output and two more.
\<close>

section \<open>State\<close>

record TransactionPattern =
  tp_address :: string
  tp_avg_value :: f64
  tp_avg_fee :: f64
  tp_tx_count :: u64
  tp_last_seen :: u64
  tp_spam_score :: f64

record ValidationMetrics =
  vm_total_validated :: u64
  vm_spam_detected :: u64
  vm_anomalies_detected :: u64
  vm_false_positives :: u64

record AITransactionValidator =
  ai_patterns :: "(string, TransactionPattern) dmap"
  ai_metrics :: ValidationMetrics
  ai_spam_threshold :: f64

definition ai_validator_new :: AITransactionValidator where
  "ai_validator_new = \<lparr>ai_patterns = [],
     ai_metrics = \<lparr>vm_total_validated = 0, vm_spam_detected = 0, vm_anomalies_detected = 0, vm_false_positives = 0\<rparr>,
     ai_spam_threshold = f64_lit 8 10\<rparr>"

section \<open>Learning from an output\<close>

definition running_average :: "f64 \<Rightarrow> u64 \<Rightarrow> f64" where
  "running_average avg total_value =
     (let alpha = f64_lit 3 10
      in f64_add (f64_mul (f64_monus f64_one alpha) avg) (f64_mul alpha (f64_of (unat total_value))))"

definition value_deviation :: "f64 \<Rightarrow> u64 \<Rightarrow> f64" where
  "value_deviation avg total_value = f64_div (f64_abs_diff (f64_of (unat total_value)) avg) (max avg f64_one)"

definition raise_score :: "f64 \<Rightarrow> TransactionPattern \<Rightarrow> TransactionPattern" where
  "raise_score x p = p\<lparr>tp_spam_score := min (f64_add (tp_spam_score p) x) f64_one\<rparr>"

definition seen_pattern :: "string \<Rightarrow> u64 \<Rightarrow> u64 \<Rightarrow> (string, TransactionPattern) dmap \<Rightarrow> TransactionPattern" where
  "seen_pattern addr now total_value pats =
     (let p = (case dget pats addr of Some p \<Rightarrow> p
         | None \<Rightarrow> \<lparr>tp_address = addr, tp_avg_value = 0, tp_avg_fee = 0, tp_tx_count = 0, tp_last_seen = now,
             tp_spam_score = 0\<rparr>)
      in p\<lparr>tp_avg_value := running_average (tp_avg_value p) total_value, tp_tx_count := tp_tx_count p + 1,
           tp_last_seen := now\<rparr>)"

definition learn_output ::
    "extern \<Rightarrow> u64 \<Rightarrow> u64 \<Rightarrow> TxOutput \<Rightarrow> nat \<times> nat \<times> (string, TransactionPattern) dmap
      \<Rightarrow> nat \<times> nat \<times> (string, TransactionPattern) dmap" where
  "learn_output X now total_value out a = (case a of (indicators, checks, pats) \<Rightarrow>
     let addr = hex_encode X (out_script_pubkey out);
         p = seen_pattern addr now total_value pats;
         anomalous = (5 < tp_tx_count p \<and> f64_of 10 < value_deviation (tp_avg_value p) total_value);
         p = (if anomalous then raise_score (f64_lit 2 10) p else p);
         rapid = (10 < tp_tx_count p \<and> saturating_sub now (tp_last_seen p) < 10);
         p = (if rapid then raise_score (f64_lit 3 10) p else p);
         p = (if 0 < tp_spam_score p then p\<lparr>tp_spam_score := f64_monus (tp_spam_score p) (f64_lit 1 100)\<rparr> else p)
     in (indicators + of_bool anomalous + of_bool rapid, checks + 2, dput addr p pats))"

section \<open>The filter\<close>

definition validate_with_ai ::
    "extern \<Rightarrow> u64 \<Rightarrow> Transaction \<Rightarrow> AITransactionValidator \<Rightarrow> (f64 + unit) \<times> AITransactionValidator" where
  "validate_with_ai X now tx v =
     (let m = (ai_metrics v)\<lparr>vm_total_validated := vm_total_validated (ai_metrics v) + 1\<rparr>;
          start = of_bool (list_ex (\<lambda>out. out_value out < 1000) (tx_outputs tx))
            + of_bool (100 < length (tx_outputs tx));
          (indicators, checks, pats) =
            fold (learn_output X now (output_sum tx)) (tx_outputs tx) (start, 2, ai_patterns v);
          spam_score = (if 0 < checks then f64_div (f64_of indicators) (f64_of checks) else 0);
          v = v\<lparr>ai_patterns := pats\<rparr>
      in if ai_spam_threshold v \<le> spam_score
         then (Inl spam_score, v\<lparr>ai_metrics := m\<lparr>vm_spam_detected := vm_spam_detected m + 1\<rparr>\<rparr>)
         else (Inr (), v\<lparr>ai_metrics := if f64_lit 5 10 < spam_score
             then m\<lparr>vm_anomalies_detected := vm_anomalies_detected m + 1\<rparr> else m\<rparr>))"

text \<open>Validation with its step 0, in an engine whose filter may be enabled.\<close>

definition filtered_validation ::
    "extern \<Rightarrow> 's UtxoStorage \<Rightarrow> FeeSchedule \<Rightarrow> u64 \<Rightarrow> Transaction \<Rightarrow> hash256
      \<Rightarrow> 's mgr \<times> AITransactionValidator option \<Rightarrow> (TxError + u64) \<times> 's mgr \<times> AITransactionValidator option" where
  "filtered_validation X ops fs now tx our_txid s = (case s of (m, ai) \<Rightarrow>
     (case ai of
        None \<Rightarrow> (case validate_transaction_with_locks X ops fs tx our_txid m of (r, m') \<Rightarrow> (r, m', None))
      | Some v \<Rightarrow> (case validate_with_ai X now tx v of
            (Inl score, v') \<Rightarrow> (Inl (AiRejected score), m, Some v')
          | (Inr _, v') \<Rightarrow>
              (case validate_transaction_with_locks X ops fs tx our_txid m of (r, m') \<Rightarrow> (r, m', Some v')))))"

text \<open>The filter's state after any sequence of validations.\<close>

definition ai_after :: "extern \<Rightarrow> (u64 \<times> Transaction) list \<Rightarrow> AITransactionValidator" where
  "ai_after X calls = fold (\<lambda>(now, tx) v. snd (validate_with_ai X now tx v)) calls ai_validator_new"

section \<open>The average follows the value\<close>

lemma f64_one_pos [simp]: "0 < f64_one"
  by (simp add: f64_one_def)

lemma exact_one: "f64_exact (m * f64_one)" if "m < 2 ^ 53"
  unfolding f64_one_def using that by (rule f64_exactI)

lemma exact_small: "f64_exact m" if "m < 2 ^ 53"
  using f64_exactI [OF that, of 0] by simp

lemma f64_of_small: "f64_of n = n * f64_one" if "n < 2 ^ 53"
  using f64_round_le [of 1 "n * f64_one" "n * f64_one"] f64_round_ge [of 1 "n * f64_one" "n * f64_one"]
    exact_one [OF that] by (simp add: f64_of_def)

text \<open>The new average is at least a quarter of the value, so the value is at most four times as large.\<close>

lemma alpha_ge: "f64_one \<le> 4 * f64_lit 3 10"
proof -
  have "(2::nat) ^ 1072 \<le> f64_lit 3 10" unfolding f64_lit_def
    using f64_exactI [of 1 1072] by (intro f64_round_ge) (simp_all add: f64_one_def)
  then have "4 * (2::nat) ^ 1072 \<le> 4 * f64_lit 3 10" by simp
  then show ?thesis by (simp add: f64_one_def)
qed

lemma quarter_exact:
  obtains k where "f64_of n = 4 * k" "f64_exact k"
proof (cases "n = 0")
  case True
  then show thesis using that [of 0] exact_small [of 0] by (simp add: f64_of_small)
next
  case False
  have "f64_exact (f64_of n)" by (simp add: f64_of_def f64_round_exact)
  then obtain m j where mj: "f64_of n = m * 2 ^ j" "m < 2 ^ 53" unfolding f64_exact_def by blast
  have big: "1 * 2 ^ 1074 \<le> f64_of n" unfolding f64_of_def f64_one_def
    using False by (intro f64_round_ge f64_exactI) simp_all
  have "\<not> j < 2"
  proof
    assume "j < 2"
    then have "(2::nat) ^ j \<le> 2" by (auto simp: less_2_cases_iff)
    then have "f64_of n \<le> m * 2" unfolding mj(1) by (rule mult_le_mono2)
    then show False using big mj(2) by simp
  qed
  then obtain i where "j = 2 + i" by (metis not_less le_iff_add)
  then have "f64_of n = 4 * (m * 2 ^ i)" by (simp add: mj(1) power_add)
  then show thesis using f64_exactI [OF mj(2)] by (rule that)
qed

lemma average_ge: "f64_of (unat t) \<le> 4 * running_average avg t"
proof -
  let ?t = "f64_of (unat t)" and ?a = "f64_lit 3 10"
  obtain k where k: "?t = 4 * k" "f64_exact k" by (rule quarter_exact)
  have "k * f64_one \<le> ?a * ?t"
    using alpha_ge mult_le_mono2 [OF alpha_ge, of k] by (simp add: k(1) algebra_simps)
  then have "k \<le> f64_mul ?a ?t" unfolding f64_mul_def by (intro f64_round_ge k) simp_all
  then have "k \<le> running_average avg t"
    unfolding running_average_def Let_def f64_add_def by (intro f64_round_ge k(2)) simp_all
  then show ?thesis by (simp add: k(1))
qed

lemma running_average_exact: "f64_exact (running_average avg t)"
  by (simp add: running_average_def Let_def f64_add_def f64_round_exact)

lemma deviation_le: "value_deviation (running_average avg t) t \<le> f64_of 10"
proof -
  let ?t = "f64_of (unat t)" and ?A = "running_average avg t"
  have 4: "f64_exact (4 * ?A)" using f64_exact_shift [OF running_average_exact, of avg t 2] by (simp add: mult.commute)
  have "?t - ?A + (?A - ?t) \<le> 4 * ?A" using average_ge [of t avg] by linarith
  then have "f64_abs_diff ?t ?A \<le> 4 * ?A" unfolding f64_abs_diff_def using 4 by (intro f64_round_le) simp_all
  also have "\<dots> \<le> 4 * max ?A f64_one" by simp
  finally have "f64_abs_diff ?t ?A * f64_one \<le> 4 * f64_one * max ?A f64_one"
    using mult_le_mono1 [of _ _ f64_one] by (simp add: algebra_simps)
  then have "value_deviation ?A t \<le> 4 * f64_one"
    unfolding value_deviation_def f64_div_def using exact_one [of 4] by (intro f64_round_le) (simp_all add: less_max_iff_disj)
  then show ?thesis by (simp add: f64_of_small)
qed

section \<open>The filter never rejects\<close>

lemma learn_output_counts:
  "fst (learn_output X now tot out a) \<le> fst a + 1" "fst (snd (learn_output X now tot out a)) = fst (snd a) + 2"
proof -
  obtain i c pats where a: "a = (i, c, pats)" by (rule prod_cases3)
  have "\<not> f64_of 10 < value_deviation (tp_avg_value (seen_pattern addr now tot pats)) tot" for addr
    by (simp add: seen_pattern_def Let_def not_less deviation_le)
  then show "fst (learn_output X now tot out a) \<le> fst a + 1" by (simp add: a learn_output_def Let_def)
  show "fst (snd (learn_output X now tot out a)) = fst (snd a) + 2" by (simp add: a learn_output_def Let_def)
qed

lemma learn_outputs_counts:
  "fst (fold (learn_output X now tot) outs a) \<le> fst a + length outs"
  "fst (snd (fold (learn_output X now tot) outs a)) = fst (snd a) + 2 * length outs"
proof (induction outs arbitrary: a)
  case (Cons out outs)
  case 1
  show ?case using Cons(1) [of "learn_output X now tot out a"] learn_output_counts(1) [of X now tot out a] by simp
  case 2
  show ?case using Cons(2) [of "learn_output X now tot out a"] by (simp add: learn_output_counts(2))
qed simp_all

lemma threshold_ge: "51 * 2 ^ 1068 \<le> f64_lit 8 10"
  unfolding f64_lit_def f64_one_def by (intro f64_round_ge f64_exactI) simp_all

text \<open>Every share of at most three quarters is below the threshold.\<close>

lemma score_less:
  assumes "4 * i \<le> 3 * c" "0 < c"
  shows "f64_div (f64_of i) (f64_of c) < f64_lit 8 10"
proof -
  have of: "f64_of n = round_f64 (n * f64_one)" for n by (simp add: f64_of_def round_f64_def)
  have "4 * (i * f64_one) \<le> 3 * (c * f64_one)" using assms(1) mult_le_mono1 [of "4 * i" "3 * c" f64_one] by simp
  moreover have "32 * x \<le> 25 * y"
    if "2 ^ 53 * x \<le> 2 ^ 53 * a + a" "2 ^ 53 * b \<le> 2 ^ 53 * y + b" "4 * a \<le> 3 * b" for x y a b :: nat
    using that by simp
  ultimately have "32 * f64_of i \<le> 25 * f64_of c" unfolding of using round_error by blast
  then have "f64_of i * f64_one \<le> 25 * 2 ^ 1069 * f64_of c" using mult_le_mono1 [of _ _ "2 ^ 1069"] by (simp add: f64_one_def)
  moreover have "0 < f64_of c"
    using f64_round_ge [of 1 "1 * f64_one" "c * f64_one"] exact_one [of 1] assms(2) less_le_trans [OF f64_one_pos]
    by (simp add: f64_of_def)
  ultimately have "f64_div (f64_of i) (f64_of c) \<le> 25 * 2 ^ 1069"
    unfolding f64_div_def by (intro f64_round_le f64_exactI) simp_all
  also have "\<dots> < 51 * 2 ^ 1068" by simp
  finally show ?thesis using threshold_ge by linarith
qed

lemma validate_with_ai_passes:
  assumes "ai_spam_threshold v = f64_lit 8 10"
  shows "fst (validate_with_ai X now tx v) = Inr ()" "ai_spam_threshold (snd (validate_with_ai X now tx v)) = f64_lit 8 10"
    "vm_spam_detected (ai_metrics (snd (validate_with_ai X now tx v))) = vm_spam_detected (ai_metrics v)"
proof -
  let ?n = "length (tx_outputs tx)"
  define start :: nat where "start = of_bool (list_ex (\<lambda>out. out_value out < 1000) (tx_outputs tx)) + of_bool (100 < ?n)"
  obtain i c pats where f: "fold (learn_output X now (output_sum tx)) (tx_outputs tx) (start, 2, ai_patterns v) = (i, c, pats)"
    by (rule prod_cases3)
  have "i \<le> start + ?n" "c = 2 + 2 * ?n"
    using learn_outputs_counts [of X now "output_sum tx" "tx_outputs tx" "(start, 2, ai_patterns v)"] by (simp_all add: f)
  moreover have "start \<le> 1 \<or> start \<le> 2 \<and> 100 < ?n" by (auto simp: start_def)
  ultimately have "4 * i \<le> 3 * c" "0 < c" by auto
  then have "f64_div (f64_of i) (f64_of c) < f64_lit 8 10" by (rule score_less)
  then have "\<not> f64_lit 8 10 \<le> f64_div (f64_of i) (f64_of c)" "0 < c" using \<open>0 < c\<close> by simp_all
  then show "fst (validate_with_ai X now tx v) = Inr ()" "ai_spam_threshold (snd (validate_with_ai X now tx v)) = f64_lit 8 10"
    "vm_spam_detected (ai_metrics (snd (validate_with_ai X now tx v))) = vm_spam_detected (ai_metrics v)"
    using assms f by (simp_all add: validate_with_ai_def Let_def start_def)
qed

lemma ai_after_threshold:
  "ai_spam_threshold (ai_after X calls) = f64_lit 8 10" "vm_spam_detected (ai_metrics (ai_after X calls)) = 0"
proof -
  let ?P = "\<lambda>v. ai_spam_threshold v = f64_lit 8 10 \<and> vm_spam_detected (ai_metrics v) = 0"
  have "?P (ai_after X calls)" unfolding ai_after_def
  proof (rule fold_invariant [where Q = "\<lambda>_. True" and P = ?P])
    show "?P ai_validator_new" by (simp add: ai_validator_new_def)
    show "?P ((\<lambda>(now, tx) v. snd (validate_with_ai X now tx v)) call v)" if "?P v" for call v
      using that by (simp only: case_prod_beta validate_with_ai_passes simp_thms)
  qed simp
  then show "ai_spam_threshold (ai_after X calls) = f64_lit 8 10" "vm_spam_detected (ai_metrics (ai_after X calls)) = 0"
    by simp_all
qed

text \<open>
  C18. The spam filter in front of validation is transparent: after any sequence of validations it
  has counted no spam, and validating a transaction behind it gives the result and the manager that
  validation gives alone. No combination of indicators reaches the threshold, in floating point.
\<close>

theorem ai_filter_transparent:
  "vm_spam_detected (ai_metrics (ai_after X calls)) = 0
   \<and> filtered_validation X ops fs now tx our_txid (m, Some (ai_after X calls)) =
      (fst (validate_transaction_with_locks X ops fs tx our_txid m),
       snd (validate_transaction_with_locks X ops fs tx our_txid m), Some (ai_after X (calls @ [(now, tx)])))"
proof -
  have "fst (validate_with_ai X now tx (ai_after X calls)) = Inr ()"
    by (rule validate_with_ai_passes) (rule ai_after_threshold)
  then obtain v where v: "validate_with_ai X now tx (ai_after X calls) = (Inr (), v)" by (metis prod.collapse)
  then have "ai_after X (calls @ [(now, tx)]) = v" by (simp add: ai_after_def)
  then show ?thesis by (simp add: filtered_validation_def v ai_after_threshold split: prod.split)
qed

section \<open>Averages stay in range\<close>

text \<open>
  No average exceeds \<open>2\<close>\<open>^65\<close>, far below the largest \<open>f64\<close>, and scores are at most 1: leaving out
  overflow loses nothing.
\<close>

definition pattern_ok :: "TransactionPattern \<Rightarrow> bool" where
  "pattern_ok p \<longleftrightarrow> tp_avg_value p \<le> 2 ^ 65 * f64_one \<and> tp_spam_score p \<le> f64_one"

lemma alpha_le: "8 * f64_lit 3 10 \<le> 3 * f64_one"
proof -
  have "f64_lit 3 10 \<le> 3 * 2 ^ 1071" unfolding f64_lit_def f64_one_def by (intro f64_round_le f64_exactI) simp_all
  then have "8 * f64_lit 3 10 \<le> 8 * (3 * 2 ^ 1071)" by (rule mult_le_mono2)
  then show ?thesis by (simp add: f64_one_def)
qed

lemma average_le:
  assumes "avg \<le> 2 ^ 65 * f64_one"
  shows "running_average avg t \<le> 2 ^ 65 * f64_one"
proof -
  let ?a = "f64_lit 3 10" and ?t = "f64_of (unat t)"
  let ?c = "f64_monus f64_one ?a"
  have ex: "f64_exact (m * 2 ^ j * f64_one)" if "m < 2 ^ 53" for m j
    using f64_exactI [OF that, of "j + 1074"] by (simp add: f64_one_def power_add mult.assoc)
  have "f64_one - ?a \<le> 3 * 2 ^ 1072" using alpha_ge by (simp add: f64_one_def)
  then have "?c \<le> 3 * 2 ^ 1072" unfolding f64_monus_def by (intro f64_round_le f64_exactI) simp_all
  then have "?c * avg \<le> 3 * 2 ^ 1072 * (2 ^ 65 * f64_one)" using assms by (rule mult_le_mono)
  then have c: "f64_mul ?c avg \<le> 3 * 2 ^ 63 * f64_one"
    unfolding f64_mul_def using ex [of 3 63] by (intro f64_round_le) (simp_all add: f64_one_def)
  have "unat t < 2 ^ 64" using unsigned_less [of t] by simp
  then have "unat t \<le> 2 ^ 64" by simp
  then have "?t \<le> 1 * 2 ^ 64 * f64_one" unfolding f64_of_def using ex [of 1 64] by (intro f64_round_le) simp_all
  with alpha_le have "8 * ?a * ?t \<le> 3 * f64_one * (1 * 2 ^ 64 * f64_one)" by (rule mult_le_mono)
  then have "f64_mul ?a ?t \<le> 3 * 2 ^ 61 * f64_one"
    unfolding f64_mul_def using ex [of 3 61] by (intro f64_round_le) (simp_all add: ac_simps)
  with c have "f64_mul ?c avg + f64_mul ?a ?t \<le> 1 * 2 ^ 65 * f64_one" by simp
  then have "running_average avg t \<le> 1 * 2 ^ 65 * f64_one"
    unfolding running_average_def Let_def f64_add_def using ex [of 1 65] by (intro f64_round_le) simp_all
  then show ?thesis by simp
qed

lemma monus_one_le: "x \<le> f64_one \<Longrightarrow> f64_monus x y \<le> f64_one"
  unfolding f64_monus_def using exact_one [of 1] by (intro f64_round_le) simp_all

definition patterns_ok :: "(string, TransactionPattern) dmap \<Rightarrow> bool" where
  "patterns_ok pats \<longleftrightarrow> (\<forall>addr p. dget pats addr = Some p \<longrightarrow> pattern_ok p)"

lemma seen_pattern_ok: "patterns_ok pats \<Longrightarrow> pattern_ok (seen_pattern addr now tot pats)"
  by (auto simp: patterns_ok_def seen_pattern_def Let_def pattern_ok_def split: option.split intro!: average_le [simplified])

lemma raise_score_ok: "pattern_ok p \<Longrightarrow> pattern_ok (raise_score x p)"
  by (simp add: pattern_ok_def raise_score_def)

lemma learn_output_ok:
  assumes "patterns_ok (snd (snd a))"
  shows "patterns_ok (snd (snd (learn_output X now tot out a)))"
proof -
  obtain i c pats where a: "a = (i, c, pats)" by (rule prod_cases3)
  have put: "patterns_ok (dput addr p pats)" if "pattern_ok p" for addr p
    using that assms by (simp add: a patterns_ok_def)
  have decay: "pattern_ok (if 0 < tp_spam_score p then p\<lparr>tp_spam_score := f64_monus (tp_spam_score p) y\<rparr> else p)"
    if "pattern_ok p" for p y using that by (simp add: pattern_ok_def monus_one_le)
  have raise: "pattern_ok (if b then raise_score x p else p)" if "pattern_ok p" for b x p
    using that by (simp add: raise_score_ok)
  show ?thesis unfolding a learn_output_def Let_def prod.case snd_conv
    by (intro put decay raise seen_pattern_ok) (use assms in \<open>simp add: a\<close>)
qed

lemma patterns_in_range: "patterns_ok (ai_patterns (ai_after X calls))"
proof -
  have learn: "patterns_ok (snd (snd (fold (learn_output X now tot) outs a)))" if "patterns_ok (snd (snd a))" for now tot outs a
    using that by (induction outs arbitrary: a) (simp_all add: learn_output_ok)
  have "patterns_ok (ai_patterns (snd (validate_with_ai X now tx v)))" if "patterns_ok (ai_patterns v)" for now tx v
  proof -
    have "ai_patterns (snd (validate_with_ai X now tx v)) = snd (snd (fold (learn_output X now (output_sum tx)) (tx_outputs tx)
        (of_bool (list_ex (\<lambda>out. out_value out < 1000) (tx_outputs tx)) + of_bool (100 < length (tx_outputs tx)), 2, ai_patterns v)))"
      by (simp add: validate_with_ai_def Let_def split: prod.split)
    then show ?thesis using learn that by simp
  qed
  then have "patterns_ok (ai_patterns v) \<longrightarrow>
      patterns_ok (ai_patterns (fold (\<lambda>(now, tx) v. snd (validate_with_ai X now tx v)) calls v))" for v
    by (induction calls arbitrary: v) auto
  moreover have "patterns_ok (ai_patterns ai_validator_new)" by (simp add: ai_validator_new_def patterns_ok_def)
  ultimately show ?thesis unfolding ai_after_def by blast
qed

end
