(* ===== verification/Tx_Engine.thy ===== *)
theory Tx_Engine
  imports Tx_Validation Fallback
begin

text \<open>
  The life of a transaction in \<open>ConsensusEngine\<close> (\<open>src/consensus.rs\<close>): locking and submitting,
  conflicts, immediate finalization of an uncontested transaction, voting on a contested one, and
  the periodic recovery of the pool. The engine is the manager of outputs, the pool, the voting
  state, the fee schedule, the stored proofs, whether the network callback is set, and the messages
  broadcast so far. \<open>active\<close> is the list of active masternodes the registry returns and \<open>ck\<close> the
  reading of the clocks of a call. Reasons of rejections are fixed texts where the source formats
  an error into them; notifications of local subscribers and metrics are left out.
\<close>

section \<open>State\<close>

datatype engine_msg =
    MsgUtxoState OutPoint UTXOState
  | MsgTransaction Transaction
  | MsgFinalized hash256 Transaction
  | MsgVoteRequest hash256 hash256 u64 Transaction
  | MsgTimeProof TimeProof
  | MsgVoteResponse TimeVote

record 's Engine =
  en_mgr :: "'s mgr"
  en_pool :: TransactionPool
  en_tv :: TimeVoteConsensus
  en_fees :: FeeSchedule
  en_proofs :: FinalityProofManager
  en_callback :: bool
  en_outbox :: "engine_msg list"

definition engine_new :: "'s mgr \<Rightarrow> mempool_tree \<Rightarrow> 's Engine" where
  "engine_new m d = \<lparr>en_mgr = m, en_pool = pool_new d, en_tv = timevote_new, en_fees = default_fee_schedule,
     en_proofs = finality_manager_new 1, en_callback = False, en_outbox = []\<rparr>"

definition apply_fee_schedule :: "FeeSchedule \<Rightarrow> 's Engine \<Rightarrow> 's Engine" where
  "apply_fee_schedule fs e = e\<lparr>en_fees := fs\<rparr>"

definition set_broadcast_callback :: "'s Engine \<Rightarrow> 's Engine" where
  "set_broadcast_callback e = e\<lparr>en_callback := True\<rparr>"

definition broadcast :: "engine_msg \<Rightarrow> 's Engine \<Rightarrow> 's Engine" where
  "broadcast msg e = (if en_callback e then e\<lparr>en_outbox := en_outbox e @ [msg]\<rparr> else e)"

definition upd_mgr :: "('s mgr \<Rightarrow> 's mgr) \<Rightarrow> 's Engine \<Rightarrow> 's Engine" where
  "upd_mgr f e = e\<lparr>en_mgr := f (en_mgr e)\<rparr>"

definition upd_pool :: "(TransactionPool \<Rightarrow> TransactionPool) \<Rightarrow> 's Engine \<Rightarrow> 's Engine" where
  "upd_pool f e = e\<lparr>en_pool := f (en_pool e)\<rparr>"

definition upd_tv :: "(TimeVoteConsensus \<Rightarrow> TimeVoteConsensus) \<Rightarrow> 's Engine \<Rightarrow> 's Engine" where
  "upd_tv f e = e\<lparr>en_tv := f (en_tv e)\<rparr>"

section \<open>Conflicts\<close>

definition owned_by_other :: "UTXOState option \<Rightarrow> hash256 \<Rightarrow> bool" where
  "owned_by_other st tid = (case st of
     Some (Locked t _) \<Rightarrow> t \<noteq> tid
   | Some (SpentPending t _ _ _) \<Rightarrow> t \<noteq> tid
   | Some (SpentFinalized t _ _) \<Rightarrow> t \<noteq> tid
   | Some (Archived t _ _) \<Rightarrow> t \<noteq> tid
   | _ \<Rightarrow> False)"

definition has_double_spend_conflict :: "'s Engine \<Rightarrow> TxInput list \<Rightarrow> hash256 \<Rightarrow> bool" where
  "has_double_spend_conflict e ins tid \<longleftrightarrow> has_conflicting_transaction (en_pool e) ins tid
     \<or> list_ex (\<lambda>i. owned_by_other (get_state (en_mgr e) (in_previous_output i)) tid) ins"

definition spent_by_other :: "'s mgr \<Rightarrow> hash256 \<Rightarrow> OutPoint \<Rightarrow> bool" where
  "spent_by_other m tid out \<longleftrightarrow>
     (case get_state m out of
        Some (SpentFinalized t _ _) \<Rightarrow> t \<noteq> tid
      | Some (SpentPending t _ _ _) \<Rightarrow> t \<noteq> tid
      | Some (Archived t _ _) \<Rightarrow> t \<noteq> tid
      | _ \<Rightarrow> False)
     \<or> is_tombstoned m out \<and>
       (case get_state m out of Some (SpentFinalized t _ _) \<Rightarrow> t \<noteq> tid | _ \<Rightarrow> True)"

definition inputs_already_spent_by_other :: "'s mgr \<Rightarrow> TxInput list \<Rightarrow> hash256 \<Rightarrow> bool" where
  "inputs_already_spent_by_other m ins tid = list_ex (\<lambda>i. spent_by_other m tid (in_previous_output i)) ins"

section \<open>Submitting\<close>

fun lock_inputs :: "i64 \<Rightarrow> hash256 \<Rightarrow> TxInput list \<Rightarrow> 's mgr \<Rightarrow> 's mgr_result" where
  "lock_inputs now tid [] m = (Inr (), m)"
| "lock_inputs now tid (i # is) m =
     (case lock_utxo now (in_previous_output i) tid m of
        (Inl e, m') \<Rightarrow> (Inl e, m')
      | (Inr _, m') \<Rightarrow> lock_inputs now tid is m')"

definition lock_and_validate_transaction ::
    "extern \<Rightarrow> 's UtxoStorage \<Rightarrow> clock \<Rightarrow> Transaction \<Rightarrow> 's Engine \<Rightarrow> (TxError + u64) \<times> 's Engine" where
  "lock_and_validate_transaction X ops ck tx e =
     (let tid = txid X tx; now = ck_secs ck
      in case lock_inputs now tid (tx_inputs tx) (en_mgr e) of
           (Inl err, m) \<Rightarrow> (Inl (LockFailed err), e\<lparr>en_mgr := m\<rparr>)
         | (Inr _, m) \<Rightarrow>
             (case validate_transaction_with_locks X ops (en_fees e) tx tid m of
                (Inl err, m') \<Rightarrow> (Inl err, e\<lparr>en_mgr :=
                  fold (\<lambda>i. update_state (in_previous_output i) Unspent) (tx_inputs tx) m'\<rparr>)
              | (Inr fee, m') \<Rightarrow> (Inr fee,
                  fold (\<lambda>i. broadcast (MsgUtxoState (in_previous_output i) (Locked tid now))) (tx_inputs tx)
                    (e\<lparr>en_mgr := m'\<rparr>))))"

definition unlock_input :: "hash256 \<Rightarrow> TxInput \<Rightarrow> 's mgr \<Rightarrow> 's mgr" where
  "unlock_input tid i m = (case get_state m (in_previous_output i) of
     Some (Locked t _) \<Rightarrow> if t = tid then update_state (in_previous_output i) Unspent m else m
   | _ \<Rightarrow> m)"

definition unlock_transaction_inputs :: "hash256 \<Rightarrow> TxInput list \<Rightarrow> 's mgr \<Rightarrow> 's mgr" where
  "unlock_transaction_inputs tid ins m = fold (unlock_input tid) ins m"

definition reject_failed_voting_transaction ::
    "clock \<Rightarrow> hash256 \<Rightarrow> string \<Rightarrow> 's Engine \<Rightarrow> 's Engine" where
  "reject_failed_voting_transaction ck tid reason e =
     (let e1 = upd_pool (reject_transaction (ck_instant ck) tid reason) e;
          e2 = (case get_pending (en_pool e) tid of
                  None \<Rightarrow> e1
                | Some tx \<Rightarrow> upd_mgr (unlock_transaction_inputs tid (tx_inputs tx)) e1)
      in upd_tv (transition_to_rejected ck tid reason) e2)"

section \<open>Finalizing\<close>

text \<open>\<open>String::from_utf8(..).unwrap_or_default()\<close>.\<close>

definition from_utf8_or_empty :: "u8 list \<Rightarrow> string" where
  "from_utf8_or_empty bs = (if utf8_valid bs then map (\<lambda>b. char_of (unat b)) bs else '''')"

definition finalized_output :: "hash256 \<Rightarrow> nat \<Rightarrow> TxOutput \<Rightarrow> UTXO" where
  "finalized_output tid idx o' =
     \<lparr>u_outpoint = outpoint tid idx, u_value = out_value o', u_script_pubkey = out_script_pubkey o',
      u_address = from_utf8_or_empty (out_script_pubkey o'), u_masternode_key = None\<rparr>"

definition create_final_output :: "'s UtxoStorage \<Rightarrow> hash256 \<Rightarrow> nat \<times> TxOutput \<Rightarrow> 's mgr \<Rightarrow> 's mgr" where
  "create_final_output ops tid e m = (case e of (idx, o') \<Rightarrow>
     update_state (outpoint tid idx) Unspent (snd (add_utxo ops (finalized_output tid idx o') m)))"

definition apply_finalized ::
    "'s UtxoStorage \<Rightarrow> i64 \<Rightarrow> hash256 \<Rightarrow> Transaction \<Rightarrow> 's mgr \<Rightarrow> 's mgr" where
  "apply_finalized ops now tid tx m =
     fold (create_final_output ops tid) (List.enumerate 0 (tx_outputs tx))
       (fold (\<lambda>i. mark_timevote_finalized ops now (in_previous_output i) tid) (tx_inputs tx) m)"

definition note_finalized :: "clock \<Rightarrow> hash256 \<Rightarrow> u64 \<Rightarrow> TimeVoteConsensus \<Rightarrow> TimeVoteConsensus" where
  "note_finalized ck tid weight t =
     t\<lparr>tc_finalized_txs := dput tid (PrefAccept, ck_instant ck) (tc_finalized_txs t),
       tc_tx_status := dput tid (Finalized (ck_millis ck) weight) (tc_tx_status t)\<rparr>"

definition auto_finalize ::
    "extern \<Rightarrow> 's UtxoStorage \<Rightarrow> clock \<Rightarrow> hash256 \<Rightarrow> Transaction \<Rightarrow> 's Engine \<Rightarrow> 's Engine" where
  "auto_finalize X ops ck tid tx e =
     (let e1 = upd_pool (\<lambda>p. snd (finalize_transaction X tid p)) e;
          e2 = (if is_finalized (en_pool e1) tid
                then broadcast (MsgFinalized tid tx) (upd_mgr (apply_finalized ops (ck_secs ck) tid tx) e1)
                else e1)
      in upd_tv (note_finalized ck tid 0) e2)"

section \<open>Processing\<close>

definition transition_to_voting ::
    "clock \<Rightarrow> Masternode list \<Rightarrow> hash256 \<Rightarrow> 's Engine \<Rightarrow> 's Engine" where
  "transition_to_voting ck active tid e =
     (let e1 = upd_tv (start_stall_timer ck tid \<circ> set_tx_status tid (Voting 0 0 (ck_millis ck))) e
      in case get_pending (en_pool e1) tid of
           None \<Rightarrow> e1
         | Some tx \<Rightarrow> upd_mgr (fold (\<lambda>i. update_state (in_previous_output i)
               (SpentPending tid 0 (of_nat (length active)) (ck_secs ck))) (tx_inputs tx)) e1)"

definition structure_error :: "extern \<Rightarrow> Transaction \<Rightarrow> TxError option" where
  "structure_error X tx =
     (if tx_inputs tx = [] \<and> tx_outputs tx = [] then if is_ghost X tx then Some GhostTx else None
      else if tx_inputs tx = [] \<and> tx_special_data tx = None then Some NoInputs
      else if tx_outputs tx = [] \<and> tx_special_data tx = None then Some NoOutputs
      else None)"

definition found_inputs_sum :: "'s UtxoStorage \<Rightarrow> 's mgr \<Rightarrow> TxInput list \<Rightarrow> u64" where
  "found_inputs_sum ops m ins =
     sum_list (map (\<lambda>i. case get_utxo ops m (in_previous_output i) of Inr u \<Rightarrow> u_value u | Inl _ \<Rightarrow> 0) ins)"

definition received_fee :: "extern \<Rightarrow> 's UtxoStorage \<Rightarrow> 's Engine \<Rightarrow> Transaction \<Rightarrow> u64" where
  "received_fee X ops e tx =
     (let input_sum = found_inputs_sum ops (en_mgr e) (tx_inputs tx);
          computed = saturating_sub input_sum (output_sum tx)
      in if computed = 0 \<and> input_sum = 0 \<and> tx_inputs tx \<noteq> []
         then (case get_fee (en_pool e) (txid X tx) of None \<Rightarrow> 0 | Some f \<Rightarrow> f) else computed)"

definition start_voting ::
    "extern \<Rightarrow> Masternode list \<Rightarrow> clock \<Rightarrow> hash256 \<Rightarrow> Transaction \<Rightarrow> 's Engine \<Rightarrow> 's Engine" where
  "start_voting X active ck tid tx e =
     transition_to_voting ck active tid
       (broadcast (MsgVoteRequest tid (calculate_tx_commitment X tx) (ck_secs ck div 600) tx)
         (upd_tv (\<lambda>t. t\<lparr>tc_tx_state := dput tid (voting_state_new PrefAccept) (tc_tx_state t)\<rparr>) e))"

definition process_transaction ::
    "extern \<Rightarrow> 's UtxoStorage \<Rightarrow> Masternode list \<Rightarrow> clock \<Rightarrow> Transaction \<Rightarrow> u64 option \<Rightarrow> 's Engine
      \<Rightarrow> (TxError + unit) \<times> 's Engine" where
  "process_transaction X ops active ck tx validated_fee e =
     (let tid = txid X tx
      in if active = [] then (Inl NoMasternodes, e)
         else case structure_error X tx of
           Some err \<Rightarrow> (Inl err, e)
         | None \<Rightarrow>
             if tx_inputs tx \<noteq> [] \<and> tx_version tx < 2 then (Inl OldVersion, e)
             else if tx_inputs tx \<noteq> [] \<and> inputs_already_spent_by_other (en_mgr e) (tx_inputs tx) tid
             then (Inl InputSpent, e)
             else let fee = (case validated_fee of Some f \<Rightarrow> f | None \<Rightarrow> received_fee X ops e tx)
             in if MAX_MEMPOOL_TRANSACTIONS \<le> pending_count (en_pool e)
                then (Inl (MempoolFull (pending_count (en_pool e))), e)
                else (case add_pending X (ck_instant ck) tx fee (en_pool e) of
                    (Inl err, p) \<Rightarrow> (Inl (PoolFailed err), e\<lparr>en_pool := p\<rparr>)
                  | (Inr _, p) \<Rightarrow>
                      (let e1 = e\<lparr>en_pool := p\<rparr>
                       in (Inr (), if has_double_spend_conflict e1 (tx_inputs tx) tid
                                   then start_voting X active ck tid tx e1
                                   else auto_finalize X ops ck tid tx e1))))"

definition submit_transaction ::
    "extern \<Rightarrow> 's UtxoStorage \<Rightarrow> Masternode list \<Rightarrow> clock \<Rightarrow> Transaction \<Rightarrow> 's Engine
      \<Rightarrow> (TxError + hash256) \<times> 's Engine" where
  "submit_transaction X ops active ck tx e =
     (let tid = txid X tx; unlock = upd_mgr (unlock_transaction_inputs tid (tx_inputs tx))
      in if \<not> en_callback e then (Inl NoCallback, e)
         else case lock_and_validate_transaction X ops ck tx e of
           (Inl err, e1) \<Rightarrow> (Inl err, unlock e1)
         | (Inr fee, e1) \<Rightarrow>
             (case process_transaction X ops active ck tx (Some fee) (broadcast (MsgTransaction tx) e1) of
                (Inl err, e2) \<Rightarrow> (Inl err, unlock e2)
              | (Inr _, e2) \<Rightarrow> (Inr tid, e2)))"

section \<open>Voting\<close>

definition is_transaction_still_valid :: "'s Engine \<Rightarrow> hash256 \<Rightarrow> bool" where
  "is_transaction_still_valid e tid = (case get_pending (en_pool e) tid of
     None \<Rightarrow> False
   | Some tx \<Rightarrow>
       list_all (\<lambda>i. case get_state (en_mgr e) (in_previous_output i) of
           Some (SpentFinalized _ _ _) \<Rightarrow> False | Some (Archived _ _ _) \<Rightarrow> False | _ \<Rightarrow> True) (tx_inputs tx)
       \<and> (case get_tx_status (en_tv e) tid of Some (Rejected _ _) \<Rightarrow> False | _ \<Rightarrow> True))"

definition vote_finality_threshold :: "u64 \<Rightarrow> u64 \<Rightarrow> u64 \<times> u64" where
  "vote_finality_threshold avs_weight elapsed_secs =
     (let q_percent = (if 30 \<le> elapsed_secs then 51 else 67);
          threshold = div_ceil (avs_weight * q_percent) 100
      in (threshold, div_ceil threshold 4))"

definition total_avs_weight :: "Masternode list \<Rightarrow> u64" where
  "total_avs_weight active = sum_list (map (sampling_weight \<circ> mn_tier) active)"

definition INITIAL_VOTE_DEADLINE :: duration where "INITIAL_VOTE_DEADLINE = 5 * 1000000000"
definition MAX_VOTE_DEADLINE :: duration where "MAX_VOTE_DEADLINE = 15 * 1000000000"

definition finalize_voted ::
    "extern \<Rightarrow> 's UtxoStorage \<Rightarrow> clock \<Rightarrow> hash256 \<Rightarrow> u64 \<Rightarrow> 's Engine \<Rightarrow> 's Engine" where
  "finalize_voted X ops ck tid weight e =
     (let tx_for_broadcast = get_pending (en_pool e) tid;
          e1 = upd_pool (\<lambda>p. snd (finalize_transaction X tid p)) e;
          e2 = (if is_finalized (en_pool e1) tid
                then let e3 = (case tx_for_broadcast of None \<Rightarrow> e1
                           | Some tx \<Rightarrow> upd_mgr (apply_finalized ops (ck_secs ck) tid tx) e1);
                         e4 = (case assemble_timeproof (en_tv e3) tid of Inl _ \<Rightarrow> e3
                           | Inr proof \<Rightarrow> broadcast (MsgTimeProof proof)
                               (e3\<lparr>en_proofs := store_timeproof proof (en_proofs e3)\<rparr>))
                     in (case tx_for_broadcast of None \<Rightarrow> e4 | Some tx \<Rightarrow> broadcast (MsgFinalized tid tx) e4)
                else e1)
      in upd_tv (note_finalized ck tid weight) e2)"

text \<open>
  One round of the loop of the task that \<open>process_transaction\<close> spawns, \<open>elapsed\<close> after its start:
  the deadline of the next round, or \<open>None\<close> when the loop ends.
\<close>

definition end_voting :: "hash256 \<Rightarrow> 's Engine \<Rightarrow> 's Engine" where
  "end_voting tid e = upd_tv (\<lambda>t. t\<lparr>tc_tx_state := dremove tid (tc_tx_state t)\<rparr>) e"

definition vote_poll ::
    "extern \<Rightarrow> 's UtxoStorage \<Rightarrow> Masternode list \<Rightarrow> clock \<Rightarrow> hash256 \<Rightarrow> duration \<Rightarrow> duration \<Rightarrow> 's Engine
      \<Rightarrow> duration option \<times> 's Engine" where
  "vote_poll X ops active ck tid elapsed deadline e =
     (if dhas (tc_finalized_txs (en_tv e)) tid \<or> is_finalized (en_pool e) tid
         \<or> \<not> is_transaction_still_valid e tid then (None, end_voting tid e)
      else if elapsed < deadline then (Some deadline, e)
      else let weight = get_accumulated_weight (en_tv e) tid;
               preference = (case dget (tc_tx_state (en_tv e)) tid of None \<Rightarrow> PrefAccept
                             | Some s \<Rightarrow> vs_preference s);
               (threshold, min_weight_floor) =
                 vote_finality_threshold (total_avs_weight active) (of_nat (as_secs elapsed))
           in if weight < min_weight_floor \<and> deadline < MAX_VOTE_DEADLINE
              then (Some (deadline + 5 * 1000000000), e)
              else if preference \<noteq> PrefAccept
              then (None, end_voting tid
                     (reject_failed_voting_transaction ck tid ''TimeVote rejected by validators'' e))
              else if weight < threshold
              then (None, end_voting tid
                     (reject_failed_voting_transaction ck tid ''TimeVote quorum not reached'' e))
              else (None, end_voting tid (finalize_voted X ops ck tid weight e)))"

section \<open>Recovery of the pool\<close>

definition relock :: "i64 \<Rightarrow> hash256 \<Rightarrow> TxInput \<Rightarrow> 's mgr \<Rightarrow> 's mgr" where
  "relock now tid i m = (case get_state m (in_previous_output i) of
     Some Unspent \<Rightarrow> snd (lock_utxo now (in_previous_output i) tid m)
   | None \<Rightarrow> snd (lock_utxo now (in_previous_output i) tid m)
   | _ \<Rightarrow> m)"

text \<open>One pending transaction of \<open>retry_stuck_pending_transactions\<close>, with the two counts.\<close>

definition retry_finalize ::
    "extern \<Rightarrow> 's UtxoStorage \<Rightarrow> clock \<Rightarrow> Transaction \<Rightarrow> (nat \<times> nat) \<times> 's Engine
      \<Rightarrow> (nat \<times> nat) \<times> 's Engine" where
  "retry_finalize X ops ck tx a = (case a of ((fin, rej), e) \<Rightarrow>
     (let tid = txid X tx; competitors = get_conflicting_pending (en_pool e) (tx_inputs tx) tid;
          e1 = fold (\<lambda>(ctid, _). reject_failed_voting_transaction ck ctid
                 ''Superseded by higher-priority pending transaction'') competitors e;
          rej' = rej + length competitors
      in case finalize_transaction X tid (en_pool e1) of
           (False, p) \<Rightarrow> ((fin, rej'), e1\<lparr>en_pool := p\<rparr>)
         | (True, p) \<Rightarrow> ((Suc fin, rej'),
             upd_tv (note_finalized ck tid 0) (broadcast (MsgFinalized tid tx)
               (upd_mgr (apply_finalized ops (ck_secs ck) tid tx) (e1\<lparr>en_pool := p\<rparr>))))))"

definition retry_one ::
    "extern \<Rightarrow> 's UtxoStorage \<Rightarrow> clock \<Rightarrow> Transaction \<times> u64 \<times> string option \<times> instant
      \<Rightarrow> (nat \<times> nat) \<times> 's Engine \<Rightarrow> (nat \<times> nat) \<times> 's Engine" where
  "retry_one X ops ck ent a = (case (ent, a) of ((tx, stored_fee, _, _), ((fin, rej), e)) \<Rightarrow>
     (let tid = txid X tx
      in if \<not> pool_is_pending (en_pool e) tid then ((fin, rej), e)
         else if inputs_already_spent_by_other (en_mgr e) (tx_inputs tx) tid
         then ((fin, Suc rej), reject_failed_voting_transaction ck tid
                 ''Inputs already spent by another transaction'' e)
         else let e1 = upd_mgr (fold (relock (ck_secs ck) tid) (tx_inputs tx)) e
         in case validate_transaction_with_locks X ops (en_fees e1) tx tid (en_mgr e1) of
              (Inl _, m) \<Rightarrow> ((fin, Suc rej), reject_failed_voting_transaction ck tid
                 ''Re-validation failed'' (e1\<lparr>en_mgr := m\<rparr>))
            | (Inr fee, m) \<Rightarrow>
                (let e2 = e1\<lparr>en_mgr := m\<rparr>;
                     e3 = (if stored_fee = 0 \<and> 0 < fee
                           then upd_pool (\<lambda>p. snd (update_pending_fee tid fee p)) e2 else e2)
                 in if list_ex (\<lambda>i. owned_by_other (get_state (en_mgr e3) (in_previous_output i)) tid)
                         (tx_inputs tx) \<or> has_conflicting_confirmed (en_pool e3) (tx_inputs tx) tid
                    then ((fin, rej), e3)
                    else retry_finalize X ops ck tx ((fin, rej), e3))))"

definition retry_stuck_pending_transactions ::
    "extern \<Rightarrow> 's UtxoStorage \<Rightarrow> clock \<Rightarrow> 's Engine \<Rightarrow> (nat \<times> nat) \<times> 's Engine" where
  "retry_stuck_pending_transactions X ops ck e =
     fold (retry_one X ops ck)
       (sort_key (\<lambda>(_, fee, _, at). (- uint fee, int at)) (get_all_pending_with_metadata (en_pool e)))
       ((0, 0), e)"

definition release_input :: "hash256 \<Rightarrow> TxInput \<Rightarrow> 's mgr \<Rightarrow> 's mgr" where
  "release_input tid i m =
     (let out = in_previous_output i
      in if is_collateral_locked m out then m
         else (case get_state m out of
             Some (Locked t _) \<Rightarrow> if t = tid then update_state out Unspent m else m
           | Some (SpentPending t _ _ _) \<Rightarrow> if t = tid then update_state out Unspent m else m
           | _ \<Rightarrow> m))"

definition forget_evicted :: "hash256 \<Rightarrow> TimeVoteConsensus \<Rightarrow> TimeVoteConsensus" where
  "forget_evicted tid t =
     t\<lparr>tc_tx_state := dremove tid (tc_tx_state t), tc_votes := dremove tid (tc_votes t),
       tc_weight := dremove tid (tc_weight t), tc_finalized_txs := dremove tid (tc_finalized_txs t),
       tc_fallback_votes := dremove tid (tc_fallback_votes t),
       tc_proposal_to_tx := filter (\<lambda>(_, x). x \<noteq> tid) (tc_proposal_to_tx t)\<rparr>"

definition evict_stale_pending_transactions ::
    "extern \<Rightarrow> clock \<Rightarrow> duration \<Rightarrow> 's Engine \<Rightarrow> nat \<times> 's Engine" where
  "evict_stale_pending_transactions X ck max_age e =
     (case cleanup_stale_pending (ck_instant ck) max_age (en_pool e) of
        (evicted, p) \<Rightarrow> (length evicted,
          fold (\<lambda>tx e. upd_tv (forget_evicted (txid X tx) \<circ> transition_to_rejected ck (txid X tx)
                          ''Pending transaction evicted after exceeding stale age'')
                        (upd_mgr (fold (release_input (txid X tx)) (tx_inputs tx)) e))
            evicted (e\<lparr>en_pool := p\<rparr>)))"

text \<open>At start-up: finalized transactions with inputs that neither exist nor left a tombstone.\<close>

definition restore_input :: "OutPoint \<Rightarrow> 's mgr \<Rightarrow> 's mgr" where
  "restore_input out m =
     (if is_collateral_locked m out then m
      else (case get_state m out of
          Some (SpentFinalized _ _ _) \<Rightarrow> update_state out Unspent m
        | Some (SpentPending _ _ _ _) \<Rightarrow> update_state out Unspent m
        | Some (Locked _ _) \<Rightarrow> update_state out Unspent m
        | _ \<Rightarrow> m))"

definition drop_output :: "'s UtxoStorage \<Rightarrow> hash256 \<Rightarrow> nat \<Rightarrow> 's mgr \<Rightarrow> 's mgr" where
  "drop_output ops tid idx m =
     (if get_state m (outpoint tid idx) \<noteq> None then snd (remove_utxo ops (outpoint tid idx) m) else m)"

definition evict_missing_one ::
    "extern \<Rightarrow> 's UtxoStorage \<Rightarrow> Transaction \<Rightarrow> nat \<times> 's Engine \<Rightarrow> nat \<times> 's Engine" where
  "evict_missing_one X ops tx a = (case a of (n, e) \<Rightarrow>
     (let tid = txid X tx; m = en_mgr e; outs = map in_previous_output (tx_inputs tx);
          existing = filter (\<lambda>out. \<not> isl (get_utxo ops m out)) outs
      in if list_ex (\<lambda>out. isl (get_utxo ops m out) \<and> \<not> is_tombstoned m out) outs
         then (Suc n, upd_pool (\<lambda>p. snd (drop_banned tid p))
                (upd_mgr (fold (drop_output ops tid) [0..<length (tx_outputs tx)] \<circ> fold restore_input existing) e))
         else (n, e)))"

definition evict_finalized_with_missing_inputs ::
    "extern \<Rightarrow> 's UtxoStorage \<Rightarrow> 's Engine \<Rightarrow> nat \<times> 's Engine" where
  "evict_finalized_with_missing_inputs X ops e =
     fold (evict_missing_one X ops) (pool_finalized_transactions (en_pool e)) (0, e)"

definition tombstone_input ::
    "'s UtxoStorage \<Rightarrow> i64 \<Rightarrow> hash256 \<Rightarrow> TxInput \<Rightarrow> nat \<times> 's mgr \<Rightarrow> nat \<times> 's mgr" where
  "tombstone_input ops now tid i a = (case a of (n, m) \<Rightarrow>
     if is_tombstoned m (in_previous_output i) then (n, m)
     else (case get_utxo ops m (in_previous_output i) of
         Inl _ \<Rightarrow> (n, m)
       | Inr _ \<Rightarrow> (Suc n, mark_timevote_finalized ops now (in_previous_output i) tid m)))"

definition tombstone_confirmed_inputs_on_startup ::
    "extern \<Rightarrow> 's UtxoStorage \<Rightarrow> clock \<Rightarrow> 's Engine \<Rightarrow> nat \<times> 's Engine" where
  "tombstone_confirmed_inputs_on_startup X ops ck e =
     (case fold (\<lambda>(tx, _). fold (tombstone_input ops (ck_secs ck) (txid X tx)) (tx_inputs tx))
             (get_finalized_transactions_with_fees (en_pool e)) (0, en_mgr e) of
        (n, m) \<Rightarrow> (n, e\<lparr>en_mgr := m\<rparr>))"

section \<open>Stalls and batches\<close>

definition detect_stalled_transactions :: "clock \<Rightarrow> 's Engine \<Rightarrow> hash256 list" where
  "detect_stalled_transactions ck e =
     map fst (filter (\<lambda>(tid, s). case s of
         Voting _ _ started \<Rightarrow>
           30 \<le> sint (ck_millis ck - started) div 1000 \<and> is_transaction_still_valid e tid
       | _ \<Rightarrow> False) (tc_tx_status (en_tv e)))"

definition resolve_stall :: "clock \<Rightarrow> hash256 \<Rightarrow> 's Engine \<Rightarrow> 's Engine" where
  "resolve_stall ck tid e =
     (let accept = (case dget (tc_tx_state (en_tv e)) tid of
                      Some s \<Rightarrow> vs_preference s = PrefAccept \<and> is_transaction_still_valid e tid
                    | None \<Rightarrow> False)
      in upd_tv (\<lambda>t. let t1 = clear_fallback tid (if accept then transition_to_finalized ck tid 0 t
                                 else transition_to_rejected ck tid ''TimeLock fallback rejected'' t)
            in t1\<lparr>tc_fallback_votes := filter (\<lambda>(ph, _). get_proposal_txid t1 ph \<noteq> Some tid)
                                         (tc_fallback_votes t1)\<rparr>) e)"

definition resolve_stalls_via_timelock :: "clock \<Rightarrow> 's Engine \<Rightarrow> bool \<times> 's Engine" where
  "resolve_stalls_via_timelock ck e =
     (let stalled = map fst (filter (is_fallback \<circ> snd) (tc_tx_status (en_tv e)))
      in (stalled \<noteq> [], fold (resolve_stall ck) stalled e))"

definition resume_sampling_after_fallback ::
    "clock \<Rightarrow> Masternode list \<Rightarrow> hash256 \<Rightarrow> 's Engine \<Rightarrow> bool \<times> 's Engine" where
  "resume_sampling_after_fallback ck active tid e =
     (case get_tx_status (en_tv e) tid of
        None \<Rightarrow> (False, e)
      | Some s \<Rightarrow> if is_fallback s then (True, transition_to_voting ck active tid e) else (False, e))"

text \<open>\<open>partition_non_conflicting\<close>: each group with the inputs it spends.\<close>

fun place :: "Transaction \<Rightarrow> (Transaction list \<times> OutPoint set) list \<Rightarrow> (Transaction list \<times> OutPoint set) list" where
  "place tx [] = [([tx], in_previous_output ` set (tx_inputs tx))]"
| "place tx ((g, S) # gs) =
     (if S \<inter> in_previous_output ` set (tx_inputs tx) = {}
      then (g @ [tx], S \<union> in_previous_output ` set (tx_inputs tx)) # gs
      else (g, S) # place tx gs)"

definition partition_non_conflicting :: "Transaction list \<Rightarrow> Transaction list list" where
  "partition_non_conflicting txs = map fst (fold place txs [])"

end
