(* ===== verification/Dedup.thy ===== *)
theory Dedup
  imports Tx_Pool
begin

unbundle bit_operations_syntax

text \<open>
  The duplicate filter of incoming messages (\<open>src/network/dedup_filter.rs\<close>): a Bloom filter over
  seven seeded FNV-1a hashes, kept in two windows that rotate with time. \<open>now\<close> is the one reading
  of the clock of a call.
\<close>

section \<open>The Bloom filter\<close>

record BloomFilter =
  bf_bits :: "bool list"
  bf_hash_count :: nat
  bf_size :: nat

definition bloom_new :: "nat \<Rightarrow> BloomFilter" where
  "bloom_new approx_items = (let size = max (approx_items * 10) 10000
     in \<lparr>bf_bits = replicate size False, bf_hash_count = 7, bf_size = size\<rparr>)"

definition fnv_step :: "u8 \<Rightarrow> u64 \<Rightarrow> u64" where
  "fnv_step byte h = (h XOR ucast byte) * 0x100000001b3"

definition bloom_hash :: "u8 list \<Rightarrow> u32 \<Rightarrow> u64" where
  "bloom_hash data seed = fold fnv_step data (0xcbf29ce484222325 XOR ucast seed)"

definition bloom_index :: "BloomFilter \<Rightarrow> u8 list \<Rightarrow> nat \<Rightarrow> nat" where
  "bloom_index f item i = unat (bloom_hash item (of_nat i)) mod bf_size f"

definition bloom_contains :: "BloomFilter \<Rightarrow> u8 list \<Rightarrow> bool" where
  "bloom_contains f item = list_all (\<lambda>i. bf_bits f ! bloom_index f item i) [0..<bf_hash_count f]"

definition bloom_insert :: "u8 list \<Rightarrow> BloomFilter \<Rightarrow> BloomFilter" where
  "bloom_insert item f =
     f\<lparr>bf_bits := fold (\<lambda>i bits. bits[bloom_index f item i := True]) [0..<bf_hash_count f] (bf_bits f)\<rparr>"

definition bloom_clear :: "BloomFilter \<Rightarrow> BloomFilter" where
  "bloom_clear f = f\<lparr>bf_bits := map (\<lambda>_. False) (bf_bits f)\<rparr>"

section \<open>Two windows\<close>

record DeduplicationFilter =
  df_current :: BloomFilter
  df_previous :: BloomFilter
  df_interval :: duration
  df_last_rotation :: instant

definition dedup_new :: "instant \<Rightarrow> duration \<Rightarrow> DeduplicationFilter" where
  "dedup_new now interval = \<lparr>df_current = bloom_new 10000, df_previous = bloom_new 10000,
     df_interval = interval, df_last_rotation = now\<rparr>"

definition rotate_window :: "instant \<Rightarrow> DeduplicationFilter \<Rightarrow> DeduplicationFilter" where
  "rotate_window now d =
     (if df_interval d < now - df_last_rotation d
      then d\<lparr>df_previous := df_current d, df_current := bloom_new 10000, df_last_rotation := now\<rparr>
      else d)"

definition check_and_insert :: "instant \<Rightarrow> u8 list \<Rightarrow> DeduplicationFilter \<Rightarrow> bool \<times> DeduplicationFilter" where
  "check_and_insert now item d =
     (if bloom_contains (df_current d) item \<or> bloom_contains (df_previous d) item then (True, d)
      else let d' = rotate_window now d
        in (False, d'\<lparr>df_current := bloom_insert item (df_current d')\<rparr>))"

section \<open>No false negatives\<close>

definition bloom_ok :: "BloomFilter \<Rightarrow> bool" where
  "bloom_ok f \<longleftrightarrow> length (bf_bits f) = bf_size f \<and> 0 < bf_size f"

lemma bloom_new_ok: "bloom_ok (bloom_new n)"
  by (simp add: bloom_ok_def bloom_new_def Let_def)

lemma fold_set_bits:
  "length (fold (\<lambda>i bits. bits[f i := True]) is bits) = length bits
   \<and> (k < length bits \<longrightarrow> (fold (\<lambda>i bits. bits[f i := True]) is bits ! k \<longleftrightarrow> k \<in> f ` set is \<or> bits ! k))"
proof (induction "is" arbitrary: bits)
  case (Cons i "is")
  show ?case using Cons.IH [of "bits[f i := True]"] by (cases "f i = k") auto
qed simp

lemma insert_frame:
  "bf_size (bloom_insert item f) = bf_size f" "bf_hash_count (bloom_insert item f) = bf_hash_count f"
  "bloom_index (bloom_insert item f) = bloom_index f"
  by (simp_all add: bloom_insert_def bloom_index_def fun_eq_iff)

lemma insert_ok: "bloom_ok f \<Longrightarrow> bloom_ok (bloom_insert item f)"
  by (simp add: bloom_ok_def insert_frame) (simp add: bloom_insert_def fold_set_bits)

lemma index_less: "bloom_ok f \<Longrightarrow> bloom_index f item i < length (bf_bits f)"
  by (simp add: bloom_ok_def bloom_index_def)

lemma contains_iff:
  assumes "bloom_ok f"
  shows "bloom_contains (bloom_insert x f) y \<longleftrightarrow>
    (\<forall>i < bf_hash_count f. bloom_index f y i \<in> bloom_index f x ` {0..<bf_hash_count f}
       \<or> bf_bits f ! bloom_index f y i)"
  unfolding bloom_contains_def insert_frame list_all_iff
  using fold_set_bits [of "bloom_index f x" "[0..<bf_hash_count f]" "bf_bits f"] index_less [OF assms]
  by (auto simp: bloom_insert_def)

lemma insert_contains: "bloom_ok f \<Longrightarrow> bloom_contains (bloom_insert x f) x"
  by (simp add: contains_iff)

lemma insert_keeps: "bloom_ok f \<Longrightarrow> bloom_contains f y \<Longrightarrow> bloom_contains (bloom_insert x f) y"
  by (subst contains_iff) (auto simp: bloom_contains_def list_all_iff)

lemma new_contains: "\<not> bloom_contains (bloom_new n) x"
  by (simp add: bloom_contains_def bloom_new_def bloom_index_def Let_def upt_rec)

text \<open>Calls on a filter: the items with the instants at which they arrive.\<close>

definition dedup_run :: "(instant \<times> u8 list) list \<Rightarrow> DeduplicationFilter \<Rightarrow> DeduplicationFilter" where
  "dedup_run calls d = fold (\<lambda>(now, item) d. snd (check_and_insert now item d)) calls d"

definition dedup_ok :: "DeduplicationFilter \<Rightarrow> bool" where
  "dedup_ok d \<longleftrightarrow> bloom_ok (df_current d) \<and> bloom_ok (df_previous d)"

lemma check_ok: "dedup_ok d \<Longrightarrow> dedup_ok (snd (check_and_insert now item d))"
  by (auto simp: check_and_insert_def dedup_ok_def rotate_window_def Let_def insert_ok bloom_new_ok)

lemma run_ok: "dedup_ok d \<Longrightarrow> dedup_ok (dedup_run calls d)"
  unfolding dedup_run_def by (induction calls arbitrary: d) (auto simp: check_ok)

definition seen :: "DeduplicationFilter \<Rightarrow> u8 list \<Rightarrow> bool" where
  "seen d item \<longleftrightarrow> bloom_contains (df_current d) item \<or> bloom_contains (df_previous d) item"

text \<open>
  An item in the current window, or one in the previous window while nothing rotates, stays seen;
  \<open>fresh\<close> says it is in the current window.
\<close>

definition fresh :: "DeduplicationFilter \<Rightarrow> u8 list \<Rightarrow> bool" where
  "fresh d item \<longleftrightarrow> bloom_contains (df_current d) item"

lemma check_reports: "fst (check_and_insert now x d) \<longleftrightarrow> seen d x"
  by (simp add: check_and_insert_def seen_def Let_def)

lemma check_records:
  "dedup_ok d \<Longrightarrow> \<not> fst (check_and_insert now x d) \<Longrightarrow> fresh (snd (check_and_insert now x d)) x"
  by (auto simp: check_and_insert_def rotate_window_def fresh_def dedup_ok_def Let_def insert_contains bloom_new_ok)

lemma check_interval: "df_interval (snd (check_and_insert now x d)) = df_interval d"
  by (simp add: check_and_insert_def rotate_window_def Let_def)

text \<open>The item is in the current window, or in one whose successor opened at \<open>t\<close> or later.\<close>

definition held :: "instant \<Rightarrow> DeduplicationFilter \<Rightarrow> u8 list \<Rightarrow> bool" where
  "held t d item \<longleftrightarrow> fresh d item \<or> seen d item \<and> t \<le> df_last_rotation d"

lemma check_holds:
  assumes "dedup_ok d" "held t d y" "t \<le> now" "now \<le> t + df_interval d"
  shows "held t (snd (check_and_insert now x d)) y"
proof (cases "fst (check_and_insert now x d)")
  case True
  then have "snd (check_and_insert now x d) = d" by (auto simp: check_and_insert_def Let_def split: if_splits)
  then show ?thesis using assms(2) by simp
next
  case False
  then have snd: "snd (check_and_insert now x d)
      = (let d' = rotate_window now d in d'\<lparr>df_current := bloom_insert x (df_current d')\<rparr>)"
    by (auto simp: check_and_insert_def Let_def)
  show ?thesis
  proof (cases "df_interval d < now - df_last_rotation d")
    case True
    with assms(2-4) have "fresh d y" by (auto simp: held_def)
    with True assms(3) show ?thesis
      by (simp add: snd rotate_window_def Let_def held_def fresh_def seen_def)
  next
    case no: False
    then show ?thesis using assms(1,2) insert_keeps [of "df_current d" y x]
      by (auto simp: snd rotate_window_def Let_def held_def fresh_def seen_def dedup_ok_def)
  qed
qed

lemma run_holds:
  assumes "dedup_ok d" "held t d y" "\<forall>(now, _) \<in> set calls. t \<le> now \<and> now \<le> t + df_interval d"
  shows "held t (dedup_run calls d) y"
  using assms
proof (induction calls arbitrary: d)
  case (Cons c calls)
  obtain now x where c: "c = (now, x)" by force
  have "held t (snd (check_and_insert now x d)) y" using check_holds Cons.prems c by simp
  with Cons.IH [of "snd (check_and_insert now x d)"] Cons.prems check_ok show ?case
    by (simp add: dedup_run_def c check_interval)
qed (simp add: dedup_run_def)

text \<open>
  C40. No duplicate slips through within one rotation interval. Once a message was reported as new at
  instant \<open>t\<close>, whatever other messages pass through the filter until \<open>t + interval\<close>, the same
  message is reported as a duplicate, although at most one rotation of the windows may fall between.
\<close>

theorem dedup_catches_repeats:
  assumes "dedup_ok d" and "\<not> fst (check_and_insert t item d)"
    and "\<forall>(now, _) \<in> set calls. t \<le> now \<and> now \<le> t + df_interval d"
  shows "fst (check_and_insert t' item (dedup_run calls (snd (check_and_insert t item d))))"
proof -
  let ?d = "snd (check_and_insert t item d)"
  have "held t ?d item" using check_records [OF assms(1,2)] by (simp add: held_def)
  then have "held t (dedup_run calls ?d) item"
    using run_holds [OF check_ok [OF assms(1)]] assms(3) by (simp add: check_interval)
  then show ?thesis by (auto simp: check_reports held_def fresh_def seen_def)
qed

theorem dedup_catches_repeats_witness:
  "fst (check_and_insert 500 [1, 2, 3] (dedup_run [(400, [4]), (450, [5])]
     (snd (check_and_insert 200 [1, 2, 3] (dedup_new 0 300)))))"
proof (rule dedup_catches_repeats)
  show "dedup_ok (dedup_new 0 300)" by (simp add: dedup_ok_def dedup_new_def bloom_new_ok)
  show "\<not> fst (check_and_insert 200 [1, 2, 3] (dedup_new 0 300))"
    by (simp add: check_reports seen_def dedup_new_def new_contains)
qed (simp add: dedup_new_def)

end
