(* ===== verification/Tx_Handlers.thy ===== *)
theory Tx_Handlers
  imports Tx_Engine Dedup F64
begin

text \<open>
  The handlers of messages about transactions: \<open>src/network/message_handler/transactions.rs\<close> and the
  vote messages of \<open>src/network/message_handler/consensus.rs\<close>. A node is the engine, the two
  duplicate filters of the message context, whether the chain is syncing, the transactions the chain
  index knows, and the messages it gossiped. The AI observers of the context only record.
\<close>

record 's Node =
  nd_engine :: "'s Engine"
  nd_identity :: "NodeIdentity option"
  nd_seen_transactions :: "DeduplicationFilter option"
  nd_seen_finalized :: "DeduplicationFilter option"
  nd_syncing :: bool
  nd_tx_index :: "hash256 set"
  nd_gossip :: "engine_msg list"

definition is_tx_archived :: "'s Node \<Rightarrow> hash256 \<Rightarrow> bool" where
  "is_tx_archived n tid = (tid \<in> nd_tx_index n)"

definition gossip :: "engine_msg \<Rightarrow> 's Node \<Rightarrow> 's Node" where
  "gossip msg n = n\<lparr>nd_gossip := nd_gossip n @ [msg]\<rparr>"

definition upd_engine :: "('s Engine \<Rightarrow> 's Engine) \<Rightarrow> 's Node \<Rightarrow> 's Node" where
  "upd_engine f n = n\<lparr>nd_engine := f (nd_engine n)\<rparr>"

text \<open>Consult an optional filter.\<close>

definition check_seen ::
    "instant \<Rightarrow> u8 list \<Rightarrow> DeduplicationFilter option \<Rightarrow> bool \<times> DeduplicationFilter option" where
  "check_seen now item f = (case f of None \<Rightarrow> (False, None)
     | Some d \<Rightarrow> (case check_and_insert now item d of (r, d') \<Rightarrow> (r, Some d')))"

section \<open>Transactions\<close>

definition handle_transaction_broadcast ::
    "extern \<Rightarrow> 's UtxoStorage \<Rightarrow> Masternode list \<Rightarrow> clock \<Rightarrow> Transaction \<Rightarrow> 's Node \<Rightarrow> 's Node" where
  "handle_transaction_broadcast X ops active ck tx n0 =
     (let tid = txid X tx
      in case check_seen (ck_instant ck) tid (nd_seen_transactions n0) of (dup, f) \<Rightarrow>
        (let n = n0\<lparr>nd_seen_transactions := f\<rparr>; e = nd_engine n
         in if dup \<or> has_transaction (en_pool e) tid
              \<or> inputs_already_spent_by_other (en_mgr e) (tx_inputs tx) tid then n
            else case lock_and_validate_transaction X ops ck tx e of
              (Inl _, e1) \<Rightarrow> n\<lparr>nd_engine := e1\<rparr>
            | (Inr fee, e1) \<Rightarrow>
                (case process_transaction X ops active ck tx (Some fee) e1 of
                   (Inl _, e2) \<Rightarrow> n\<lparr>nd_engine := e2\<rparr>
                 | (Inr _, e2) \<Rightarrow> gossip (MsgTransaction tx) (n\<lparr>nd_engine := e2\<rparr>))))"

text \<open>Outputs whose state is set only if adding them succeeded.\<close>

definition create_output_if :: "'s UtxoStorage \<Rightarrow> hash256 \<Rightarrow> nat \<times> TxOutput \<Rightarrow> 's mgr \<Rightarrow> 's mgr" where
  "create_output_if ops tid e m = (case e of (idx, o') \<Rightarrow>
     (case add_utxo ops (finalized_output tid idx o') m of
        (Inl _, m') \<Rightarrow> m'
      | (Inr _, m') \<Rightarrow> update_state (outpoint tid idx) Unspent m'))"

definition inputs_accounted :: "'s UtxoStorage \<Rightarrow> 's mgr \<Rightarrow> TxInput list \<Rightarrow> bool" where
  "inputs_accounted ops m ins = list_all (\<lambda>i. \<not> isl (get_utxo ops m (in_previous_output i))
     \<or> is_tombstoned m (in_previous_output i)) ins"

text \<open>The lock, validation and pool insertion of an announced transaction; \<open>None\<close> if it is dropped.\<close>

definition admit_finalized ::
    "extern \<Rightarrow> 's UtxoStorage \<Rightarrow> clock \<Rightarrow> hash256 \<Rightarrow> Transaction \<Rightarrow> 's Engine \<Rightarrow> bool \<times> 's Engine" where
  "admit_finalized X ops ck tid tx e =
     (if \<not> has_transaction (en_pool e) tid
      then (case lock_and_validate_transaction X ops ck tx e of
              (Inl _, e1) \<Rightarrow> (False, e1)
            | (Inr fee, e1) \<Rightarrow> (True, upd_pool (\<lambda>p. snd (add_pending X (ck_instant ck) tx fee p)) e1))
      else (case validate_transaction X ops (en_fees e) tx (en_mgr e) of
              (Inl _, m) \<Rightarrow> (False, e\<lparr>en_mgr := m\<rparr>)
            | (Inr _, m) \<Rightarrow> (True, e\<lparr>en_mgr := m\<rparr>)))"

definition finalize_announced ::
    "extern \<Rightarrow> 's UtxoStorage \<Rightarrow> clock \<Rightarrow> hash256 \<Rightarrow> Transaction \<Rightarrow> 's Engine \<Rightarrow> 's Engine" where
  "finalize_announced X ops ck tid tx e =
     (case finalize_transaction X tid (en_pool e) of
        (False, p) \<Rightarrow> e\<lparr>en_pool := p\<rparr>
      | (True, p) \<Rightarrow> upd_mgr (apply_finalized ops (ck_secs ck) tid tx) (e\<lparr>en_pool := p\<rparr>))"

definition apply_announced ::
    "extern \<Rightarrow> 's UtxoStorage \<Rightarrow> clock \<Rightarrow> hash256 \<Rightarrow> Transaction \<Rightarrow> 's Node \<Rightarrow> 's Node" where
  "apply_announced X ops ck tid tx n =
     (let e = nd_engine n
      in if is_finalized (en_pool e) tid then n
         else if \<not> inputs_accounted ops (en_mgr e) (tx_inputs tx)
         then gossip (MsgFinalized tid tx)
                (upd_engine (upd_mgr (fold (create_output_if ops tid) (List.enumerate 0 (tx_outputs tx)))) n)
         else if inputs_already_spent_by_other (en_mgr e) (tx_inputs tx) tid
           \<or> has_double_spend_conflict e (tx_inputs tx) tid then n
         else case admit_finalized X ops ck tid tx e of
           (False, e1) \<Rightarrow> n\<lparr>nd_engine := e1\<rparr>
         | (True, e1) \<Rightarrow> gossip (MsgFinalized tid tx) (n\<lparr>nd_engine := finalize_announced X ops ck tid tx e1\<rparr>))"

definition handle_transaction_finalized ::
    "extern \<Rightarrow> 's UtxoStorage \<Rightarrow> clock \<Rightarrow> hash256 \<Rightarrow> Transaction \<Rightarrow> 's Node \<Rightarrow> 's Node" where
  "handle_transaction_finalized X ops ck tid tx n0 =
     (if nd_syncing n0 then n0
      else case check_seen (ck_instant ck) tid (nd_seen_finalized n0) of (dup, f) \<Rightarrow>
        (let n = n0\<lparr>nd_seen_finalized := f\<rparr>
         in if dup \<or> is_tx_archived n tid \<or> is_ghost X tx \<or> tx_inputs tx \<noteq> [] \<and> tx_version tx < 2 then n
            else apply_announced X ops ck tid tx n))"

definition handle_mempool_sync_request :: "'s Node \<Rightarrow> MempoolSyncEntry list" where
  "handle_mempool_sync_request n =
     (let all = get_all_for_sync (en_pool (nd_engine n))
      in take 100 (filter ms_is_finalized all) @ take 100 (filter (\<lambda>e. \<not> ms_is_finalized e) all))"

definition sync_finalized ::
    "extern \<Rightarrow> 's UtxoStorage \<Rightarrow> clock \<Rightarrow> MempoolSyncEntry \<Rightarrow> 's Engine \<Rightarrow> 's Engine" where
  "sync_finalized X ops ck ent e =
     (let tx = ms_tx ent; tid = txid X tx
      in upd_mgr (\<lambda>m. fold (create_output_if ops tid) (List.enumerate 0 (tx_outputs tx))
             (fold (\<lambda>i. mark_timevote_finalized ops (ck_secs ck) (in_previous_output i) tid) (tx_inputs tx) m))
           (upd_pool (add_finalized_direct X (ck_instant ck) tx (ms_fee ent)) e))"

definition sync_entry ::
    "extern \<Rightarrow> 's UtxoStorage \<Rightarrow> Masternode list \<Rightarrow> clock \<Rightarrow> MempoolSyncEntry \<Rightarrow> 's Node \<Rightarrow> 's Node" where
  "sync_entry X ops active ck ent n =
     (let tx = ms_tx ent; tid = txid X tx; e = nd_engine n
      in if has_transaction (en_pool e) tid \<or> is_tx_archived n tid
           \<or> tx_inputs tx \<noteq> [] \<and> tx_version tx < 2 then n
         else if ms_is_finalized ent
         then if is_ghost X tx then n else upd_engine (sync_finalized X ops ck ent) n
         else upd_engine (\<lambda>e. snd (process_transaction X ops active ck tx (Some (ms_fee ent)) e)) n)"

definition handle_mempool_sync_response ::
    "extern \<Rightarrow> 's UtxoStorage \<Rightarrow> Masternode list \<Rightarrow> clock \<Rightarrow> MempoolSyncEntry list \<Rightarrow> 's Node \<Rightarrow> 's Node" where
  "handle_mempool_sync_response X ops active ck entries n = fold (sync_entry X ops active ck) entries n"

section \<open>Votes\<close>

definition sign_timevote ::
    "extern \<Rightarrow> NodeIdentity option \<Rightarrow> Masternode list \<Rightarrow> hash256 \<Rightarrow> hash256 \<Rightarrow> u64 \<Rightarrow> VoteDecision
      \<Rightarrow> TimeVote option" where
  "sign_timevote X idn active tid com slot d = (case idn of None \<Rightarrow> None
     | Some i \<Rightarrow> (case find_active active (ni_address i) of None \<Rightarrow> None
         | Some mn \<Rightarrow> Some (sign_finality_vote X i 1 tid com slot d (ni_address i)
                         (sampling_weight (mn_tier mn)))))"

text \<open>The transaction a vote request is about: the pending one, or the one it carries.\<close>

definition requested_tx ::
    "extern \<Rightarrow> 's UtxoStorage \<Rightarrow> clock \<Rightarrow> hash256 \<Rightarrow> Transaction option \<Rightarrow> 's Engine
      \<Rightarrow> Transaction option \<times> 's Engine" where
  "requested_tx X ops ck tid carried e = (case get_pending (en_pool e) tid of
     Some tx \<Rightarrow> (Some tx, e)
   | None \<Rightarrow> (case carried of None \<Rightarrow> (None, e)
       | Some tx \<Rightarrow>
           (case lock_and_validate_transaction X ops ck tx e of
              (Inl _, e1) \<Rightarrow> (None, e1)
            | (Inr fee, e1) \<Rightarrow>
                (case add_pending X (ck_instant ck) tx fee (en_pool e1) of
                   (Inl _, p) \<Rightarrow> (None, e1\<lparr>en_pool := p\<rparr>)
                 | (Inr _, p) \<Rightarrow> (Some tx, e1\<lparr>en_pool := p\<rparr>)))))"

definition decide_vote ::
    "extern \<Rightarrow> 's UtxoStorage \<Rightarrow> hash256 \<Rightarrow> hash256 \<Rightarrow> Transaction option \<Rightarrow> 's Engine
      \<Rightarrow> VoteDecision \<times> 's Engine" where
  "decide_vote X ops tid com tx_opt e = (case tx_opt of
     Some tx \<Rightarrow>
       if calculate_tx_commitment X tx \<noteq> com then (Reject, e)
       else (case validate_transaction X ops (en_fees e) tx (en_mgr e) of
               (Inl _, m) \<Rightarrow> (Reject, e\<lparr>en_mgr := m\<rparr>)
             | (Inr _, m) \<Rightarrow> (Accept, e\<lparr>en_mgr := m\<rparr>))
   | None \<Rightarrow>
       if is_finalized (en_pool e) tid \<or> dhas (tc_finalized_txs (en_tv e)) tid then (Accept, e) else (Reject, e))"

definition handle_timevote_request ::
    "extern \<Rightarrow> 's UtxoStorage \<Rightarrow> Masternode list \<Rightarrow> clock \<Rightarrow> hash256 \<Rightarrow> hash256 \<Rightarrow> u64 \<Rightarrow> Transaction option
      \<Rightarrow> 's Node \<Rightarrow> TimeVote option \<times> 's Node" where
  "handle_timevote_request X ops active ck tid com slot carried n =
     (case requested_tx X ops ck tid carried (nd_engine n) of (tx_opt, e1) \<Rightarrow>
       (case decide_vote X ops tid com tx_opt e1 of (d, e2) \<Rightarrow>
         (sign_timevote X (nd_identity n) active tid com slot d, n\<lparr>nd_engine := e2\<rparr>)))"

text \<open>
  The threshold \<open>((total as f64) * 0.67).ceil() as u64\<close> in exact arithmetic: an \<open>f64\<close> holds 53
  binary digits, the nearest \<open>f64\<close> to 0.67 is \<open>6034823500676465 / 2\<close>\<open>^53\<close>, and conversion and
  product round to the nearest value, ties to an even last digit.
\<close>

definition f64_threshold :: "u64 \<Rightarrow> u64" where
  "f64_threshold tot =
     of_nat ((round_f64 (round_f64 (unat tot) * 6034823500676465) + (2 ^ 53 - 1)) div 2 ^ 53)"

definition finalize_by_votes ::
    "extern \<Rightarrow> 's UtxoStorage \<Rightarrow> clock \<Rightarrow> hash256 \<Rightarrow> u64 \<Rightarrow> 's Engine \<Rightarrow> 's Engine" where
  "finalize_by_votes X ops ck tid weight e =
     (if dhas (tc_finalized_txs (en_tv e)) tid then e
      else let e1 = upd_tv (\<lambda>t. t\<lparr>tc_finalized_txs := dput tid (PrefAccept, ck_instant ck) (tc_finalized_txs t)\<rparr>) e;
               tx_data = get_pending (en_pool e1) tid
        in case finalize_transaction X tid (en_pool e1) of
             (False, p) \<Rightarrow> e1\<lparr>en_pool := p\<rparr>
           | (True, p) \<Rightarrow>
               (let e2 = e1\<lparr>en_pool := p\<rparr>;
                    e3 = (case tx_data of None \<Rightarrow> e2
                      | Some tx \<Rightarrow> upd_mgr (apply_finalized ops (ck_secs ck) tid tx) e2);
                    e4 = upd_tv (record_finalization ck tid weight) e3
                in case assemble_timeproof (en_tv e4) tid of
                     Inl _ \<Rightarrow> e4
                   | Inr proof \<Rightarrow> broadcast (MsgTimeProof proof)
                       (e4\<lparr>en_proofs := store_timeproof proof (en_proofs e4)\<rparr>)))"

definition handle_timevote_response ::
    "extern \<Rightarrow> 's UtxoStorage \<Rightarrow> Masternode list \<Rightarrow> clock \<Rightarrow> TimeVote \<Rightarrow> 's Node \<Rightarrow> 's Node" where
  "handle_timevote_response X ops active ck v n =
     (case accumulate_timevote X active v (en_tv (nd_engine n)) of
        (Inl _, t) \<Rightarrow> upd_engine (\<lambda>e. e\<lparr>en_tv := t\<rparr>) n
      | (Inr w, t) \<Rightarrow>
          (let threshold = f64_threshold (sum_list (map vi_weight (get_validators active)))
           in upd_engine (\<lambda>e. let e1 = e\<lparr>en_tv := t\<rparr>
                in if threshold \<le> w then finalize_by_votes X ops ck (tv_txid v) w e1 else e1) n))"

definition handle_timeproof_broadcast ::
    "extern \<Rightarrow> Masternode list \<Rightarrow> TimeProof \<Rightarrow> 's Node \<Rightarrow> 's Node" where
  "handle_timeproof_broadcast X active proof n =
     (case verify_timeproof X active proof of
        Inl _ \<Rightarrow> n
      | Inr _ \<Rightarrow> upd_engine (\<lambda>e. e\<lparr>en_proofs := store_timeproof proof (en_proofs e)\<rparr>) n)"

end
