(* ===== verification/Tx_Checks.thy ===== *)
theory Tx_Checks
  imports Tx_Validation
begin

text \<open>
  What an accepted transaction satisfies: the exact conditions under which a transfer passes
  \<open>validate_transaction_with_locks\<close>, that it neither creates nor hides value, that every input is
  signed by the owner of its output, and the inputs on which the code accepts more.
\<close>

section \<open>The loops over the inputs\<close>

lemma check_inputs_iff:
  "check_inputs ops m t is fin = Inr f \<longleftrightarrow>
     (\<forall>i \<in> set is. \<exists>b. input_status ops m t (in_previous_output i) = Inr b)
     \<and> f = (fin \<and> (\<forall>i \<in> set is. input_status ops m t (in_previous_output i) = Inr True))"
  by (induction "is" arbitrary: fin) (auto split: sum.splits)

definition coin_value :: "'s UtxoStorage \<Rightarrow> 's mgr \<Rightarrow> OutPoint \<Rightarrow> u64" where
  "coin_value ops m out = (case get_utxo ops m out of Inl _ \<Rightarrow> 0 | Inr u \<Rightarrow> u_value u)"

definition input_total :: "'s UtxoStorage \<Rightarrow> 's mgr \<Rightarrow> Transaction \<Rightarrow> u64" where
  "input_total ops m tx = sum_list (map (coin_value ops m \<circ> in_previous_output) (tx_inputs tx))"

definition coin_owner :: "'s UtxoStorage \<Rightarrow> 's mgr \<Rightarrow> TxInput \<Rightarrow> string" where
  "coin_owner ops m i = (case get_utxo ops m (in_previous_output i) of Inl _ \<Rightarrow> [] | Inr u \<Rightarrow> u_address u)"

lemma sum_inputs_iff:
  "sum_inputs ops m is (s, addr, single) = Inr r \<longleftrightarrow>
     (\<forall>i \<in> set is. \<exists>u. get_utxo ops m (in_previous_output i) = Inr u)
     \<and> r = (s + sum_list (map (coin_value ops m \<circ> in_previous_output) is),
            (case addr of Some a \<Rightarrow> Some a
             | None \<Rightarrow> (case is of [] \<Rightarrow> None | i # _ \<Rightarrow> Some (coin_owner ops m i))),
            single \<and> (\<forall>i \<in> set is. case (case addr of Some a \<Rightarrow> Some a
                | None \<Rightarrow> (case is of [] \<Rightarrow> None | i # _ \<Rightarrow> Some (coin_owner ops m i)))
              of None \<Rightarrow> True | Some a \<Rightarrow> coin_owner ops m i = a))"
proof (induction "is" arbitrary: s addr single)
  case Nil
  then show ?case by (auto split: option.splits)
next
  case (Cons i "is")
  show ?case
  proof (cases "get_utxo ops m (in_previous_output i)")
    case (Inl e)
    then show ?thesis by simp
  next
    case (Inr u)
    then have v: "coin_value ops m (in_previous_output i) = u_value u" "coin_owner ops m i = u_address u"
      by (simp_all add: coin_value_def coin_owner_def)
    show ?thesis
      by (cases addr) (auto simp: Inr Cons.IH v add.assoc)
  qed
qed

lemma output_total_dust:
  "List.find is_dust outs = None \<longleftrightarrow> (\<forall>out \<in> set outs. out_value out = 0 \<or> 1000 \<le> out_value out)"
  by (auto simp: find_None_iff is_dust_def DUST_THRESHOLD_def word_gt_0 not_less)

section \<open>Signatures\<close>

lemma utf8_ascii: "\<forall>b \<in> set bs. b < 0x80 \<Longrightarrow> utf8_valid bs"
  by (induction bs) (simp_all add: continuation_bytes_def)

lemma register_pubkey_frame [simp]:
  "get_utxo ops (register_pubkey a pk m) = get_utxo ops m"
  "get_state (register_pubkey a pk m) = get_state m"
  by (simp_all add: register_pubkey_def get_utxo_def get_state_def fun_eq_iff)

lemma encode_alphabet: "set (base58_encode data) \<subseteq> set BASE58_ALPHABET"
proof
  fix c assume "c \<in> set (base58_encode data)"
  then obtain d where d: "d \<in> set (rebase 256 58 (map unat data))" "c = alpha d"
    by (auto simp: encode_eq)
  have "d < 58" using rebase_less [OF _ d(1)] by simp
  then show "c \<in> set BASE58_ALPHABET" using d(2) by (simp add: alpha_def)
qed

lemma as_string_ascii: "\<forall>b \<in> set (as_bytes (as_string X a)). b < 0x80"
proof -
  have "\<forall>c \<in> set BASE58_ALPHABET. (of_nat (of_char c) :: u8) < 0x80"
    by (simp add: BASE58_ALPHABET_def)
  then have "\<forall>c \<in> set (base58_encode d). (of_nat (of_char c) :: u8) < 0x80" for d
    using encode_alphabet by blast
  then show ?thesis by (cases "a_network a") (auto simp: as_string_def as_bytes_def)
qed

lemma as_string_prefix:
  "take 5 (as_bytes (as_string X (from_public_key X pk net)))
     = as_bytes (case net of Testnet \<Rightarrow> ''TIME0'' | Mainnet \<Rightarrow> ''TIME1'')"
  by (cases net) (simp_all add: as_string_def from_public_key_def as_bytes_def)

lemma prefixes_differ: "as_bytes ''TIME1'' \<noteq> as_bytes ''TIME0''"
  by simp

lemma check_script_iff:
  "check_script X idx ab sig msg = Inr () \<longleftrightarrow>
     length sig = 96 \<and> ed_key_ok X (take 32 sig)
     \<and> (\<exists>net. ab = as_bytes (as_string X (from_public_key X (take 32 sig) net)))
     \<and> ed_verify_strict X (take 32 sig) msg (drop 32 sig)" (is "?L \<longleftrightarrow> ?R")
proof
  assume ?L
  then show ?R by (auto simp: check_script_def Let_def split: if_splits)
next
  assume ?R
  then obtain net where net: "ab = as_bytes (as_string X (from_public_key X (take 32 sig) net))"
    and rest: "length sig = 96" "ed_key_ok X (take 32 sig)"
      "ed_verify_strict X (take 32 sig) msg (drop 32 sig)" by blast
  have u: "utf8_valid ab" unfolding net by (rule utf8_ascii) (rule as_string_ascii)
  have pre: "take 5 ab = as_bytes (case net of Testnet \<Rightarrow> ''TIME0'' | Mainnet \<Rightarrow> ''TIME1'')"
    unfolding net by (rule as_string_prefix)
  show ?L using rest u pre net [symmetric] by (cases net) (simp_all add: check_script_def Let_def)
qed

text \<open>Input \<open>idx\<close> carries a key of the owner of its output and that key's signature.\<close>

definition input_signed :: "extern \<Rightarrow> 's UtxoStorage \<Rightarrow> 's mgr \<Rightarrow> Transaction \<Rightarrow> nat \<Rightarrow> bool" where
  "input_signed X ops m tx idx \<longleftrightarrow>
     (let i = tx_inputs tx ! idx; pk = take 32 (in_script_sig i)
      in \<exists>u msg. get_utxo ops m (in_previous_output i) = Inr u
           \<and> create_signature_message X tx idx = Inr msg \<and> length (in_script_sig i) = 96
           \<and> ed_key_ok X pk
           \<and> (\<exists>net. u_script_pubkey u = as_bytes (as_string X (from_public_key X pk net)))
           \<and> ed_verify_strict X pk msg (drop 32 (in_script_sig i)))"

lemma input_signed_alt:
  "input_signed X ops m tx idx \<longleftrightarrow>
     (\<exists>u msg. get_utxo ops m (in_previous_output (tx_inputs tx ! idx)) = Inr u
       \<and> create_signature_message X tx idx = Inr msg
       \<and> check_script X idx (u_script_pubkey u) (in_script_sig (tx_inputs tx ! idx)) msg = Inr ())"
  unfolding input_signed_def Let_def check_script_iff by (intro ex_cong1) blast

lemma verify_input_iff:
  assumes "idx < length (tx_inputs tx)"
  shows "fst (verify_input_signature X ops tx idx m) = Inr () \<longleftrightarrow> input_signed X ops m tx idx"
  using assms
  by (auto simp: verify_input_signature_def input_signed_alt Let_def split: sum.splits)

lemma verify_input_frame:
  "get_utxo ops (snd (verify_input_signature X ops tx idx m)) = get_utxo ops m"
  by (simp add: verify_input_signature_def Let_def split: sum.splits)

lemma input_signed_cong:
  "get_utxo ops m = get_utxo ops m' \<Longrightarrow> input_signed X ops m tx idx = input_signed X ops m' tx idx"
  by (simp add: input_signed_def)

lemma verify_inputs_iff:
  assumes "is = drop idx (tx_inputs tx)"
  shows "fst (verify_inputs X ops tx idx is m) = Inr () \<longleftrightarrow>
    (\<forall>k. idx \<le> k \<and> k < length (tx_inputs tx) \<longrightarrow> input_signed X ops m tx k)"
  using assms
proof (induction "is" arbitrary: idx m)
  case Nil
  then show ?case by auto
next
  case (Cons i "is")
  have idx: "idx < length (tx_inputs tx)" using Cons.prems by (metis drop_all linorder_not_less list.distinct(1))
  then have i: "i = tx_inputs tx ! idx" "is = drop (Suc idx) (tx_inputs tx)"
    using Cons.prems by (metis Cons_nth_drop_Suc list.inject)+
  obtain r m' where v: "verify_input_signature X ops tx idx m = (r, m')" by fastforce
  have fr: "get_utxo ops m' = get_utxo ops m" using verify_input_frame [of ops X tx idx m] by (simp add: v)
  have first: "r = Inr () \<longleftrightarrow> input_signed X ops m tx idx" using verify_input_iff [OF idx, of X ops m] by (simp add: v)
  have empty: "\<not> input_signed X ops m tx idx" if "in_script_sig i = []"
    using that by (simp add: input_signed_def i(1))
  have rest: "fst (verify_inputs X ops tx (Suc idx) is m') = Inr () \<longleftrightarrow>
      (\<forall>k. Suc idx \<le> k \<and> k < length (tx_inputs tx) \<longrightarrow> input_signed X ops m tx k)"
    using Cons.IH [OF i(2), of m'] by (simp add: input_signed_cong [OF fr])
  have split: "(\<forall>k. idx \<le> k \<and> k < length (tx_inputs tx) \<longrightarrow> input_signed X ops m tx k) \<longleftrightarrow>
      input_signed X ops m tx idx
      \<and> (\<forall>k. Suc idx \<le> k \<and> k < length (tx_inputs tx) \<longrightarrow> input_signed X ops m tx k)"
    using idx by (metis Suc_leD Suc_leI le_eq_less_or_eq le_refl)
  show ?case
  proof (cases "input_signed X ops m tx idx")
    case True
    then have "fst (verify_inputs X ops tx idx (i # is) m) = fst (verify_inputs X ops tx (Suc idx) is m')"
      using empty first by (auto simp: v)
    then show ?thesis unfolding split by (simp only: rest True simp_thms)
  next
    case False
    then obtain e where "r = Inl e" using first by (cases r) auto
    then show ?thesis unfolding split using False by (simp add: v)
  qed
qed

section \<open>What is accepted\<close>

definition same_owner :: "'s UtxoStorage \<Rightarrow> 's mgr \<Rightarrow> Transaction \<Rightarrow> bool" where
  "same_owner ops m tx \<longleftrightarrow> (\<exists>a. (\<forall>i \<in> set (tx_inputs tx). coin_owner ops m i = a)
     \<and> (\<forall>out \<in> set (tx_outputs tx). utf8_valid (out_script_pubkey out) \<and> out_script_pubkey out = as_bytes a))"

lemma self_send_iff:
  assumes "tx_inputs tx \<noteq> []" and "sum_inputs ops m (tx_inputs tx) (0, None, True) = Inr (s, addr, single)"
  shows "is_self_send addr single tx \<longleftrightarrow> same_owner ops m tx" and "s = input_total ops m tx"
proof -
  obtain i "is" where i: "tx_inputs tx = i # is" using assms(1) by (cases "tx_inputs tx") auto
  have r: "addr = Some (coin_owner ops m i)" "single = (\<forall>j \<in> set is. coin_owner ops m j = coin_owner ops m i)"
    "s = input_total ops m tx"
    using assms(2) unfolding sum_inputs_iff by (auto simp: i input_total_def)
  show "s = input_total ops m tx" by (rule r(3))
  show "is_self_send addr single tx \<longleftrightarrow> same_owner ops m tx"
    by (auto simp: is_self_send_def same_owner_def r(1,2) i list_all_iff)
qed

lemma check_amounts_iff:
  assumes "tx_inputs tx \<noteq> []"
  shows "check_amounts ops fs m tx = Inr fee \<longleftrightarrow>
    (\<forall>i \<in> set (tx_inputs tx). \<exists>u. get_utxo ops m (in_previous_output i) = Inr u)
    \<and> (\<forall>out \<in> set (tx_outputs tx). out_value out = 0 \<or> 1000 \<le> out_value out)
    \<and> 100000000 \<le> output_sum tx \<and> output_sum tx \<le> input_total ops m tx
    \<and> fee = input_total ops m tx - output_sum tx \<and> 1000000 \<le> fee
    \<and> (same_owner ops m tx \<or> required_fee fs (send_amount tx) \<le> fee)"
proof (cases "sum_inputs ops m (tx_inputs tx) (0, None, True)")
  case (Inl e)
  then have "\<not> (\<forall>i \<in> set (tx_inputs tx). \<exists>u. get_utxo ops m (in_previous_output i) = Inr u)"
    using sum_inputs_iff [of ops m "tx_inputs tx" 0 None True] by auto
  then show ?thesis by (simp add: check_amounts_def Inl)
next
  case (Inr r)
  obtain s addr single where r: "r = (s, addr, single)" by (cases r)
  note st = self_send_iff [OF assms Inr [unfolded r]]
  have all: "\<forall>i \<in> set (tx_inputs tx). \<exists>u. get_utxo ops m (in_previous_output i) = Inr u"
    using Inr sum_inputs_iff [of ops m "tx_inputs tx" 0 None True] by blast
  show ?thesis
  proof (cases "List.find is_dust (tx_outputs tx)")
    case None
    then show ?thesis using all
      by (auto simp: check_amounts_def Inr r st Let_def output_total_dust [symmetric] saturating_sub_def
          SATOSHIS_PER_TIME_def MIN_TX_FEE_def)
  next
    case (Some out)
    then show ?thesis using output_total_dust [of "tx_outputs tx"] by (simp add: check_amounts_def Inr r)
  qed
qed

lemma validate_stages:
  assumes sp: "tx_special_data tx = None"
    and live: "\<exists>i \<in> set (tx_inputs tx). input_status ops m tid (in_previous_output i) \<noteq> Inr True"
  shows "fst (validate_transaction_with_locks X ops fs tx tid m) = Inr fee \<longleftrightarrow>
    (\<exists>bytes. tx_bincode X tx = Some bytes \<and> length bytes \<le> 10000000)
    \<and> (\<forall>i \<in> set (tx_inputs tx). \<exists>f. input_status ops m tid (in_previous_output i) = Inr f)
    \<and> check_amounts ops fs m tx = Inr fee
    \<and> (\<forall>k < length (tx_inputs tx). input_signed X ops m tx k)"
proof -
  have sf: "special_fields tx = Inr ()" "\<not> is_masternode_reg tx" "\<not> is_masternode_dereg tx"
    by (simp_all add: special_fields_def is_masternode_reg_def is_masternode_dereg_def sp)
  have vs: "fst (verify_inputs X ops tx 0 (tx_inputs tx) m) = Inr () \<longleftrightarrow>
      (\<forall>k < length (tx_inputs tx). input_signed X ops m tx k)"
    using verify_inputs_iff [of "tx_inputs tx" 0 tx X ops m] by simp
  have ci: "check_inputs ops m tid (tx_inputs tx) (tx_inputs tx \<noteq> []) = Inr False"
    if "\<forall>i \<in> set (tx_inputs tx). \<exists>f. input_status ops m tid (in_previous_output i) = Inr f"
    using that live unfolding check_inputs_iff by auto
  have ce: "\<exists>e. check_inputs ops m tid (tx_inputs tx) (tx_inputs tx \<noteq> []) = Inl e"
    if "\<not> (\<forall>i \<in> set (tx_inputs tx). \<exists>f. input_status ops m tid (in_previous_output i) = Inr f)"
    using that check_inputs_iff [of ops m tid "tx_inputs tx" "tx_inputs tx \<noteq> []"]
    by (cases "check_inputs ops m tid (tx_inputs tx) (tx_inputs tx \<noteq> [])") blast+
  obtain r m' where v: "verify_inputs X ops tx 0 (tx_inputs tx) m = (r, m')" by fastforce
  show ?thesis
  proof (cases "\<forall>i \<in> set (tx_inputs tx). \<exists>f. input_status ops m tid (in_previous_output i) = Inr f")
    case True
    then show ?thesis using vs
      by (cases r) (auto simp: validate_transaction_with_locks_def sf ci v MAX_TX_SIZE_def
          split: option.splits sum.splits)
  next
    case False
    then show ?thesis using ce
      by (auto simp: validate_transaction_with_locks_def sf split: option.splits)
  qed
qed

lemma live_inputs: "\<exists>i \<in> set (tx_inputs tx). P i \<Longrightarrow> tx_inputs tx \<noteq> []"
  by auto


text \<open>A node with one coin, and transactions that spend it.\<close>

definition pk0 :: pubkey where "pk0 = replicate 32 1"
definition out0 :: OutPoint where "out0 = \<lparr>op_txid = replicate 32 4, op_vout = 0\<rparr>"

definition owner0 :: string where
  "owner0 = as_string extern0 (from_public_key extern0 pk0 Testnet)"

definition coin0 :: UTXO where
  "coin0 = \<lparr>u_outpoint = out0, u_value = 1000000000, u_script_pubkey = as_bytes owner0,
     u_address = owner0, u_masternode_key = None\<rparr>"

definition mgr0 :: "mem_store mgr" where
  "mgr0 = snd (add_utxo InMemoryUtxoStorage coin0 utxo_manager_new)"

definition pay_tx :: "TxInput list \<Rightarrow> u64 list \<Rightarrow> SpecialTransactionData option \<Rightarrow> Transaction" where
  "pay_tx is vs sd = \<lparr>tx_version = 2, tx_inputs = is,
     tx_outputs = map (\<lambda>v. \<lparr>out_value = v, out_script_pubkey = as_bytes ''TIME0dest''\<rparr>) vs,
     tx_lock_time = 0, tx_timestamp = 0, tx_special_data = sd, tx_encrypted_memo = None\<rparr>"

definition signed_input :: TxInput where
  "signed_input = \<lparr>in_previous_output = out0, in_script_sig = pk0 @ replicate 64 3, in_sequence = 0\<rparr>"

definition bare_input :: TxInput where
  "bare_input = \<lparr>in_previous_output = out0, in_script_sig = [], in_sequence = 0\<rparr>"

lemma mgr0_fields:
  "get_utxo InMemoryUtxoStorage mgr0 = (\<lambda>out. if out = out0 then Inr coin0 else Inl NotFound)"
  "get_state mgr0 = [out0 \<mapsto> Unspent]" "is_collateral_locked mgr0 = (\<lambda>_. False)"
  "is_tombstoned mgr0 = (\<lambda>_. False)" "spent_tombstones mgr0 = {}"
  by (simp_all add: mgr0_def utxo_manager_new_def new_with_storage_def add_utxo_def store_unspent_def
      mem_defs coin0_def get_utxo_def get_state_def is_collateral_locked_def
      is_tombstoned_def fun_eq_iff dict_simps)

lemma mgr0_status: "input_status InMemoryUtxoStorage mgr0 t out0 = Inr False"
  by (simp add: input_status_def mgr0_fields)

lemma mgr0_available: "\<exists>f. input_status InMemoryUtxoStorage mgr0 t out0 = Inr f"
  by (rule exI) (rule mgr0_status)

lemma mgr0_value: "coin_value InMemoryUtxoStorage mgr0 out0 = 1000000000"
  by (simp add: coin_value_def mgr0_fields coin0_def)

lemma mgr0_signed:
  assumes "tx_inputs tx ! k = signed_input"
  shows "input_signed extern0 InMemoryUtxoStorage mgr0 tx k"
proof -
  have "take 32 (in_script_sig signed_input) = pk0" "length (in_script_sig signed_input) = 96"
    "in_previous_output signed_input = out0" by (simp_all add: signed_input_def pk0_def)
  moreover have "u_script_pubkey coin0 = as_bytes (as_string extern0 (from_public_key extern0 pk0 Testnet))"
    by (simp add: coin0_def owner0_def)
  ultimately show ?thesis unfolding input_signed_def Let_def
    by (auto simp: assms mgr0_fields create_signature_message_def extern0_def)
qed

lemma extern0_bincode: "tx_bincode extern0 tx = Some []"
  by (simp add: extern0_def)


section \<open>Value is conserved\<close>





lemma accepts_pay:
  assumes "is = replicate n signed_input" "n \<noteq> 0" "\<forall>v \<in> set vs. v = 0 \<or> 1000 \<le> v"
    "100000000 \<le> sum_list vs" "sum_list vs \<le> of_nat n * 1000000000"
    "fee = of_nat n * 1000000000 - sum_list vs" "1000000 \<le> fee"
    "required_fee default_fee_schedule (send_amount (pay_tx is vs None)) \<le> fee"
  shows "fst (validate_transaction_with_locks extern0 InMemoryUtxoStorage default_fee_schedule
     (pay_tx is vs None) t mgr0) = Inr fee"
proof -
  let ?tx = "pay_tx is vs None"
  have i: "tx_inputs ?tx = replicate n signed_input" "in_previous_output signed_input = out0"
    by (simp_all add: pay_tx_def signed_input_def assms(1))
  have sp: "tx_special_data ?tx = None" by (simp add: pay_tx_def)
  have live: "\<exists>i \<in> set (tx_inputs ?tx). input_status InMemoryUtxoStorage mgr0 t (in_previous_output i) \<noteq> Inr True"
    using assms(2) by (simp add: i mgr0_status)
  have sg: "\<forall>k < length (tx_inputs ?tx). input_signed extern0 InMemoryUtxoStorage mgr0 ?tx k"
    by (auto intro!: mgr0_signed simp: i)
  have o: "output_sum ?tx = sum_list vs" by (simp add: output_sum_def pay_tx_def comp_def)
  have outs: "tx_outputs ?tx = map (\<lambda>v. \<lparr>out_value = v, out_script_pubkey = as_bytes ''TIME0dest''\<rparr>) vs"
    by (simp add: pay_tx_def)
  have n: "input_total InMemoryUtxoStorage mgr0 ?tx = of_nat n * 1000000000"
    by (simp add: input_total_def i mgr0_value sum_list_replicate)
  have "check_amounts InMemoryUtxoStorage default_fee_schedule mgr0 ?tx = Inr fee"
    unfolding check_amounts_iff [OF live_inputs, OF live] using assms(2-)
    by (auto simp: o n i mgr0_fields outs)
  then show ?thesis unfolding validate_stages [OF sp live] using sg
    by (simp add: extern0_bincode i mgr0_available)
qed


section \<open>Where more is accepted\<close>

text \<open>
  The sums wrap. A transaction that spends ten TIME into outputs of 2^63 and 2^63 plus 9.5 TIME is
  accepted with a fee of half a TIME; its outputs are worth more than 10^11 times its input.
\<close>

lemma overflow_mints:
  "fst (validate_transaction_with_locks extern0 InMemoryUtxoStorage default_fee_schedule
     (pay_tx [signed_input] [9223372036854775808, 9223372037804775808] None) t mgr0) = Inr 50000000"
  by (rule accepts_pay [of _ 1])
    (simp_all add: required_fee_def default_fee_schedule_def tier_rate_def send_amount_def pay_tx_def
      SATOSHIS_PER_TIME_def MIN_TX_FEE_def)

text \<open>The same coin listed twice among the inputs counts twice: ten TIME pay 19.5 TIME.\<close>

lemma duplicate_input_mints:
  "fst (validate_transaction_with_locks extern0 InMemoryUtxoStorage default_fee_schedule
     (pay_tx [signed_input, signed_input] [1950000000] None) t mgr0) = Inr 50000000"
  by (rule accepts_pay [of _ "Suc (Suc 0)"])
    (simp_all add: required_fee_def default_fee_schedule_def tier_rate_def send_amount_def pay_tx_def
      SATOSHIS_PER_TIME_def MIN_TX_FEE_def)

text \<open>
  A transaction with a masternode registration or deregistration payload is accepted with fee 0 on
  the syntax of the payload alone: its inputs need neither be signed nor exist and its outputs are
  not compared with them.
\<close>

lemma registration_skips_checks:
  assumes "tx_bincode X tx = Some bytes" "length bytes \<le> 10000000"
    and "tx_special_data tx = Some (MasternodeDeregistration addr slot pk sg)"
    and "addr \<noteq> []" "pubkey_hex64 pk" "sg \<noteq> []"
  shows "validate_transaction_with_locks X ops fs tx t m = (Inr 0, m)"
  using assms
  by (simp add: validate_transaction_with_locks_def special_fields_def is_masternode_dereg_def MAX_TX_SIZE_def)

text \<open>
  After a restart the state of a spent output is gone and only its tombstone is left. A transaction
  all of whose inputs are in that condition is accepted with fee 0 and unsigned, whoever spent them.
\<close>

lemma tombstoned_inputs_skip_checks:
  assumes "tx_bincode X tx = Some bytes" "length bytes \<le> 10000000" "tx_special_data tx = None"
    and "tx_inputs tx \<noteq> []"
    and spent: "\<forall>i \<in> set (tx_inputs tx). \<not> is_collateral_locked m (in_previous_output i)
      \<and> get_state m (in_previous_output i) = None \<and> is_tombstoned m (in_previous_output i)"
  shows "validate_transaction_with_locks X ops fs tx t m = (Inr 0, m)"
proof -
  have "\<forall>i \<in> set (tx_inputs tx). input_status ops m t (in_previous_output i) = Inr True"
    using spent by (simp add: input_status_def)
  then have "check_inputs ops m t (tx_inputs tx) (tx_inputs tx \<noteq> []) = Inr True"
    using assms(4) unfolding check_inputs_iff by blast
  then show ?thesis using assms(1-3)
    by (simp add: validate_transaction_with_locks_def special_fields_def is_masternode_reg_def
        is_masternode_dereg_def MAX_TX_SIZE_def)
qed

end
