(* ===== verification/Tx_Engine_Props.thy ===== *)
theory Tx_Engine_Props
  imports Tx_Handlers Tx_Checks Tx_Pool_Props
begin

text \<open>
  What the engine guarantees: an input spent by a finalized transaction stays spent, whatever
  operations and messages follow, and no other transaction that spends it is accepted.
\<close>

section \<open>A settled output\<close>

definition settled :: "hash256 \<Rightarrow> OutPoint \<Rightarrow> 's mgr \<Rightarrow> bool" where
  "settled t out m \<longleftrightarrow> (\<exists>at v. get_state m out = Some (SpentFinalized t at v)) \<and> is_tombstoned m out"

lemma settled_cong:
  "get_state m' out = get_state m out \<Longrightarrow> is_tombstoned m' out = is_tombstoned m out \<Longrightarrow> settled t out m' = settled t out m"
  by (simp add: settled_def)

lemma settled_state: "settled t out m \<Longrightarrow> \<exists>at v. get_state m out = Some (SpentFinalized t at v)"
  by (simp add: settled_def)

lemma get_set_state [simp]: "get_state (set_state out st m) out' = (if out' = out then Some st else get_state m out')"
  by (simp add: get_state_def set_state_def)

lemma tombstoned_set_state [simp]: "is_tombstoned (set_state out st m) = is_tombstoned m"
  by (simp add: is_tombstoned_def set_state_def fun_eq_iff)

lemma settled_update: "settled t out m \<Longrightarrow> out' \<noteq> out \<Longrightarrow> settled t out (update_state out' st m)"
  by (simp add: update_state_def settled_def)

lemma fold_keeps: "(\<And>x m. x \<in> set xs \<Longrightarrow> P m \<Longrightarrow> P (f x m)) \<Longrightarrow> P m \<Longrightarrow> P (fold f xs m)"
  by (induction xs arbitrary: m) auto

lemma settled_updates:
  "settled t out m \<Longrightarrow> out \<notin> in_previous_output ` set is \<Longrightarrow>
   settled t out (fold (\<lambda>i. update_state (in_previous_output i) st) is m)"
  by (induction "is" arbitrary: m) (auto simp: settled_update)

lemma settled_lock: "settled t out m \<Longrightarrow> settled t out (snd (lock_utxo now out' tid m))"
  using settled_state [of t out m]
  by (cases "out' = out") (auto simp: lock_utxo_def get_state_def settled_def split: option.splits UTXOState.splits)

lemma settled_lock_refused:
  "settled t out m \<Longrightarrow> lock_utxo now out tid m = (r, m') \<Longrightarrow> isl r"
  using settled_state [of t out m] by (auto simp: lock_utxo_def get_state_def split: if_splits)

lemma settled_lock_inputs: "settled t out m \<Longrightarrow> settled t out (snd (lock_inputs now tid is m))"
proof (induction "is" arbitrary: m)
  case (Cons i "is")
  obtain r m1 where l: "lock_utxo now (in_previous_output i) tid m = (r, m1)" by (rule prod.exhaust)
  have "settled t out m1" using settled_lock [OF Cons.prems, of now "in_previous_output i" tid] by (simp add: l)
  then show ?case using Cons.IH [of m1] by (cases r) (simp_all add: l)
qed simp

lemma lock_inputs_settled:
  assumes "lock_inputs now tid is m = (Inr u, m')" "settled t out m"
  shows "out \<notin> in_previous_output ` set is"
  using assms
proof (induction "is" arbitrary: m)
  case (Cons i "is")
  obtain r m1 where l: "lock_utxo now (in_previous_output i) tid m = (r, m1)" by (rule prod.exhaust)
  with Cons.prems have r: "r = Inr ()" by (cases r) auto
  then have "in_previous_output i \<noteq> out" using settled_lock_refused [OF Cons.prems(2), of now tid r m1] l by auto
  moreover have "settled t out m1" using settled_lock [OF Cons.prems(2), of now "in_previous_output i" tid] l by simp
  ultimately show ?case using Cons.IH [of m1] Cons.prems l r by auto
qed simp

lemma settled_mark: "settled t out m \<Longrightarrow> settled t out (mark_timevote_finalized ops now out' tid m)"
  using settled_state [of t out m]
  by (cases "out' = out")
    (auto simp: mark_timevote_finalized_def refuses_finalize_def settled_def Let_def record_spent_def unindex_stored_def
      remove_from_address_index_def get_state_def set_state_def is_tombstoned_def split: option.splits sum.splits)

lemma get_state_add_utxo:
  "out \<noteq> u_outpoint u \<Longrightarrow> get_state (snd (add_utxo ops u m)) out = get_state m out"
  "is_tombstoned (snd (add_utxo ops u m)) = is_tombstoned m"
  by (auto simp: add_utxo_def store_unspent_def get_state_def is_tombstoned_def fun_eq_iff
      split: option.splits UTXOState.splits sum.splits)

lemma outpoint_txid [simp]: "op_txid (outpoint tid idx) = tid" "u_outpoint (finalized_output tid idx o') = outpoint tid idx"
  by (simp_all add: outpoint_def finalized_output_def)

lemma settled_create:
  assumes "settled t out m" "tid \<noteq> op_txid out"
  shows "settled t out (create_final_output ops tid x m)" "settled t out (create_output_if ops tid x m)"
proof -
  obtain idx o' where x: "x = (idx, o')" by force
  have ne: "outpoint tid idx \<noteq> out" using assms(2) by auto
  have s: "settled t out (snd (add_utxo ops (finalized_output tid idx o') m))"
    using assms(1) ne by (subst settled_cong) (auto simp: get_state_add_utxo)
  show "settled t out (create_final_output ops tid x m)" by (simp add: create_final_output_def x settled_update [OF s ne])
  show "settled t out (create_output_if ops tid x m)"
    using s settled_update [OF s ne, of Unspent] by (auto simp: create_output_if_def x split: prod.splits sum.splits)
qed

lemma settled_apply:
  assumes "settled t out m" "tid \<noteq> op_txid out"
  shows "settled t out (apply_finalized ops now tid tx m)"
  unfolding apply_finalized_def
  by (intro fold_keeps [where P = "settled t out"] settled_create settled_mark assms)

lemma settled_unlock_inputs: "settled t out m \<Longrightarrow> settled t out (unlock_transaction_inputs tid is m)"
  unfolding unlock_transaction_inputs_def
proof (rule fold_keeps [where P = "settled t out"])
  fix i and m :: "'a mgr" assume "settled t out m"
  then show "settled t out (unlock_input tid i m)" using settled_state [of t out m]
    by (cases "in_previous_output i = out")
      (auto simp: unlock_input_def settled_update split: option.splits UTXOState.splits)
qed

lemma settled_release: "settled t out m \<Longrightarrow> settled t out (release_input tid i m)"
  using settled_state [of t out m]
  by (cases "in_previous_output i = out")
    (auto simp: release_input_def Let_def settled_update split: option.splits UTXOState.splits)

lemma settled_relock: "settled t out m \<Longrightarrow> settled t out (relock now tid i m)"
  using settled_lock [of t out m now "in_previous_output i" tid]
  by (auto simp: relock_def split: option.splits UTXOState.splits)

text \<open>Validation only caches public keys.\<close>

lemma register_tombstoned [simp]: "is_tombstoned (register_pubkey a pk m) = is_tombstoned m"
  by (simp add: register_pubkey_def is_tombstoned_def fun_eq_iff)

lemma verify_input_states:
  "get_state (snd (verify_input_signature X ops tx idx m)) = get_state m"
  "is_tombstoned (snd (verify_input_signature X ops tx idx m)) = is_tombstoned m"
  by (simp_all add: verify_input_signature_def Let_def split: sum.splits)

lemma verify_inputs_frame:
  "get_state (snd (verify_inputs X ops tx idx is m)) = get_state m
   \<and> is_tombstoned (snd (verify_inputs X ops tx idx is m)) = is_tombstoned m"
proof (induction "is" arbitrary: idx m)
  case (Cons i "is")
  obtain r m' where v: "verify_input_signature X ops tx idx m = (r, m')" by fastforce
  have fr: "get_state m' = get_state m" "is_tombstoned m' = is_tombstoned m"
    using verify_input_states [of X ops tx idx m] by (simp_all add: v)
  show ?case using Cons.IH [of "Suc idx" m'] fr by (auto simp: v split: sum.splits)
qed simp

lemma validate_frame:
  "get_state (snd (validate_transaction_with_locks X ops fs tx tid m)) = get_state m"
  "is_tombstoned (snd (validate_transaction_with_locks X ops fs tx tid m)) = is_tombstoned m"
  using verify_inputs_frame [of X ops tx 0 "tx_inputs tx" m]
  by (auto simp: validate_transaction_with_locks_def split: option.splits sum.splits bool.splits prod.splits)

lemma settled_validate [simp]: "settled t out (snd (validate_transaction_with_locks X ops fs tx tid m)) = settled t out m"
  by (rule settled_cong) (simp_all add: validate_frame)

section \<open>The pool\<close>

definition pool_done :: "hash256 \<Rightarrow> hash256 \<Rightarrow> TransactionPool \<Rightarrow> bool" where
  "pool_done t parent p \<longleftrightarrow> dhas (confirmed p) t \<and> \<not> dhas (pending p) t \<and> \<not> dhas (pending p) parent"

lemma pool_done_mono:
  "pool_done t q p \<Longrightarrow> (\<And>k. dhas (pending p') k \<Longrightarrow> dhas (pending p) k) \<Longrightarrow>
   (dhas (confirmed p) t \<Longrightarrow> dhas (confirmed p') t) \<Longrightarrow> pool_done t q p'"
  by (auto simp: pool_done_def)

lemma fold_drop_pending:
  "confirmed (fold drop_pending ks p) = confirmed p"
  "dhas (pending (fold drop_pending ks p)) k \<longleftrightarrow> k \<notin> set ks \<and> dhas (pending p) k"
  by (induction ks arbitrary: p) (auto simp: frame_simps)

lemma pool_done_reject: "pool_done t q p \<Longrightarrow> pool_done t q (reject_transaction now tid reason p)"
  by (erule pool_done_mono) (auto simp: reject_transaction_def Let_def frame_simps)

lemma pool_done_stale: "pool_done t q p \<Longrightarrow> pool_done t q (snd (cleanup_stale_pending now age p))"
  by (erule pool_done_mono) (auto simp: cleanup_stale_pending_def Let_def fold_drop_pending)

lemma pool_done_fee: "pool_done t q p \<Longrightarrow> pool_done t q (snd (update_pending_fee tid fee p))"
  by (erule pool_done_mono) (auto simp: update_pending_fee_def frame_simps dhas_def split: option.splits if_splits)

lemma pool_done_finalize: "pool_done t q p \<Longrightarrow> pool_done t q (snd (finalize_transaction X tid p))"
  by (erule pool_done_mono)
    (auto simp: finalize_transaction_def confirm_transaction_def Let_def frame_simps split: option.splits if_splits)

lemma pool_done_direct: "pool_done t q p \<Longrightarrow> pool_done t q (add_finalized_direct X now tx fee p)"
  by (erule pool_done_mono) (auto simp: add_finalized_direct_def Let_def frame_simps split: if_splits)

lemma evict_low_fee_sel:
  "confirmed (snd (evict_low_fee_transactions n p)) = confirmed p"
  "dhas (pending (snd (evict_low_fee_transactions n p))) k \<Longrightarrow> dhas (pending p) k"
proof -
  define P where "P a \<longleftrightarrow> confirmed (snd a) = confirmed p \<and> (\<forall>k. dhas (pending (snd a)) k \<longrightarrow> dhas (pending p) k)"
    for a :: "nat \<times> TransactionPool"
  have "P (fold evict_one ks (0, p))" for ks
    by (rule fold_keeps) (auto simp: P_def evict_one_snd frame_simps split: if_splits)
  then have "P (evict_low_fee_transactions n p)" by (auto simp: evict_low_fee_transactions_def Let_def P_def)
  then show "confirmed (snd (evict_low_fee_transactions n p)) = confirmed p"
    "dhas (pending (snd (evict_low_fee_transactions n p))) k \<Longrightarrow> dhas (pending p) k"
    by (auto simp: P_def)
qed

lemma add_pending_sel:
  assumes "add_pending X now tx fee p = (r, p')"
  shows "confirmed p' = confirmed p"
    "dhas (pending p') k \<Longrightarrow> dhas (pending p) k \<or> k = txid X tx \<and> r = Inr ()"
    "r = Inr () \<Longrightarrow> get_pending p' (txid X tx) = Some tx \<and> \<not> dhas (confirmed p) (txid X tx) \<and> \<not> is_banned X (txid X tx)"
  using assms evict_low_fee_sel [of 1 p]
  by (auto simp: add_pending_def add_pending_with_submitter_def Let_def frame_simps get_pending_def
      simp del: One_nat_def split: if_splits)

lemma pool_done_add:
  assumes "pool_done t q p" "txid X tx \<noteq> q"
  shows "pool_done t q (snd (add_pending X now tx fee p))"
proof -
  obtain r p' where a: "add_pending X now tx fee p = (r, p')" by fastforce
  note sel = add_pending_sel [OF a]
  show ?thesis using assms sel(1) sel(2) [of t] sel(2) [of q] sel(3) by (auto simp: a pool_done_def)
qed

section \<open>Operations of the engine\<close>

definition eng_done :: "hash256 \<Rightarrow> OutPoint \<Rightarrow> 's Engine \<Rightarrow> bool" where
  "eng_done t out e \<longleftrightarrow> settled t out (en_mgr e) \<and> pool_done t (op_txid out) (en_pool e)"

lemma broadcast_sel [simp]:
  "en_mgr (broadcast msg e) = en_mgr e" "en_pool (broadcast msg e) = en_pool e"
  "en_tv (broadcast msg e) = en_tv e" "en_callback (broadcast msg e) = en_callback e"
  by (simp_all add: broadcast_def)

lemma fold_broadcast_sel [simp]:
  "en_mgr (fold (\<lambda>i. broadcast (f i)) is e) = en_mgr e" "en_pool (fold (\<lambda>i. broadcast (f i)) is e) = en_pool e"
  by (induction "is" arbitrary: e) simp_all

lemma upd_sel [simp]:
  "en_mgr (upd_mgr f e) = f (en_mgr e)" "en_pool (upd_mgr f e) = en_pool e" "en_tv (upd_mgr f e) = en_tv e"
  "en_mgr (upd_pool g e) = en_mgr e" "en_pool (upd_pool g e) = g (en_pool e)" "en_tv (upd_pool g e) = en_tv e"
  "en_mgr (upd_tv h e) = en_mgr e" "en_pool (upd_tv h e) = en_pool e" "en_tv (upd_tv h e) = h (en_tv e)"
  by (simp_all add: upd_mgr_def upd_pool_def upd_tv_def)

lemma eng_done_cong: "en_mgr e' = en_mgr e \<Longrightarrow> en_pool e' = en_pool e \<Longrightarrow> eng_done t out e' = eng_done t out e"
  by (simp add: eng_done_def)

lemma eng_done_upd:
  "eng_done t out (upd_tv h e) = eng_done t out e"
  "eng_done t out (broadcast msg e) = eng_done t out e"
  "settled t out (f (en_mgr e)) \<Longrightarrow> eng_done t out e \<Longrightarrow> eng_done t out (upd_mgr f e)"
  "pool_done t (op_txid out) (g (en_pool e)) \<Longrightarrow> eng_done t out e \<Longrightarrow> eng_done t out (upd_pool g e)"
  by (simp_all add: eng_done_def)

lemma lock_validate_done:
  assumes "eng_done t out e"
  shows "eng_done t out (snd (lock_and_validate_transaction X ops ck tx e))"
proof -
  obtain r m where l: "lock_inputs (ck_secs ck) (txid X tx) (tx_inputs tx) (en_mgr e) = (r, m)" by fastforce
  have m: "settled t out m" using settled_lock_inputs assms l by (metis eng_done_def snd_conv)
  show ?thesis
  proof (cases r)
    case (Inl err)
    then show ?thesis using m assms by (simp add: lock_and_validate_transaction_def l Let_def eng_done_def)
  next
    case (Inr u)
    have out: "out \<notin> in_previous_output ` set (tx_inputs tx)"
      using lock_inputs_settled [of _ _ _ "en_mgr e"] l Inr assms by (metis eng_done_def)
    obtain r' m' where v: "validate_transaction_with_locks X ops (en_fees e) tx (txid X tx) m = (r', m')" by fastforce
    have m': "settled t out m'" using m settled_validate [of t out X ops "en_fees e" tx "txid X tx" m] by (simp add: v)
    have "settled t out (fold (\<lambda>i. update_state (in_previous_output i) Unspent) (tx_inputs tx) m')"
      by (rule settled_updates [OF m' out])
    then show ?thesis using m' assms
      by (cases r') (simp_all add: lock_and_validate_transaction_def l Inr v Let_def eng_done_def)
  qed
qed

lemma reject_done: "eng_done t out e \<Longrightarrow> eng_done t out (reject_failed_voting_transaction ck tid reason e)"
  by (auto simp: reject_failed_voting_transaction_def Let_def eng_done_def pool_done_reject settled_unlock_inputs
      split: option.splits)

lemma auto_finalize_done:
  "eng_done t out e \<Longrightarrow> tid \<noteq> op_txid out \<Longrightarrow> eng_done t out (auto_finalize X ops ck tid tx e)"
  by (auto simp: auto_finalize_def Let_def eng_done_def settled_apply pool_done_finalize)

lemma settled_spent_by_other: "settled t out m \<Longrightarrow> tid \<noteq> t \<Longrightarrow> spent_by_other m tid out"
  by (auto simp: settled_def spent_by_other_def)

lemma spends_settled:
  "settled t out m \<Longrightarrow> out \<in> in_previous_output ` set is \<Longrightarrow> tid \<noteq> t \<Longrightarrow> inputs_already_spent_by_other m is tid"
  using settled_spent_by_other by (fastforce simp: inputs_already_spent_by_other_def list_ex_iff)

lemma voting_done:
  assumes "eng_done t out e" "get_pending (en_pool e) tid = Some tx" "out \<notin> in_previous_output ` set (tx_inputs tx)"
  shows "eng_done t out (start_voting X active ck tid tx' e)"
proof -
  have "settled t out (fold (\<lambda>i. update_state (in_previous_output i) st) (tx_inputs tx) (en_mgr e))" for st
    using assms by (intro settled_updates) (simp_all add: eng_done_def)
  then show ?thesis using assms(1,2)
    by (simp add: start_voting_def transition_to_voting_def Let_def eng_done_def)
qed

lemma process_cases:
  obtains
    (refused) err where "process_transaction X ops active ck tx fee e = (Inl err, e)"
  | (pool) f err p where "add_pending X (ck_instant ck) tx f (en_pool e) = (Inl err, p)"
      "\<not> inputs_already_spent_by_other (en_mgr e) (tx_inputs tx) (txid X tx)"
      "process_transaction X ops active ck tx fee e = (Inl (PoolFailed err), e\<lparr>en_pool := p\<rparr>)"
  | (voting) f p where "add_pending X (ck_instant ck) tx f (en_pool e) = (Inr (), p)"
      "\<not> inputs_already_spent_by_other (en_mgr e) (tx_inputs tx) (txid X tx)"
      "has_double_spend_conflict (e\<lparr>en_pool := p\<rparr>) (tx_inputs tx) (txid X tx)"
      "process_transaction X ops active ck tx fee e = (Inr (), start_voting X active ck (txid X tx) tx (e\<lparr>en_pool := p\<rparr>))"
  | (final) f p where "add_pending X (ck_instant ck) tx f (en_pool e) = (Inr (), p)"
      "\<not> inputs_already_spent_by_other (en_mgr e) (tx_inputs tx) (txid X tx)"
      "\<not> has_double_spend_conflict (e\<lparr>en_pool := p\<rparr>) (tx_inputs tx) (txid X tx)"
      "process_transaction X ops active ck tx fee e = (Inr (), auto_finalize X ops ck (txid X tx) tx (e\<lparr>en_pool := p\<rparr>))"
proof -
  define f where "f = (case fee of Some f \<Rightarrow> f | None \<Rightarrow> received_fee X ops e tx)"
  obtain r p where add: "add_pending X (ck_instant ck) tx f (en_pool e) = (r, p)" by fastforce
  have none: "inputs_already_spent_by_other (en_mgr e) (tx_inputs tx) (txid X tx) \<Longrightarrow> tx_inputs tx \<noteq> []"
    by (auto simp: inputs_already_spent_by_other_def)
  consider "active = []" | err where "active \<noteq> []" "structure_error X tx = Some err"
    | "active \<noteq> []" "structure_error X tx = None"
    by (cases "structure_error X tx") auto
  then show thesis
  proof cases
    case 3
    note pt = process_transaction_def [of X ops active ck tx fee e, unfolded Let_def, folded f_def, unfolded add]
    show thesis
    proof (cases "tx_inputs tx \<noteq> [] \<and> tx_version tx < 2
        \<or> inputs_already_spent_by_other (en_mgr e) (tx_inputs tx) (txid X tx)
        \<or> MAX_MEMPOOL_TRANSACTIONS \<le> pending_count (en_pool e)")
      case True
      then have "\<exists>err. process_transaction X ops active ck tx fee e = (Inl err, e)"
        using 3 none unfolding pt by (auto split: if_splits)
      then show thesis using refused by blast
    next
      case False
      then show thesis using 3 pool [of f _ p] voting [of f p] final [of f p] add unfolding pt
        by (cases r; cases "has_double_spend_conflict (e\<lparr>en_pool := p\<rparr>) (tx_inputs tx) (txid X tx)")
          (auto split: if_splits)
    qed
  qed (use refused in \<open>auto simp: process_transaction_def Let_def\<close>)
qed

lemma process_done:
  assumes d: "eng_done t out e" and tid: "txid X tx \<noteq> op_txid out"
  shows "eng_done t out (snd (process_transaction X ops active ck tx fee e))"
proof -
  have added: "eng_done t out (e\<lparr>en_pool := p\<rparr>)" if "add_pending X (ck_instant ck) tx f (en_pool e) = (r, p)" for f r p
    using d pool_done_add [OF _ tid, of t "en_pool e" "ck_instant ck" f] that by (simp add: eng_done_def)
  show ?thesis
  proof (cases rule: process_cases [of X ops active ck tx fee e])
    case (voting f p)
    note sel = add_pending_sel [OF voting(1)]
    have "txid X tx \<noteq> t" using sel(3) d by (auto simp: eng_done_def pool_done_def)
    then have "out \<notin> in_previous_output ` set (tx_inputs tx)"
      using voting(2) spends_settled [of t out "en_mgr e" "tx_inputs tx" "txid X tx"] d by (auto simp: eng_done_def)
    then show ?thesis using sel(3) voting_done [OF added [OF voting(1)]] by (simp add: voting)
  qed (use d added tid in \<open>auto simp: auto_finalize_done\<close>)
qed

lemma eng_done_unlock: "eng_done t out e \<Longrightarrow> eng_done t out (upd_mgr (unlock_transaction_inputs tid is) e)"
  by (simp add: eng_done_def settled_unlock_inputs)

lemma submit_done:
  assumes d: "eng_done t out e" and tid: "txid X tx \<noteq> op_txid out"
  shows "eng_done t out (snd (submit_transaction X ops active ck tx e))"
proof -
  obtain r e1 where l: "lock_and_validate_transaction X ops ck tx e = (r, e1)" by fastforce
  have e1: "eng_done t out e1" using lock_validate_done [OF d, of X ops ck tx] by (simp add: l)
  have p: "eng_done t out (snd (process_transaction X ops active ck tx fee (broadcast msg e1)))" for fee msg
    by (rule process_done [OF _ tid]) (simp add: e1 eng_done_upd)
  have "eng_done t out e2"
    if "process_transaction X ops active ck tx fee (broadcast msg e1) = (x, e2)" for x e2 fee msg
    using p [of fee msg] that by simp
  then show ?thesis using d e1 unfolding submit_transaction_def Let_def l
    by (auto simp: eng_done_unlock split: sum.splits prod.splits)
qed

lemma finalize_voted_done:
  assumes "eng_done t out e"
  shows "eng_done t out (finalize_voted X ops ck tid w e)"
proof (cases "get_pending (en_pool e) tid")
  case None
  then show ?thesis using assms
    by (auto simp: finalize_voted_def Let_def eng_done_def pool_done_finalize split: sum.splits)
next
  case (Some tx)
  then have "tid \<noteq> op_txid out" using assms by (auto simp: get_pending_def eng_done_def pool_done_def dhas_def)
  then show ?thesis using assms Some
    by (auto simp: finalize_voted_def Let_def eng_done_def pool_done_finalize settled_apply split: sum.splits)
qed

lemma eng_done_end: "eng_done t out (end_voting tid e) = eng_done t out e"
  by (simp add: end_voting_def eng_done_upd)

lemma poll_done: "eng_done t out e \<Longrightarrow> eng_done t out (snd (vote_poll X ops active ck tid el dl e))"
  unfolding vote_poll_def Let_def
  by (simp add: eng_done_end finalize_voted_done reject_done split: prod.split)

lemma retry_finalize_done:
  assumes "eng_done t out (snd a)" "txid X tx \<noteq> op_txid out"
  shows "eng_done t out (snd (retry_finalize X ops ck tx a))"
proof -
  obtain fin rej e where a: "a = ((fin, rej), e)" by (metis prod.exhaust)
  define comps where "comps = get_conflicting_pending (en_pool e) (tx_inputs tx) (txid X tx)"
  define e1 where "e1 = fold (\<lambda>(ctid, _). reject_failed_voting_transaction ck ctid
                 ''Superseded by higher-priority pending transaction'') comps e"
  have "eng_done t out e1" unfolding e1_def using assms(1)
    by (intro fold_keeps [where P = "eng_done t out"]) (auto simp: a reject_done)
  then show ?thesis using assms(2) pool_done_finalize [of t "op_txid out" "en_pool e1" X "txid X tx"]
    by (auto simp: retry_finalize_def a Let_def comps_def [symmetric] e1_def [symmetric] eng_done_def settled_apply
        split: prod.splits bool.splits)
qed

lemma retry_one_done:
  assumes "eng_done t out (snd a)"
  shows "eng_done t out (snd (retry_one X ops ck ent a))"
proof -
  obtain tx sf ip at fin rej e where ent: "ent = (tx, sf, ip, at)" and a: "a = ((fin, rej), e)"
    by (metis prod.exhaust)
  let ?tid = "txid X tx"
  define e1 where "e1 = upd_mgr (fold (relock (ck_secs ck) ?tid) (tx_inputs tx)) e"
  have e: "eng_done t out e" using assms by (simp add: a)
  have e1: "eng_done t out e1" unfolding e1_def using e
    by (intro eng_done_upd fold_keeps [where P = "settled t out"]) (auto simp: eng_done_def settled_relock)
  obtain r m where v: "validate_transaction_with_locks X ops (en_fees e1) tx ?tid (en_mgr e1) = (r, m)" by fastforce
  have e2: "eng_done t out (e1\<lparr>en_mgr := m\<rparr>)"
    using e1 settled_validate [of t out X ops "en_fees e1" tx ?tid "en_mgr e1"] by (simp add: v eng_done_def)
  have e3: "eng_done t out (upd_pool (\<lambda>p. snd (update_pending_fee ?tid fee p)) (e1\<lparr>en_mgr := m\<rparr>))" for fee
    using e2 by (simp add: eng_done_def pool_done_fee)
  have parent: "?tid \<noteq> op_txid out" if "pool_is_pending (en_pool e) ?tid"
    using that e by (auto simp: pool_is_pending_def eng_done_def pool_done_def)
  show ?thesis using e e2 e3 parent
    unfolding retry_one_def ent a prod.case Let_def e1_def [symmetric] v
    by (cases r) (auto simp: reject_done retry_finalize_done)
qed

lemma retry_done:
  "eng_done t out e \<Longrightarrow> eng_done t out (snd (retry_stuck_pending_transactions X ops ck e))"
  unfolding retry_stuck_pending_transactions_def
  by (rule fold_keeps [where P = "\<lambda>a. eng_done t out (snd a)"]) (auto simp: retry_one_done)

lemma evict_stale_done:
  assumes "eng_done t out e"
  shows "eng_done t out (snd (evict_stale_pending_transactions X ck age e))"
proof -
  obtain txs p where c: "cleanup_stale_pending (ck_instant ck) age (en_pool e) = (txs, p)" by fastforce
  have "eng_done t out (e\<lparr>en_pool := p\<rparr>)"
    using assms pool_done_stale [of t "op_txid out" "en_pool e" "ck_instant ck" age] by (simp add: eng_done_def c)
  then show ?thesis unfolding evict_stale_pending_transactions_def c
    by (auto intro!: fold_keeps [where P = "eng_done t out"] eng_done_upd fold_keeps [where P = "settled t out"]
        simp: eng_done_upd settled_release) (auto simp: eng_done_def)
qed

end
