(* ===== verification/Node_Props.thy ===== *)
theory Node_Props
  imports Tx_Engine_Props
begin

text \<open>
  Safety of a node over traces of engine operations and network messages: what a finalized
  transaction spends stays spent. The last section sets up concrete nodes for the witnesses.
\<close>

section \<open>Calls\<close>

datatype node_call =
    CallSubmit Transaction
  | CallProcess Transaction "u64 option"
  | CallPoll hash256 duration duration
  | CallRetry
  | CallEvict duration
  | CallReject hash256 string
  | InTransaction Transaction
  | InFinalized hash256 Transaction
  | InMempool "MempoolSyncEntry list"
  | InVoteRequest hash256 hash256 u64 "Transaction option"
  | InVote TimeVote
  | InProof TimeProof

definition node_step ::
    "extern \<Rightarrow> 's UtxoStorage \<Rightarrow> Masternode list \<times> clock \<times> node_call \<Rightarrow> 's Node \<Rightarrow> 's Node" where
  "node_step X ops c n = (case c of (active, ck, call) \<Rightarrow> case call of
     CallSubmit tx \<Rightarrow> upd_engine (\<lambda>e. snd (submit_transaction X ops active ck tx e)) n
   | CallProcess tx fee \<Rightarrow> upd_engine (\<lambda>e. snd (process_transaction X ops active ck tx fee e)) n
   | CallPoll tid el dl \<Rightarrow> upd_engine (\<lambda>e. snd (vote_poll X ops active ck tid el dl e)) n
   | CallRetry \<Rightarrow> upd_engine (\<lambda>e. snd (retry_stuck_pending_transactions X ops ck e)) n
   | CallEvict age \<Rightarrow> upd_engine (\<lambda>e. snd (evict_stale_pending_transactions X ck age e)) n
   | CallReject tid reason \<Rightarrow> upd_engine (reject_failed_voting_transaction ck tid reason) n
   | InTransaction tx \<Rightarrow> handle_transaction_broadcast X ops active ck tx n
   | InFinalized tid tx \<Rightarrow> handle_transaction_finalized X ops ck tid tx n
   | InMempool es \<Rightarrow> handle_mempool_sync_response X ops active ck es n
   | InVoteRequest tid com slot tx \<Rightarrow> snd (handle_timevote_request X ops active ck tid com slot tx n)
   | InVote v \<Rightarrow> handle_timevote_response X ops active ck v n
   | InProof p \<Rightarrow> handle_timeproof_broadcast X active p n)"

definition node_run ::
    "extern \<Rightarrow> 's UtxoStorage \<Rightarrow> (Masternode list \<times> clock \<times> node_call) list \<Rightarrow> 's Node \<Rightarrow> 's Node" where
  "node_run X ops calls n = fold (node_step X ops) calls n"

text \<open>The transactions a call brings in, whose outputs it may create.\<close>

definition call_txids :: "extern \<Rightarrow> node_call \<Rightarrow> hash256 set" where
  "call_txids X call = (case call of
     CallSubmit tx \<Rightarrow> {txid X tx}
   | CallProcess tx _ \<Rightarrow> {txid X tx}
   | InTransaction tx \<Rightarrow> {txid X tx}
   | InFinalized tid tx \<Rightarrow> {tid, txid X tx}
   | InMempool es \<Rightarrow> (\<lambda>ent. txid X (ms_tx ent)) ` set es
   | InVoteRequest _ _ _ tx \<Rightarrow> txid X ` set_option tx
   | _ \<Rightarrow> {})"

section \<open>Handlers keep a settled output\<close>

lemma upd_engine_sel [simp]: "nd_engine (upd_engine f n) = f (nd_engine n)" "nd_engine (gossip msg n) = nd_engine n"
  by (simp_all add: upd_engine_def gossip_def)

lemma eng_done_mgr: "eng_done t out e \<Longrightarrow> settled t out m \<Longrightarrow> eng_done t out (e\<lparr>en_mgr := m\<rparr>)"
  by (simp add: eng_done_def)

lemma eng_done_pool: "eng_done t out e \<Longrightarrow> pool_done t (op_txid out) p \<Longrightarrow> eng_done t out (e\<lparr>en_pool := p\<rparr>)"
  by (simp add: eng_done_def)

lemma eng_done_fields [simp]:
  "eng_done t out (e\<lparr>en_tv := tv\<rparr>) = eng_done t out e"
  "eng_done t out (e\<lparr>en_proofs := ps\<rparr>) = eng_done t out e"
  by (simp_all add: eng_done_def)

lemma lock_validate_result:
  "eng_done t out e \<Longrightarrow> lock_and_validate_transaction X ops ck tx e = (r, e') \<Longrightarrow> eng_done t out e'"
  using lock_validate_done [of t out e X ops ck tx] by simp

lemma process_result:
  "eng_done t out e \<Longrightarrow> txid X tx \<noteq> op_txid out \<Longrightarrow> process_transaction X ops active ck tx fee e = (r, e') \<Longrightarrow>
   eng_done t out e'"
  using process_done [of t out e X tx ops active ck fee] by simp

lemma add_result:
  "eng_done t out e \<Longrightarrow> txid X tx \<noteq> op_txid out \<Longrightarrow> add_pending X now tx fee (en_pool e) = (r, p) \<Longrightarrow>
   eng_done t out (e\<lparr>en_pool := p\<rparr>)"
  using pool_done_add [of t "op_txid out" "en_pool e" X tx now fee] by (simp add: eng_done_def)

lemma validate_result:
  assumes "eng_done t out e" "validate_transaction X ops fs tx (en_mgr e) = (r, m)"
  shows "eng_done t out (e\<lparr>en_mgr := m\<rparr>)"
proof -
  have "m = snd (validate_transaction_with_locks X ops fs tx (txid X tx) (en_mgr e))"
    using assms(2) by (auto simp: validate_transaction_def split: prod.splits sum.splits)
  then show ?thesis using assms(1) by (simp add: eng_done_def)
qed

lemma broadcast_tx_done:
  assumes d: "eng_done t out (nd_engine n)" and tid: "txid X tx \<noteq> op_txid out"
  shows "eng_done t out (nd_engine (handle_transaction_broadcast X ops active ck tx n))"
proof -
  obtain dup f where c: "check_seen (ck_instant ck) (txid X tx) (nd_seen_transactions n) = (dup, f)" by (rule prod.exhaust)
  obtain r e1 where l: "lock_and_validate_transaction X ops ck tx (nd_engine n) = (r, e1)" by (rule prod.exhaust)
  have e1: "eng_done t out e1" by (rule lock_validate_result [OF d l])
  show ?thesis
  proof (cases r)
    case (Inl err)
    then show ?thesis using d e1 by (simp add: handle_transaction_broadcast_def Let_def c l)
  next
    case (Inr fee)
    obtain r' e2 where p: "process_transaction X ops active ck tx (Some fee) e1 = (r', e2)" by (rule prod.exhaust)
    have "eng_done t out e2" by (rule process_result [OF e1 tid p])
    then show ?thesis using d Inr by (cases r') (simp_all add: handle_transaction_broadcast_def Let_def c l p)
  qed
qed

lemma settled_create_if:
  "settled t out m \<Longrightarrow> tid \<noteq> op_txid out \<Longrightarrow> settled t out (fold (create_output_if ops tid) xs m)"
  by (rule fold_keeps [where P = "settled t out"]) (auto simp: settled_create)

lemma admit_done:
  assumes d: "eng_done t out e" and tx: "txid X tx \<noteq> op_txid out"
  shows "eng_done t out (snd (admit_finalized X ops ck tid tx e))"
proof (cases "has_transaction (en_pool e) tid")
  case True
  obtain r m where v: "validate_transaction X ops (en_fees e) tx (en_mgr e) = (r, m)" by (rule prod.exhaust)
  show ?thesis using True validate_result [OF d v] by (cases r) (simp_all add: admit_finalized_def v)
next
  case False
  obtain r e1 where l: "lock_and_validate_transaction X ops ck tx e = (r, e1)" by (rule prod.exhaust)
  have "eng_done t out e1" by (rule lock_validate_result [OF d l])
  then show ?thesis using False tx by (cases r) (simp_all add: admit_finalized_def l eng_done_def pool_done_add)
qed

lemma finalize_announced_done:
  assumes "eng_done t out e" "tid \<noteq> op_txid out"
  shows "eng_done t out (finalize_announced X ops ck tid tx e)"
  using assms pool_done_finalize [of t "op_txid out" "en_pool e" X tid]
  by (auto simp: finalize_announced_def eng_done_def settled_apply split: prod.splits bool.splits)

lemma announced_done:
  assumes d: "eng_done t out (nd_engine n)" and tid: "tid \<noteq> op_txid out" and tx: "txid X tx \<noteq> op_txid out"
  shows "eng_done t out (nd_engine (apply_announced X ops ck tid tx n))"
proof -
  obtain r e1 where a: "admit_finalized X ops ck tid tx (nd_engine n) = (r, e1)" by (rule prod.exhaust)
  have e1: "eng_done t out e1" using admit_done [OF d tx, of ops ck tid] by (simp add: a)
  have "eng_done t out (upd_mgr (fold (create_output_if ops tid) xs) (nd_engine n))" for xs
    using d tid by (simp add: eng_done_def settled_create_if)
  then show ?thesis using d e1 finalize_announced_done [OF e1 tid]
    by (cases r) (simp_all add: apply_announced_def Let_def a)
qed

lemma finalized_msg_done:
  assumes "eng_done t out (nd_engine n)" "tid \<noteq> op_txid out" "txid X tx \<noteq> op_txid out"
  shows "eng_done t out (nd_engine (handle_transaction_finalized X ops ck tid tx n))"
proof -
  obtain dup f where c: "check_seen (ck_instant ck) tid (nd_seen_finalized n) = (dup, f)" by (rule prod.exhaust)
  have "eng_done t out (nd_engine (n\<lparr>nd_seen_finalized := f\<rparr>))" using assms(1) by simp
  from announced_done [OF this assms(2,3)] show ?thesis
    using assms(1) by (simp add: handle_transaction_finalized_def c Let_def)
qed

lemma settled_marks:
  "settled t out m \<Longrightarrow> settled t out (fold (\<lambda>i. mark_timevote_finalized ops now (in_previous_output i) tid) is m)"
  by (rule fold_keeps [where P = "settled t out"]) (auto simp: settled_mark)

lemma sync_entry_done:
  assumes d: "eng_done t out (nd_engine n)" and tid: "txid X (ms_tx ent) \<noteq> op_txid out"
  shows "eng_done t out (nd_engine (sync_entry X ops active ck ent n))"
proof -
  have "eng_done t out (sync_finalized X ops ck ent (nd_engine n))"
    unfolding sync_finalized_def Let_def using d tid
    by (simp add: eng_done_def pool_done_direct settled_create_if settled_marks)
  moreover have "eng_done t out (snd (process_transaction X ops active ck (ms_tx ent) fee (nd_engine n)))" for fee
    by (rule process_done [OF d tid])
  ultimately show ?thesis using d by (simp add: sync_entry_def Let_def)
qed

lemma sync_done:
  "eng_done t out (nd_engine n) \<Longrightarrow> op_txid out \<notin> (\<lambda>ent. txid X (ms_tx ent)) ` set es \<Longrightarrow>
   eng_done t out (nd_engine (handle_mempool_sync_response X ops active ck es n))"
  unfolding handle_mempool_sync_response_def
  by (rule fold_keeps [where P = "\<lambda>n. eng_done t out (nd_engine n)"]) (auto simp: image_iff intro!: sync_entry_done)

lemma requested_done:
  assumes d: "eng_done t out e" and tx: "op_txid out \<notin> txid X ` set_option carried"
  shows "eng_done t out (snd (requested_tx X ops ck tid carried e))"
proof (cases carried)
  case None
  then show ?thesis using d by (simp add: requested_tx_def split: option.split)
next
  case (Some tx)
  obtain r e1 where l: "lock_and_validate_transaction X ops ck tx e = (r, e1)" by (rule prod.exhaust)
  have e1: "eng_done t out e1" by (rule lock_validate_result [OF d l])
  have "eng_done t out (snd (case add_pending X (ck_instant ck) tx fee (en_pool e1) of
      (Inl _, p) \<Rightarrow> (None, e1\<lparr>en_pool := p\<rparr>) | (Inr _, p) \<Rightarrow> (Some tx, e1\<lparr>en_pool := p\<rparr>)))" for fee
  proof -
    obtain r p where a: "add_pending X (ck_instant ck) tx fee (en_pool e1) = (r, p)" by (rule prod.exhaust)
    show ?thesis using add_result [OF e1 _ a] tx by (cases r) (auto simp: a Some)
  qed
  then show ?thesis using d e1 by (cases r) (simp_all add: requested_tx_def Some l split: option.split)
qed

lemma decide_done:
  assumes d: "eng_done t out e"
  shows "eng_done t out (snd (decide_vote X ops tid com tx_opt e))"
proof (cases tx_opt)
  case (Some tx)
  obtain r m where v: "validate_transaction X ops (en_fees e) tx (en_mgr e) = (r, m)" by (rule prod.exhaust)
  show ?thesis using d validate_result [OF d v] by (cases r) (simp_all add: decide_vote_def Some v)
qed (simp add: decide_vote_def d)

lemma vote_request_done:
  assumes "eng_done t out (nd_engine n)" "op_txid out \<notin> txid X ` set_option carried"
  shows "eng_done t out (nd_engine (snd (handle_timevote_request X ops active ck tid com slot carried n)))"
proof -
  obtain x e1 where r: "requested_tx X ops ck tid carried (nd_engine n) = (x, e1)" by (rule prod.exhaust)
  have "eng_done t out e1" using requested_done [OF assms, of ops ck tid] by (simp add: r)
  from decide_done [OF this, of X ops tid com x] show ?thesis
    by (auto simp: handle_timevote_request_def r split: prod.split)
qed

lemma by_votes_done:
  assumes d: "eng_done t out e"
  shows "eng_done t out (finalize_by_votes X ops ck tid w e)"
proof (cases "get_pending (en_pool e) tid")
  case None
  then have "fst (finalize_transaction X tid (en_pool e)) = False"
    by (simp add: finalize_transaction_def confirm_transaction_def get_pending_def split: option.split)
  then show ?thesis using d pool_done_finalize [of t "op_txid out" "en_pool e" X tid]
    by (auto simp: finalize_by_votes_def Let_def eng_done_def split: prod.split bool.split)
next
  case (Some tx)
  then have "tid \<noteq> op_txid out" using d by (auto simp: get_pending_def eng_done_def pool_done_def dhas_def)
  then show ?thesis using d Some pool_done_finalize [of t "op_txid out" "en_pool e" X tid]
    by (auto simp: finalize_by_votes_def Let_def eng_done_def settled_apply split: prod.split bool.split sum.split)
qed

lemma vote_done:
  "eng_done t out (nd_engine n) \<Longrightarrow> eng_done t out (nd_engine (handle_timevote_response X ops active ck v n))"
  by (simp add: handle_timevote_response_def Let_def by_votes_done split: prod.split sum.split)

lemma step_done:
  assumes d: "eng_done t out (nd_engine n)" and new: "op_txid out \<notin> call_txids X call"
  shows "eng_done t out (nd_engine (node_step X ops (active, ck, call) n))"
  using new
  by (cases call)
    (auto simp: node_step_def call_txids_def d submit_done process_done poll_done retry_done evict_stale_done
      reject_done broadcast_tx_done finalized_msg_done sync_done vote_request_done vote_done
      handle_timeproof_broadcast_def split: sum.split)

lemma run_done:
  "eng_done t out (nd_engine n) \<Longrightarrow> \<forall>(_, _, call) \<in> set calls. op_txid out \<notin> call_txids X call \<Longrightarrow>
   eng_done t out (nd_engine (node_run X ops calls n))"
  unfolding node_run_def
  by (rule fold_keeps [where P = "\<lambda>n. eng_done t out (nd_engine n)"]) (auto simp: step_done)

section \<open>A submitted transaction settles its inputs\<close>

definition locked_by :: "hash256 \<Rightarrow> OutPoint \<Rightarrow> 's mgr \<Rightarrow> bool" where
  "locked_by tid out m \<longleftrightarrow> (\<exists>at. get_state m out = Some (Locked tid at))"

lemma lock_locks: "lock_utxo now out tid m = (Inr u, m') \<Longrightarrow> locked_by tid out m'"
  by (auto simp: lock_utxo_def locked_by_def get_state_def [symmetric] split: if_splits option.splits UTXOState.splits)

lemma lock_keeps: "locked_by tid out m \<Longrightarrow> lock_utxo now out' tid m = (r, m') \<Longrightarrow> locked_by tid out m'"
  by (cases "out' = out")
    (auto simp: lock_utxo_def locked_by_def get_state_def [symmetric] split: if_splits option.splits UTXOState.splits)

lemma lock_inputs_keeps: "locked_by tid out m \<Longrightarrow> lock_inputs now tid is m = (r, m') \<Longrightarrow> locked_by tid out m'"
proof (induction "is" arbitrary: m)
  case (Cons i "is")
  obtain r1 m1 where l: "lock_utxo now (in_previous_output i) tid m = (r1, m1)" by (rule prod.exhaust)
  show ?case using Cons.IH [of m1] lock_keeps [OF Cons.prems(1) l] Cons.prems(2) by (cases r1) (auto simp: l)
qed simp

lemma lock_inputs_locks:
  "lock_inputs now tid is m = (Inr u, m') \<Longrightarrow> i \<in> set is \<Longrightarrow> locked_by tid (in_previous_output i) m'"
proof (induction "is" arbitrary: m)
  case (Cons j "is")
  obtain r1 m1 where l: "lock_utxo now (in_previous_output j) tid m = (r1, m1)" by (rule prod.exhaust)
  then have r: "r1 = Inr ()" "lock_inputs now tid is m1 = (Inr u, m')" using Cons.prems(1) by (cases r1; simp)+
  show ?case
  proof (cases "i \<in> set is")
    case False
    then have "locked_by tid (in_previous_output i) m1" using Cons.prems(2) lock_locks l r(1) by auto
    then show ?thesis using lock_inputs_keeps r(2) by blast
  qed (use Cons.IH [OF r(2)] in simp)
qed simp

lemma mark_locked:
  assumes "locked_by tid out m \<or> settled tid out m"
  shows "settled tid out (mark_timevote_finalized ops now out tid m)"
  using assms
proof
  assume "locked_by tid out m"
  then show ?thesis
    by (auto simp: locked_by_def mark_timevote_finalized_def refuses_finalize_def settled_def Let_def record_spent_def
        get_state_def set_state_def is_tombstoned_def)
qed (rule settled_mark)

lemma mark_other:
  "locked_by tid out m \<Longrightarrow> out' \<noteq> out \<Longrightarrow> locked_by tid out (mark_timevote_finalized ops now out' tid m)"
  by (auto simp: locked_by_def mark_timevote_finalized_def Let_def record_spent_def unindex_stored_def
      remove_from_address_index_def get_state_def set_state_def split: option.splits sum.splits)

lemma marks_settle:
  "out \<in> in_previous_output ` set is \<Longrightarrow> locked_by tid out m \<or> settled tid out m \<Longrightarrow>
   settled tid out (fold (\<lambda>i. mark_timevote_finalized ops now (in_previous_output i) tid) is m)"
proof (induction "is" arbitrary: m)
  case (Cons i "is")
  show ?case
  proof (cases "in_previous_output i = out")
    case True
    then show ?thesis by (simp add: mark_locked [OF Cons.prems(2)] settled_marks)
  next
    case False
    then show ?thesis using Cons.IH [of "mark_timevote_finalized ops now (in_previous_output i) tid m"] Cons.prems
      by (auto intro: mark_other settled_mark)
  qed
qed simp

lemma apply_settles:
  assumes "out \<in> in_previous_output ` set (tx_inputs tx)" "locked_by tid out m" "op_txid out \<noteq> tid"
  shows "settled tid out (apply_finalized ops now tid tx m)"
  unfolding apply_finalized_def
  by (rule fold_keeps [where P = "settled tid out"]) (use assms in \<open>auto intro!: settled_create marks_settle\<close>)

lemma finalize_moves:
  "get_pending p tid = Some tx \<Longrightarrow> \<not> is_banned X tid \<Longrightarrow>
   dhas (confirmed (snd (finalize_transaction X tid p))) tid \<and> \<not> dhas (pending (snd (finalize_transaction X tid p))) tid"
  by (auto simp: get_pending_def finalize_transaction_def confirm_transaction_def Let_def frame_simps)

lemma submit_settles:
  assumes s: "submit_transaction X ops active ck tx e = (Inr tid, e1)" and fin: "is_finalized (en_pool e1) (txid X tx)"
    and out: "out \<in> in_previous_output ` set (tx_inputs tx)" "op_txid out \<noteq> txid X tx"
  shows "settled (txid X tx) out (en_mgr e1)" "dhas (confirmed (en_pool e1)) (txid X tx)"
    "\<not> dhas (pending (en_pool e1)) (txid X tx)"
proof -
  let ?tid = "txid X tx"
  obtain r m where l: "lock_inputs (ck_secs ck) ?tid (tx_inputs tx) (en_mgr e) = (r, m)" by (rule prod.exhaust)
  obtain r' m' where v: "validate_transaction_with_locks X ops (en_fees e) tx ?tid m = (r', m')" by (rule prod.exhaust)
  define e0 where "e0 = fold (\<lambda>i. broadcast (MsgUtxoState (in_previous_output i) (Locked ?tid (ck_secs ck))))
    (tx_inputs tx) (e\<lparr>en_mgr := m'\<rparr>)"
  obtain fee where r: "r = Inr ()" "r' = Inr fee"
      and p: "process_transaction X ops active ck tx (Some fee) (broadcast (MsgTransaction tx) e0) = (Inr (), e1)"
    using s unfolding submit_transaction_def lock_and_validate_transaction_def Let_def l
    by (cases r; cases r') (auto simp: v e0_def split: if_splits prod.splits sum.splits)
  have "get_state m' = get_state m" using validate_frame(1) [of X ops "en_fees e" tx ?tid m] by (simp add: v)
  then have lk: "locked_by ?tid out (en_mgr (broadcast (MsgTransaction tx) e0))"
    using lock_inputs_locks l r(1) out(1) by (fastforce simp: e0_def locked_by_def)
  show "settled ?tid out (en_mgr e1)" "dhas (confirmed (en_pool e1)) ?tid" "\<not> dhas (pending (en_pool e1)) ?tid"
  proof (atomize (full), cases rule: process_cases [of X ops active ck tx "Some fee" "broadcast (MsgTransaction tx) e0"])
    case (voting f p')
    then have "en_pool e1 = p'" using p
      by (auto simp: start_voting_def transition_to_voting_def Let_def split: option.splits)
    then show "settled ?tid out (en_mgr e1) \<and> dhas (confirmed (en_pool e1)) ?tid \<and> \<not> dhas (pending (en_pool e1)) ?tid"
      using fin add_pending_sel [OF voting(1)] by (simp add: is_finalized_def)
  next
    case (final f p')
    note sel = add_pending_sel [OF final(1)]
    have e1: "e1 = auto_finalize X ops ck ?tid tx (broadcast (MsgTransaction tx) e0\<lparr>en_pool := p'\<rparr>)" using p final by simp
    show "settled ?tid out (en_mgr e1) \<and> dhas (confirmed (en_pool e1)) ?tid \<and> \<not> dhas (pending (en_pool e1)) ?tid"
      using finalize_moves [of p' ?tid tx X] sel(3) apply_settles [OF out(1) lk out(2)]
      by (auto simp: e1 auto_finalize_def Let_def is_finalized_def)
  qed (use p in simp_all)
qed

section \<open>An uncontested submission is final at once\<close>

lemma lock_inputs_ok:
  "\<forall>i \<in> set is. \<not> is_collateral_locked m (in_previous_output i)
     \<and> (get_state m (in_previous_output i) = Some Unspent \<or> locked_by tid (in_previous_output i) m) \<Longrightarrow>
   \<exists>m'. lock_inputs now tid is m = (Inr (), m')"
proof (induction "is" arbitrary: m)
  case (Cons i "is")
  let ?out = "in_previous_output i"
  have "\<exists>m1. lock_utxo now ?out tid m = (Inr (), m1) \<and> (m1 = m \<or> m1 = set_state ?out (Locked tid now) m)"
    using Cons.prems by (auto simp: lock_utxo_def locked_by_def get_state_def)
  then obtain m1 where l: "lock_utxo now ?out tid m = (Inr (), m1)" "m1 = m \<or> m1 = set_state ?out (Locked tid now) m"
    by blast
  have c: "is_collateral_locked m1 out' = is_collateral_locked m out'" for out'
    using l(2) by (auto simp: is_collateral_locked_def set_state_def)
  have g: "get_state m1 out' = get_state m out' \<or> locked_by tid out' m1" for out'
    using l(2) by (auto simp: locked_by_def)
  have k: "locked_by tid out' m \<Longrightarrow> locked_by tid out' m1" for out'
    using l(2) by (auto simp: locked_by_def)
  have "\<exists>m'. lock_inputs now tid is m1 = (Inr (), m')"
  proof (rule Cons.IH, rule ballI)
    fix j assume "j \<in> set is"
    then have "\<not> is_collateral_locked m (in_previous_output j)
        \<and> (get_state m (in_previous_output j) = Some Unspent \<or> locked_by tid (in_previous_output j) m)"
      using Cons.prems by simp
    then show "\<not> is_collateral_locked m1 (in_previous_output j)
        \<and> (get_state m1 (in_previous_output j) = Some Unspent \<or> locked_by tid (in_previous_output j) m1)"
      using c g [of "in_previous_output j"] k [of "in_previous_output j"] by auto
  qed
  then show ?case by (simp add: l(1))
qed simp

lemma conflict_after_add:
  assumes a: "add_pending X now tx fee p = (Inr (), p')" and c: "\<not> has_conflicting_transaction p ins (txid X tx)"
  shows "\<not> has_conflicting_transaction p' ins (txid X tx)"
proof -
  have "set (pending (snd (evict_low_fee_transactions n p))) \<subseteq> set (pending p)" for n
  proof -
    have "set (pending (snd (fold evict_one ks (0, p)))) \<subseteq> set (pending p)" for ks
      by (rule fold_keeps [where P = "\<lambda>a. set (pending (snd a)) \<subseteq> set (pending p)"])
        (auto simp: evict_one_snd frame_simps dest: set_dremove_subset [THEN subsetD])
    then show ?thesis by (simp add: evict_low_fee_transactions_def Let_def)
  qed
  moreover have "set (dput k v q) \<subseteq> insert (k, v) (set q)" for k v and q :: pool_map
    by (induction q) auto
  ultimately have "set (pending p') \<subseteq> insert (txid X tx, e) (set (pending p))"
    if "e = new_entry X now tx fee None" for e
    using a that unfolding add_pending_def
    by (cases rule: add_pending_cases [of X now tx fee None p]) (auto simp: frame_simps; blast)+
  then show ?thesis using c add_pending_sel(1) [OF a]
    by (auto simp: has_conflicting_transaction_def pool_inputs_overlap_def list_ex_iff split: if_splits)
qed

text \<open>What a submission needs to be final at once.\<close>

definition uncontested ::
    "extern \<Rightarrow> 's UtxoStorage \<Rightarrow> Masternode list \<Rightarrow> clock \<Rightarrow> Transaction \<Rightarrow> u64 \<Rightarrow> 's Engine \<Rightarrow> bool" where
  "uncontested X ops active ck tx fee e \<longleftrightarrow>
     en_callback e \<and> active \<noteq> [] \<and> tx_inputs tx \<noteq> [] \<and> tx_outputs tx \<noteq> [] \<and> 2 \<le> tx_version tx
     \<and> (\<forall>i \<in> set (tx_inputs tx). \<not> is_collateral_locked (en_mgr e) (in_previous_output i)
          \<and> get_state (en_mgr e) (in_previous_output i) = Some Unspent
          \<and> \<not> is_tombstoned (en_mgr e) (in_previous_output i))
     \<and> fst (validate_transaction_with_locks X ops (en_fees e) tx (txid X tx)
         (snd (lock_inputs (ck_secs ck) (txid X tx) (tx_inputs tx) (en_mgr e)))) = Inr fee
     \<and> pending_count (en_pool e) < MAX_MEMPOOL_TRANSACTIONS
     \<and> fst (add_pending X (ck_instant ck) tx fee (en_pool e)) = Inr ()
     \<and> \<not> has_conflicting_transaction (en_pool e) (tx_inputs tx) (txid X tx)"

lemma lock_inputs_tombs: "is_tombstoned (snd (lock_inputs now tid is m)) = is_tombstoned m"
proof (induction "is" arbitrary: m)
  case (Cons i "is")
  obtain r m1 where l: "lock_utxo now (in_previous_output i) tid m = (r, m1)" by (rule prod.exhaust)
  have "is_tombstoned m1 = is_tombstoned m"
    using l by (auto simp: lock_utxo_def split: if_splits option.splits UTXOState.splits)
  then show ?case using Cons.IH [of m1] by (cases r) (simp_all add: l)
qed simp

lemma locked_not_spent:
  "locked_by tid out m \<Longrightarrow> \<not> owned_by_other (get_state m out) tid"
  "locked_by tid out m \<Longrightarrow> \<not> is_tombstoned m out \<Longrightarrow> \<not> spent_by_other m tid out"
  by (auto simp: locked_by_def owned_by_other_def spent_by_other_def)

lemma submit_uncontested:
  assumes "uncontested X ops active ck tx fee e"
  shows "\<exists>e'. submit_transaction X ops active ck tx e = (Inr (txid X tx), e') \<and> is_finalized (en_pool e') (txid X tx)"
proof -
  let ?tid = "txid X tx"
  note u = assms [unfolded uncontested_def]
  obtain m where l: "lock_inputs (ck_secs ck) ?tid (tx_inputs tx) (en_mgr e) = (Inr (), m)"
    using lock_inputs_ok [of "tx_inputs tx" "en_mgr e" ?tid "ck_secs ck"] u by blast
  obtain m' where v: "validate_transaction_with_locks X ops (en_fees e) tx ?tid m = (Inr fee, m')"
    using u by (metis l prod.exhaust_sel snd_conv)
  obtain p where a: "add_pending X (ck_instant ck) tx fee (en_pool e) = (Inr (), p)" using u by (metis prod.exhaust_sel)
  define e0 where "e0 = broadcast (MsgTransaction tx) (fold (\<lambda>i. broadcast (MsgUtxoState (in_previous_output i)
    (Locked ?tid (ck_secs ck)))) (tx_inputs tx) (e\<lparr>en_mgr := m'\<rparr>))"
  have e0: "en_mgr e0 = m'" "en_pool e0 = en_pool e" by (simp_all add: e0_def)
  have fr: "get_state m' = get_state m" "is_tombstoned m' = is_tombstoned m"
    using validate_frame [of X ops "en_fees e" tx ?tid m] by (simp_all add: v)
  have lk: "locked_by ?tid (in_previous_output i) m'" "\<not> is_tombstoned m' (in_previous_output i)"
    if "i \<in> set (tx_inputs tx)" for i
    using that lock_inputs_locks [OF l that] u fr lock_inputs_tombs [of "ck_secs ck" ?tid "tx_inputs tx" "en_mgr e"]
    by (auto simp: locked_by_def l)
  have "\<not> inputs_already_spent_by_other m' (tx_inputs tx) ?tid"
    using lk by (auto simp: inputs_already_spent_by_other_def list_ex_iff locked_not_spent(2))
  moreover have "\<not> has_double_spend_conflict (e0\<lparr>en_pool := p\<rparr>) (tx_inputs tx) ?tid"
    using conflict_after_add [OF a] u lk(1)
    by (auto simp: has_double_spend_conflict_def list_ex_iff e0 locked_not_spent(1))
  moreover have "structure_error X tx = None" using u by (simp add: structure_error_def)
  moreover have "\<not> tx_version tx < 2" "\<not> MAX_MEMPOOL_TRANSACTIONS \<le> pending_count (en_pool e)"
    using u by (simp_all add: not_less not_le)
  ultimately have "process_transaction X ops active ck tx (Some fee) e0
      = (Inr (), auto_finalize X ops ck ?tid tx (e0\<lparr>en_pool := p\<rparr>))"
    using u by (simp add: process_transaction_def Let_def a e0)
  then have "submit_transaction X ops active ck tx e = (Inr ?tid, auto_finalize X ops ck ?tid tx (e0\<lparr>en_pool := p\<rparr>))"
    using u by (simp add: submit_transaction_def lock_and_validate_transaction_def Let_def l v e0_def)
  moreover have "is_finalized (en_pool (auto_finalize X ops ck ?tid tx (e0\<lparr>en_pool := p\<rparr>))) ?tid"
    using finalize_moves [of p ?tid tx X] add_pending_sel(3) [OF a]
    by (simp add: auto_finalize_def Let_def is_finalized_def)
  ultimately show ?thesis by blast
qed

lemma submit_pending:
  assumes "submit_transaction X ops active ck tx e = (r, e')" "dhas (pending (en_pool e')) k"
  shows "dhas (pending (en_pool e)) k \<or> k = txid X tx"
proof -
  have pool: "en_pool (snd (lock_and_validate_transaction X ops ck tx e)) = en_pool e"
    by (simp add: lock_and_validate_transaction_def Let_def split: prod.split sum.split)
  have proc: "dhas (pending (en_pool (snd (process_transaction X ops active ck tx fee e0)))) k \<Longrightarrow>
      dhas (pending (en_pool e0)) k \<or> k = txid X tx" for fee e0
  proof (cases rule: process_cases [of X ops active ck tx fee e0])
    case (voting f p)
    then show "dhas (pending (en_pool (snd (process_transaction X ops active ck tx fee e0)))) k \<Longrightarrow>
      dhas (pending (en_pool e0)) k \<or> k = txid X tx"
      using add_pending_sel(2) [OF voting(1), of k]
      by (auto simp: start_voting_def transition_to_voting_def Let_def split: option.splits)
  next
    case (final f p)
    then show "dhas (pending (en_pool (snd (process_transaction X ops active ck tx fee e0)))) k \<Longrightarrow>
      dhas (pending (en_pool e0)) k \<or> k = txid X tx"
      using add_pending_sel(2) [OF final(1), of k]
      by (auto simp: auto_finalize_def Let_def finalize_transaction_def confirm_transaction_def frame_simps
          split: if_splits option.splits)
  qed (use add_pending_sel(2) [of X "ck_instant ck" tx _ "en_pool e0" _ _ k] in auto)
  obtain r1 e1 where l: "lock_and_validate_transaction X ops ck tx e = (r1, e1)" by (rule prod.exhaust)
  then have e1: "en_pool e1 = en_pool e" using pool by simp
  have "dhas (pending (en_pool (snd (process_transaction X ops active ck tx fee (broadcast msg e1))))) k \<Longrightarrow>
      dhas (pending (en_pool e)) k \<or> k = txid X tx" for fee msg
    using proc [of fee "broadcast msg e1"] by (simp add: e1)
  then show ?thesis using assms e1 unfolding submit_transaction_def Let_def l
    by (auto split: if_splits sum.splits prod.splits) (metis snd_conv upd_sel(2))+
qed

section \<open>Properties\<close>

lemma settled_refused:
  assumes d: "eng_done t out e" and tx: "out \<in> in_previous_output ` set (tx_inputs tx)" "txid X tx \<noteq> t"
  shows "\<exists>err. process_transaction X ops active ck tx fee e = (Inl err, e)"
    "isl (fst (submit_transaction X ops active ck tx e))"
proof -
  have s: "settled t out (en_mgr e)" using d by (simp add: eng_done_def)
  have g: "inputs_already_spent_by_other (en_mgr e) (tx_inputs tx) (txid X tx)" by (rule spends_settled [OF s tx])
  show "\<exists>err. process_transaction X ops active ck tx fee e = (Inl err, e)"
    by (cases rule: process_cases [of X ops active ck tx fee e]) (use g in auto)
  obtain r m where l: "lock_inputs (ck_secs ck) (txid X tx) (tx_inputs tx) (en_mgr e) = (r, m)" by (rule prod.exhaust)
  then have "isl r" using lock_inputs_settled [OF _ s] tx(1) by (cases r) auto
  then show "isl (fst (submit_transaction X ops active ck tx e))"
    by (cases r) (simp_all add: submit_transaction_def lock_and_validate_transaction_def Let_def l)
qed

text \<open>
  C2. A finalized spend is never undone by the traffic of a node. Once a submitted transaction was
  finalized, take any sequence of submissions, voting rounds, pool recovery and messages of peers,
  with any validators and clocks, among which the transaction that created the spent output does not
  appear again. After them every other transaction that spends one of its inputs is refused, both
  when submitted and when it reaches the engine directly, which then changes nothing.
\<close>

theorem finalized_input_never_respent:
  assumes s: "submit_transaction X ops active ck tx (nd_engine n) = (Inr tid, e)" "is_finalized (en_pool e) tid"
    and out: "out \<in> in_previous_output ` set (tx_inputs tx)" "op_txid out \<noteq> tid"
      "\<not> pool_is_pending (en_pool e) (op_txid out)"
    and calls: "\<forall>(_, _, call) \<in> set calls. op_txid out \<notin> call_txids X call"
    and tx': "out \<in> in_previous_output ` set (tx_inputs tx')" "txid X tx' \<noteq> tid"
    and e': "e' = nd_engine (node_run X ops calls (n\<lparr>nd_engine := e\<rparr>))"
  shows "(\<exists>err. process_transaction X ops active' ck' tx' fee e' = (Inl err, e'))
    \<and> isl (fst (submit_transaction X ops active' ck' tx' e'))"
proof -
  have tid: "tid = txid X tx"
    using s(1) by (auto simp: submit_transaction_def Let_def split: if_splits prod.splits sum.splits)
  have "eng_done tid out e"
    using submit_settles [OF s(1)] s(2) out by (simp add: eng_done_def pool_done_def pool_is_pending_def tid)
  then have "eng_done tid out (nd_engine (n\<lparr>nd_engine := e\<rparr>))" by simp
  then have "eng_done tid out e'" unfolding e' by (rule run_done [OF _ calls])
  then show ?thesis using settled_refused [OF _ tx'] by blast
qed

text \<open>A node with one coin, and hashing that tells transactions apart by their number of outputs.\<close>

definition extern_keys :: extern where
  "extern_keys = extern0\<lparr>tx_json := (\<lambda>tx. [of_nat (length (tx_outputs tx))])\<rparr>"

definition validator0 :: Masternode where
  "validator0 = new_legacy ''10.0.0.1'' ''wallet'' 0 (replicate 32 5) Gold 0"

definition clock0 :: clock where "clock0 = \<lparr>ck_instant = 0, ck_secs = 0, ck_millis = 0\<rparr>"

definition node0 :: "mem_store Node" where
  "node0 = \<lparr>nd_engine = set_broadcast_callback (engine_new mgr0 []), nd_identity = None,
     nd_seen_transactions = None, nd_seen_finalized = None, nd_syncing = False, nd_tx_index = {}, nd_gossip = []\<rparr>"

definition pay1 :: Transaction where "pay1 = pay_tx [signed_input] [950000000] None"
definition pay2 :: Transaction where "pay2 = pay_tx [signed_input] [900000000, 50000000] None"

lemma txid1: "txid extern_keys pay1 = 1 # replicate 31 7" "txid extern_keys pay2 = 2 # replicate 31 7"
  by (simp_all add: txid_def extern_keys_def extern0_def pay1_def pay2_def pay_tx_def numeral_eq_Suc)

lemma signed1: "in_previous_output signed_input = out0" "tx_inputs pay1 = [signed_input]" "tx_inputs pay2 = [signed_input]"
  by (simp_all add: signed_input_def pay1_def pay2_def pay_tx_def)

lemma locked_mgr0:
  "get_utxo InMemoryUtxoStorage (set_state out0 st mgr0) = get_utxo InMemoryUtxoStorage mgr0"
  "input_status InMemoryUtxoStorage (set_state out0 (Locked t at) mgr0) t out0 = Inr False"
  by (simp_all add: get_utxo_def set_state_def fun_eq_iff input_status_def is_collateral_locked_def get_state_def
      mgr0_fields(3) [unfolded is_collateral_locked_def fun_eq_iff, rule_format])

lemma pay1_valid:
  "fst (validate_transaction_with_locks extern_keys InMemoryUtxoStorage default_fee_schedule pay1 (txid extern_keys pay1)
     (set_state out0 (Locked (txid extern_keys pay1) 0) mgr0)) = Inr 50000000"
proof -
  let ?m = "set_state out0 (Locked (txid extern_keys pay1) 0) mgr0" and ?ops = InMemoryUtxoStorage
  have sp: "tx_special_data pay1 = None" by (simp add: pay1_def pay_tx_def)
  have live: "\<exists>i \<in> set (tx_inputs pay1). input_status ?ops ?m (txid extern_keys pay1) (in_previous_output i) \<noteq> Inr True"
    by (simp add: signed1 locked_mgr0)
  have key: "from_public_key extern_keys = from_public_key extern0" "as_string extern_keys = as_string extern0"
    by (simp_all add: fun_eq_iff from_public_key_def as_string_def base58_checksum_def hash_public_key_def extern_keys_def)
  have sg: "input_signed extern_keys ?ops ?m pay1 0"
    using mgr0_signed [of pay1 0] unfolding input_signed_def locked_mgr0(1) key
    by (auto simp: signed1 Let_def create_signature_message_def extern_keys_def extern0_def)
  have tot: "input_total ?ops ?m pay1 = 1000000000" "output_sum pay1 = 950000000"
    by (simp_all add: input_total_def signed1 coin_value_def locked_mgr0(1) mgr0_fields(1) coin0_def output_sum_def
        pay1_def pay_tx_def)
  have "check_amounts ?ops default_fee_schedule ?m pay1 = Inr 50000000"
    unfolding check_amounts_iff [OF live_inputs, OF live]
    by (simp add: signed1 locked_mgr0(1) mgr0_fields(1) tot)
      (simp add: pay1_def pay_tx_def send_amount_def required_fee_def default_fee_schedule_def tier_rate_def
        SATOSHIS_PER_TIME_def MIN_TX_FEE_def)
  moreover have "\<exists>bytes. tx_bincode extern_keys pay1 = Some bytes \<and> length bytes \<le> 10000000"
    by (simp add: extern_keys_def extern0_def)
  moreover have "\<forall>i \<in> set (tx_inputs pay1). \<exists>f. input_status ?ops ?m (txid extern_keys pay1) (in_previous_output i) = Inr f"
    unfolding signed1 by (simp only: list.set ball_simps signed1 simp_thms) (use locked_mgr0(2) in blast)
  ultimately show ?thesis unfolding validate_stages [OF sp live] using sg by (simp add: signed1)
qed

lemma uncontested0: "uncontested extern_keys InMemoryUtxoStorage [validator0] clock0 pay1 50000000 (nd_engine node0)"
proof -
  have e: "en_mgr (nd_engine node0) = mgr0" "en_pool (nd_engine node0) = pool_new []"
      "en_fees (nd_engine node0) = default_fee_schedule" "en_callback (nd_engine node0)"
    by (simp_all add: node0_def set_broadcast_callback_def engine_new_def)
  have l: "snd (lock_inputs (ck_secs clock0) t (tx_inputs pay1) mgr0) = set_state out0 (Locked t 0) mgr0" for t
    using mgr0_fields(2,3) by (simp add: signed1 lock_utxo_def get_state_def [symmetric] clock0_def)
  have a: "fst (add_pending extern_keys (ck_instant clock0) pay1 50000000 (pool_new [])) = Inr ()"
    by (simp add: add_pending_def add_pending_with_submitter_def Let_def is_banned_def PHANTOM_FINALIZED_TXS_def
        parse_txid_def extern_keys_def extern0_def is_block_only_tx_def pool_new_def duplicate_dereg_def dereg_slot_def
        pay1_def pay_tx_def tx_size_of_def MAX_POOL_SIZE_def MAX_POOL_BYTES_def as_bytes_def)
  have t: "tx_inputs pay1 \<noteq> []" "tx_outputs pay1 \<noteq> []" "2 \<le> tx_version pay1"
    by (simp_all add: pay1_def pay_tx_def)
  show ?thesis unfolding uncontested_def e l using a t pay1_valid
    by (simp add: signed1 mgr0_fields e pool_new_def MAX_MEMPOOL_TRANSACTIONS_def has_conflicting_transaction_def
        pool_inputs_overlap_def)
qed

lemma out0_txid: "op_txid out0 \<noteq> txid extern_keys pay1" "op_txid out0 \<noteq> txid extern_keys pay2" "op_txid out0 \<noteq> [9]"
    "txid extern_keys pay2 \<noteq> txid extern_keys pay1"
  by (auto simp: txid1 out0_def dest: arg_cong [where f = hd])

theorem finalized_input_never_respent_witness:
  "\<exists>e'. e' = nd_engine (node_run extern_keys InMemoryUtxoStorage
       [([], clock0, CallRetry), ([validator0], clock0, InTransaction pay2), ([validator0], clock0, InFinalized [9] pay2)]
       (node0\<lparr>nd_engine := snd (submit_transaction extern_keys InMemoryUtxoStorage [validator0] clock0 pay1 (nd_engine node0))\<rparr>))
     \<and> (\<exists>err. process_transaction extern_keys InMemoryUtxoStorage [validator0] clock0 pay2 None e' = (Inl err, e'))
     \<and> isl (fst (submit_transaction extern_keys InMemoryUtxoStorage [validator0] clock0 pay2 e'))"
proof -
  obtain e where s: "submit_transaction extern_keys InMemoryUtxoStorage [validator0] clock0 pay1 (nd_engine node0)
      = (Inr (txid extern_keys pay1), e)" "is_finalized (en_pool e) (txid extern_keys pay1)"
    using submit_uncontested [OF uncontested0] by blast
  have e: "en_pool (nd_engine node0) = pool_new []" by (simp add: node0_def set_broadcast_callback_def engine_new_def)
  have "\<not> pool_is_pending (en_pool e) (op_txid out0)"
    using submit_pending [OF s(1), of "op_txid out0"] out0_txid(1) by (auto simp: e pool_new_def pool_is_pending_def)
  then show ?thesis
    by (intro exI conjI refl finalized_input_never_respent [OF s(1,2), of out0, THEN conjunct1]
        finalized_input_never_respent [OF s(1,2), of out0, THEN conjunct2])
      (use out0_txid in \<open>auto simp: s(1) signed1 call_txids_def\<close>)
qed

end
