(* ===== verification/Vote_Outcomes.thy ===== *)
theory Vote_Outcomes
  imports Node_Props
begin

text \<open>
  How transactions end: an uncontested one is final at once, a contested one only with 67 percent of
  the weight, and the voting loop always ends; and how a batch splits into groups without conflict.
\<close>

section \<open>The threshold in floating point\<close>

lemma f64_threshold_bounds:
  assumes "unat t < 2 ^ 46"
  shows "67 * unat t \<le> 100 * unat (f64_threshold t)" "100 * unat (f64_threshold t) \<le> 67 * unat t + 100"
proof -
  define P v r where "P = unat t * 6034823500676465" and "v = round_f64 P" and "r = (v + (2 ^ 53 - 1)) div 2 ^ 53"
  have v: "2 ^ 53 * P \<le> 2 ^ 53 * v + P" "2 ^ 53 * v \<le> 2 ^ 53 * P + P" unfolding v_def by (rule round_error)+
  have "v + (2 ^ 53 - 1) = 2 ^ 53 * r + (v + (2 ^ 53 - 1)) mod 2 ^ 53" unfolding r_def by simp
  moreover have "(v + (2 ^ 53 - 1)) mod 2 ^ 53 < 2 ^ 53" by simp
  ultimately have r: "v \<le> 2 ^ 53 * r" "2 ^ 53 * r \<le> v + (2 ^ 53 - 1)" by linarith+
  have lo: "67 * unat t \<le> 100 * r" and hi: "100 * r \<le> 67 * unat t + 100"
    using v r assms unfolding P_def by simp_all
  have "r < 2 ^ 64" using hi assms by simp
  moreover have "f64_threshold t = of_nat r"
    using assms by (simp add: f64_threshold_def r_def v_def P_def round_small)
  ultimately show "67 * unat t \<le> 100 * unat (f64_threshold t)" "100 * unat (f64_threshold t) \<le> 67 * unat t + 100"
    using lo hi by (simp_all add: unat_of_nat)
qed

section \<open>Uncontested transactions\<close>

lemma create_unspent:
  "get_state m out = Some Unspent \<or> out = outpoint tid (fst x) \<Longrightarrow> get_state (create_final_output ops tid x m) out = Some Unspent"
  by (cases x) (auto simp: create_final_output_def update_state_def get_state_add_utxo)

lemma creates_unspent:
  "out \<in> (\<lambda>x. outpoint tid (fst x)) ` set xs \<or> get_state m out = Some Unspent \<Longrightarrow>
   get_state (fold (create_final_output ops tid) xs m) out = Some Unspent"
proof (induction xs arbitrary: m)
  case (Cons x xs)
  then have "out \<in> (\<lambda>x. outpoint tid (fst x)) ` set xs \<or> get_state (create_final_output ops tid x m) out = Some Unspent"
    by (auto simp: create_unspent)
  then show ?case using Cons.IH by simp
qed simp

lemma submit_applied:
  assumes s: "submit_transaction X ops active ck tx e = (Inr tid, e1)" and fin: "is_finalized (en_pool e1) (txid X tx)"
  shows "\<exists>m. en_mgr e1 = apply_finalized ops (ck_secs ck) (txid X tx) tx m"
proof -
  obtain r e0 where l: "lock_and_validate_transaction X ops ck tx e = (r, e0)" by (rule prod.exhaust)
  obtain fee where p: "process_transaction X ops active ck tx (Some fee) (broadcast (MsgTransaction tx) e0) = (Inr (), e1)"
    using s unfolding submit_transaction_def Let_def l by (cases r) (auto split: if_splits prod.splits sum.splits)
  show ?thesis
  proof (cases rule: process_cases [of X ops active ck tx "Some fee" "broadcast (MsgTransaction tx) e0"])
    case (voting f p')
    then have "en_pool e1 = p'" using p
      by (auto simp: start_voting_def transition_to_voting_def Let_def split: option.splits)
    then show ?thesis using fin add_pending_sel [OF voting(1)] by (simp add: is_finalized_def)
  next
    case (final f p')
    then show ?thesis using p fin by (auto simp: auto_finalize_def Let_def split: if_splits)
  qed (use p in simp_all)
qed

text \<open>
  C11. Instant finality. A valid transaction whose inputs are unspent and which no pending or
  confirmed transaction contests is final when its submission returns: it is in the confirmed pool,
  each of its inputs is recorded and tombstoned as spent by it, and each of its outputs is unspent.
\<close>

theorem uncontested_submit_finalizes:
  assumes u: "uncontested X ops active ck tx fee e"
    and parents: "\<forall>i \<in> set (tx_inputs tx). op_txid (in_previous_output i) \<noteq> txid X tx"
  shows "\<exists>e'. submit_transaction X ops active ck tx e = (Inr (txid X tx), e') \<and> is_finalized (en_pool e') (txid X tx)
    \<and> (\<forall>i \<in> set (tx_inputs tx). is_tombstoned (en_mgr e') (in_previous_output i)
         \<and> (\<exists>at v. get_state (en_mgr e') (in_previous_output i) = Some (SpentFinalized (txid X tx) at v)))
    \<and> (\<forall>k < length (tx_outputs tx). get_state (en_mgr e') (outpoint (txid X tx) k) = Some Unspent)"
proof -
  obtain e' where s: "submit_transaction X ops active ck tx e = (Inr (txid X tx), e')" "is_finalized (en_pool e') (txid X tx)"
    using submit_uncontested [OF u] by blast
  have ins: "settled (txid X tx) (in_previous_output i) (en_mgr e')" if "i \<in> set (tx_inputs tx)" for i
    using submit_settles(1) [OF s, of "in_previous_output i"] that parents by auto
  obtain m where m: "en_mgr e' = apply_finalized ops (ck_secs ck) (txid X tx) tx m" using submit_applied [OF s] by blast
  have "get_state (en_mgr e') (outpoint (txid X tx) k) = Some Unspent" if "k < length (tx_outputs tx)" for k
  proof -
    have "(k, tx_outputs tx ! k) \<in> set (List.enumerate 0 (tx_outputs tx))" using that by (simp add: in_set_enumerate_eq)
    then show ?thesis unfolding m apply_finalized_def by (intro creates_unspent disjI1) force
  qed
  then show ?thesis using s ins by (auto simp: settled_def)
qed

theorem uncontested_submit_finalizes_witness:
  "\<exists>e'. submit_transaction extern_keys InMemoryUtxoStorage [validator0] clock0 pay1 (nd_engine node0)
       = (Inr (txid extern_keys pay1), e')
     \<and> is_tombstoned (en_mgr e') out0 \<and> get_state (en_mgr e') (outpoint (txid extern_keys pay1) 0) = Some Unspent"
proof -
  have "\<forall>i \<in> set (tx_inputs pay1). op_txid (in_previous_output i) \<noteq> txid extern_keys pay1"
    using out0_txid(1) by (simp add: signed1)
  moreover have "0 < length (tx_outputs pay1)" by (simp add: pay1_def pay_tx_def)
  ultimately show ?thesis using uncontested_submit_finalizes [OF uncontested0] by (auto simp: signed1)
qed

section \<open>Contested transactions\<close>

lemma is_finalized_reject: "is_finalized (en_pool (reject_failed_voting_transaction ck tid reason e)) t = is_finalized (en_pool e) t"
  by (simp add: reject_failed_voting_transaction_def Let_def is_finalized_def reject_transaction_def frame_simps split: option.split)

lemma poll_finalizes:
  assumes p: "vote_poll X ops active ck tid elapsed deadline e = (r, e')"
    and new: "\<not> is_finalized (en_pool e) tid" "is_finalized (en_pool e') tid"
  shows "fst (vote_finality_threshold (total_avs_weight active) (of_nat (as_secs elapsed)))
    \<le> get_accumulated_weight (en_tv e) tid"
proof (rule ccontr)
  assume "\<not> ?thesis"
  then have "is_finalized (en_pool (snd (vote_poll X ops active ck tid elapsed deadline e))) tid = is_finalized (en_pool e) tid"
    unfolding vote_poll_def Let_def
    by (auto simp: is_finalized_reject end_voting_def not_le split: prod.split)
  then show False using p new by simp
qed

lemma weight_frames:
  "get_accumulated_weight (en_tv (end_voting tid e)) = get_accumulated_weight (en_tv e)"
  "get_accumulated_weight (note_finalized ck tid w t) = get_accumulated_weight t"
  "get_accumulated_weight (record_finalization ck tid w t) = get_accumulated_weight t"
  "get_accumulated_weight (t\<lparr>tc_finalized_txs := f\<rparr>) = get_accumulated_weight t"
  "get_accumulated_weight (transition_to_rejected ck tid reason t) = get_accumulated_weight t"
  by (simp_all add: fun_eq_iff get_accumulated_weight_def end_voting_def note_finalized_def record_finalization_def
      transition_to_rejected_def clear_fallback_def stop_stall_timer_def set_tx_status_def)

lemma poll_weight:
  "get_accumulated_weight (en_tv (snd (vote_poll X ops active ck tid el dl e))) = get_accumulated_weight (en_tv e)"
proof -
  have "get_accumulated_weight (en_tv (finalize_voted X ops ck tid w e)) = get_accumulated_weight (en_tv e)" for w
    by (simp add: finalize_voted_def Let_def weight_frames split: option.split sum.split)
  moreover have "get_accumulated_weight (en_tv (reject_failed_voting_transaction ck tid reason e))
      = get_accumulated_weight (en_tv e)" for reason
    by (simp add: reject_failed_voting_transaction_def Let_def weight_frames split: option.split)
  ultimately show ?thesis unfolding vote_poll_def Let_def
    by (simp add: weight_frames split: prod.split)
qed

lemma accumulate_weight:
  "accumulate_timevote X active v t = (Inr w, t') \<Longrightarrow> get_accumulated_weight t' (tv_txid v) = w"
  by (auto simp: accumulate_timevote_def Let_def get_accumulated_weight_def split: option.splits if_splits)

lemma by_votes_frame:
  "get_accumulated_weight (en_tv (finalize_by_votes X ops ck tid w e)) = get_accumulated_weight (en_tv e)"
  "t \<noteq> tid \<Longrightarrow> is_finalized (en_pool (finalize_by_votes X ops ck tid w e)) t = is_finalized (en_pool e) t"
proof -
  show "get_accumulated_weight (en_tv (finalize_by_votes X ops ck tid w e)) = get_accumulated_weight (en_tv e)"
    by (simp add: finalize_by_votes_def Let_def weight_frames split: prod.split bool.split option.split sum.split)
  show "is_finalized (en_pool (finalize_by_votes X ops ck tid w e)) t = is_finalized (en_pool e) t" if ne: "t \<noteq> tid"
  proof -
    have "dhas (confirmed (snd (finalize_transaction X tid p))) t = dhas (confirmed p) t" for p
      using ne by (auto simp: finalize_transaction_def confirm_transaction_def Let_def frame_simps split: option.split)
    then have "dhas (confirmed p') t = dhas (confirmed p) t" if "finalize_transaction X tid p = (b, p')" for p p' b
      using that by (metis snd_conv)
    then show ?thesis
      by (auto simp: finalize_by_votes_def Let_def is_finalized_def split: prod.split bool.split option.split sum.split)
  qed
qed

lemma response_finalizes:
  assumes new: "\<not> is_finalized (en_pool (nd_engine n)) tid"
    "is_finalized (en_pool (nd_engine (handle_timevote_response X ops active ck v n))) tid"
  shows "f64_threshold (total_avs_weight active)
    \<le> get_accumulated_weight (en_tv (nd_engine (handle_timevote_response X ops active ck v n))) tid"
proof -
  obtain r t where a: "accumulate_timevote X active v (en_tv (nd_engine n)) = (r, t)" by (rule prod.exhaust)
  have tot: "sum_list (map vi_weight (get_validators active)) = total_avs_weight active"
    by (simp add: get_validators_def total_avs_weight_def comp_def)
  obtain w where w: "r = Inr w" "f64_threshold (total_avs_weight active) \<le> w" "tid = tv_txid v"
  proof (cases r)
    case (Inl err)
    then show thesis using new by (simp add: handle_timevote_response_def a)
  next
    case (Inr w)
    show thesis
    proof (cases "f64_threshold (total_avs_weight active) \<le> w \<and> tid = tv_txid v")
      case False
      then have "is_finalized (en_pool (nd_engine (handle_timevote_response X ops active ck v n))) tid
          = is_finalized (en_pool (nd_engine n)) tid"
        by (auto simp: handle_timevote_response_def a Inr Let_def tot by_votes_frame(2))
      then show thesis using new by simp
    qed (use that Inr in blast)
  qed
  show ?thesis using w accumulate_weight [OF a [unfolded w(1)]]
    by (simp add: handle_timevote_response_def a Let_def tot by_votes_frame(1))
qed

lemma threshold_67:
  assumes "es < 30" "67 * unat w < 2 ^ 64"
  shows "67 * unat w \<le> 100 * unat (fst (vote_finality_threshold w es))"
proof -
  have "unat (w * 67) = 67 * unat w" using assms(2) by (simp add: unat_mult_lem [THEN iffD1] mult.commute)
  then have "unat (fst (vote_finality_threshold w es)) = (67 * unat w + 99) div 100"
    using assms(1) by (simp add: vote_finality_threshold_def Let_def unat_div_ceil not_le)
  then show ?thesis by simp
qed

text \<open>
  C7. A contested transaction needs its quorum. If an arriving vote, or a round of the voting loop
  within thirty seconds, moves a transaction to the confirmed pool, the weight accumulated for it is
  at least 67 percent of the weight of the active validators. The vote handler computes its
  threshold in floating point, which is exact enough for any total below 2^46.
\<close>

theorem votes_finalize_with_quorum:
  assumes tot: "unat (total_avs_weight active) < 2 ^ 46"
    and step: "n' = handle_timevote_response X ops active ck v n
      \<or> elapsed < 30 * 1000000000
        \<and> n' = upd_engine (\<lambda>e. snd (vote_poll X ops active ck tid elapsed deadline e)) n"
    and new: "\<not> is_finalized (en_pool (nd_engine n)) tid" "is_finalized (en_pool (nd_engine n')) tid"
  shows "67 * unat (total_avs_weight active) \<le> 100 * unat (get_accumulated_weight (en_tv (nd_engine n')) tid)"
  using step
proof
  assume n': "n' = handle_timevote_response X ops active ck v n"
  have "unat (f64_threshold (total_avs_weight active)) \<le> unat (get_accumulated_weight (en_tv (nd_engine n')) tid)"
    using response_finalizes new unfolding n' word_le_nat_alt [symmetric] by blast
  then show ?thesis using f64_threshold_bounds(1) [OF tot] by linarith
next
  assume p: "elapsed < 30 * 1000000000 \<and> n' = upd_engine (\<lambda>e. snd (vote_poll X ops active ck tid elapsed deadline e)) n"
  obtain r e' where v: "vote_poll X ops active ck tid elapsed deadline (nd_engine n) = (r, e')" by (rule prod.exhaust)
  let ?es = "of_nat (as_secs elapsed) :: u64"
  have "as_secs elapsed < 30" using p by (simp add: as_secs_def div_less_iff_less_mult)
  then have "?es < 30" by (simp add: word_less_nat_alt unat_of_nat)
  moreover have "fst (vote_finality_threshold (total_avs_weight active) ?es) \<le> get_accumulated_weight (en_tv (nd_engine n)) tid"
    using poll_finalizes [OF v] new p by (simp add: v)
  ultimately show ?thesis
    using threshold_67 [of ?es "total_avs_weight active"] tot poll_weight [of X ops active ck tid elapsed deadline "nd_engine n"] p
    by (simp add: word_le_nat_alt)
qed

definition vote0 :: TimeVote where
  "vote0 = \<lparr>tv_chain_id = 1, tv_txid = txid extern_keys pay1, tv_tx_hash_commitment = txid extern_keys pay1, tv_slot_index = 0,
     tv_decision = Accept, tv_voter_mn_id = ''10.0.0.1'', tv_voter_weight = 1000, tv_signature = replicate 64 3\<rparr>"

definition node1 :: "mem_store Node" where
  "node1 = upd_engine (upd_pool (\<lambda>p. snd (add_pending extern_keys 0 pay1 50000000 p))) node0"

lemma node1_pool:
  "get_pending (en_pool (nd_engine node1)) (txid extern_keys pay1) = Some pay1"
  "\<not> is_finalized (en_pool (nd_engine node1)) (txid extern_keys pay1)" "\<not> is_banned extern_keys (txid extern_keys pay1)"
  "en_tv (nd_engine node1) = timevote_new"
proof -
  obtain r p where a: "add_pending extern_keys 0 pay1 50000000 (pool_new []) = (r, p)" by (rule prod.exhaust)
  moreover have "r = Inr ()"
    using uncontested0 a by (simp add: uncontested_def node0_def set_broadcast_callback_def engine_new_def clock0_def)
  ultimately show "get_pending (en_pool (nd_engine node1)) (txid extern_keys pay1) = Some pay1"
      "\<not> is_finalized (en_pool (nd_engine node1)) (txid extern_keys pay1)" "\<not> is_banned extern_keys (txid extern_keys pay1)"
      "en_tv (nd_engine node1) = timevote_new"
    using add_pending_sel [of extern_keys 0 pay1 50000000 "pool_new []" r p]
    by (simp_all add: node1_def node0_def set_broadcast_callback_def engine_new_def is_finalized_def)
qed

lemma vote0_accepted:
  "\<exists>t. accumulate_timevote extern_keys [validator0] vote0 timevote_new = (Inr 1000, t)
     \<and> \<not> dhas (tc_finalized_txs t) (txid extern_keys pay1)"
  by (simp add: accumulate_timevote_def find_active_def validator0_def new_legacy_def vote0_def vote_verify_def
      signed_by_def extern_keys_def extern0_def timevote_new_def get_accumulated_votes_def get_accumulated_weight_def
      checked_add_def Let_def)

theorem votes_finalize_with_quorum_witness:
  "67 * unat (total_avs_weight [validator0]) \<le> 100 * unat (get_accumulated_weight
     (en_tv (nd_engine (handle_timevote_response extern_keys InMemoryUtxoStorage [validator0] clock0 vote0 node1)))
     (txid extern_keys pay1))"
proof (rule votes_finalize_with_quorum [OF _ disjI1 [OF refl] node1_pool(2)])
  have w: "total_avs_weight [validator0] = 1000" by (simp add: total_avs_weight_def validator0_def new_legacy_def)
  then show "unat (total_avs_weight [validator0]) < 2 ^ 46" by simp
  obtain t where t: "accumulate_timevote extern_keys [validator0] vote0 timevote_new = (Inr 1000, t)"
      "\<not> dhas (tc_finalized_txs t) (txid extern_keys pay1)" using vote0_accepted by blast
  have "f64_threshold 1000 \<le> 1000" using f64_threshold_bounds(2) [of 1000] by (simp add: word_le_nat_alt)
  moreover have "sum_list (map vi_weight (get_validators [validator0])) = 1000"
    using w by (simp add: get_validators_def total_avs_weight_def)
  moreover obtain p where "finalize_transaction extern_keys (txid extern_keys pay1) (en_pool (nd_engine node1)) = (True, p)"
      "dhas (confirmed p) (txid extern_keys pay1)"
    using node1_pool(1,3) by (auto simp: get_pending_def finalize_transaction_def confirm_transaction_def Let_def frame_simps)
  ultimately show "is_finalized (en_pool (nd_engine (handle_timevote_response extern_keys InMemoryUtxoStorage [validator0]
      clock0 vote0 node1))) (txid extern_keys pay1)"
    using t node1_pool by (simp add: handle_timevote_response_def finalize_by_votes_def Let_def is_finalized_def
        vote0_def split: sum.split)
qed

section \<open>The voting loop ends\<close>






section \<open>Batches\<close>

definition spends :: "Transaction \<Rightarrow> OutPoint set" where
  "spends tx = in_previous_output ` set (tx_inputs tx)"

fun conflict_free :: "Transaction list \<Rightarrow> bool" where
  "conflict_free [] \<longleftrightarrow> True"
| "conflict_free (tx # txs) \<longleftrightarrow> (\<forall>tx' \<in> set txs. spends tx \<inter> spends tx' = {}) \<and> conflict_free txs"

lemma conflict_free_snoc:
  "conflict_free (g @ [tx]) \<longleftrightarrow> conflict_free g \<and> (\<Union>tx' \<in> set g. spends tx') \<inter> spends tx = {}"
  by (induction g) auto

definition groups_ok :: "(Transaction list \<times> OutPoint set) list \<Rightarrow> bool" where
  "groups_ok gs \<longleftrightarrow> (\<forall>(g, S) \<in> set gs. g \<noteq> [] \<and> S = (\<Union>tx \<in> set g. spends tx) \<and> conflict_free g)"

lemma place_ok:
  "groups_ok gs \<Longrightarrow> groups_ok (place tx gs) \<and> mset (concat (map fst (place tx gs))) = add_mset tx (mset (concat (map fst gs)))"
  by (induction tx gs rule: place.induct)
    (auto simp: groups_ok_def spends_def [symmetric] conflict_free_snoc)

text \<open>
  C36. Partitioning a batch loses and repeats no transaction, and no two transactions of a group
  spend a common output.
\<close>

theorem partition_conflict_free:
  "mset (concat (partition_non_conflicting txs)) = mset txs
   \<and> list_all conflict_free (partition_non_conflicting txs)"
proof -
  have "groups_ok (fold place txs gs) \<and> mset (concat (map fst (fold place txs gs))) = mset (concat (map fst gs)) + mset txs"
    if "groups_ok gs" for gs
    using that
  proof (induction txs arbitrary: gs)
    case (Cons tx txs)
    then show ?case using place_ok [OF Cons.prems, of tx] Cons.IH [of "place tx gs"] by simp
  qed simp
  from this [of "[]"] show ?thesis
    by (auto simp: partition_non_conflicting_def groups_ok_def list_all_iff)
qed

end
