(* ===== verification/Handler_Gaps.thy ===== *)
theory Handler_Gaps
  imports Vote_Outcomes
begin

text \<open>
  Behaviours of the engine and its message handlers that their comments exclude. Each lemma is about
  any state that satisfies its premises, and peers can bring a node into such a state.
\<close>

section \<open>Voting\<close>

text \<open>
  A transaction finalized by votes while another contender holds its input: the input is not spent,
  although the outputs are created.
\<close>

lemma winner_input_unspent:
  assumes "get_state m out = Some (SpentPending other v k at)" "other \<noteq> tid" "op_txid out \<noteq> tid"
  shows "get_state (apply_finalized ops now tid tx m) out = Some (SpentPending other v k at)"
proof -
  let ?P = "\<lambda>m :: 'a mgr. get_state m out = Some (SpentPending other v k at)"
  have mark: "?P (mark_timevote_finalized ops now out' tid m)" if "?P m" for out' m
    using that assms(2)
    by (cases "out' = out")
      (auto simp: mark_timevote_finalized_def refuses_finalize_def Let_def record_spent_def unindex_stored_def
        remove_from_address_index_def get_state_def set_state_def split: option.splits sum.splits)
  have create: "?P (create_final_output ops tid x m)" if "?P m" for x m
  proof (cases x)
    case (Pair idx o')
    have "outpoint tid idx \<noteq> out" using assms(3) by auto
    then show ?thesis using that by (auto simp: create_final_output_def Pair update_state_def get_state_add_utxo)
  qed
  show ?thesis unfolding apply_finalized_def
    by (rule fold_keeps [where P = ?P], erule create, rule fold_keeps [where P = ?P], erule mark, rule assms(1))
qed

text \<open>A rejected contender keeps its inputs reserved: unlocking looks for locks only.\<close>

lemma rejected_keeps_reservation:
  assumes "get_state (en_mgr e) out = Some (SpentPending tid v k at)"
  shows "get_state (en_mgr (reject_failed_voting_transaction ck tid reason e)) out = Some (SpentPending tid v k at)"
proof -
  let ?P = "\<lambda>m :: 'a mgr. get_state m out = Some (SpentPending tid v k at)"
  have "?P (unlock_input tid i m)" if "?P m" for i m
    using that by (cases "in_previous_output i = out")
      (auto simp: unlock_input_def update_state_def split: option.splits UTXOState.splits)
  then have "?P (unlock_transaction_inputs tid ins m)" if "?P m" for ins m
    unfolding unlock_transaction_inputs_def using that by (intro fold_keeps [where P = ?P])
  then show ?thesis using assms by (simp add: reject_failed_voting_transaction_def Let_def split: option.split)
qed

text \<open>Masternode registrations have no inputs, and the pool refuses every transaction without inputs.\<close>

lemma no_inputs_refused:
  assumes "tx_inputs tx = []"
  shows "\<exists>err e'. process_transaction X ops active ck tx fee e = (Inl err, e')"
proof -
  have "isl (fst (add_pending X now tx f p))" for now f p
    using assms by (simp add: add_pending_def add_pending_with_submitter_def is_block_only_tx_def Let_def)
  then have no: "add_pending X now tx f p \<noteq> (Inr u, p')" for now f p u p' by (metis fst_conv sum.disc(2))
  show ?thesis by (cases rule: process_cases [of X ops active ck tx fee e]) (use no in auto)
qed

text \<open>The floating-point threshold of the vote handler is one above 67 percent at a weight of 1500.\<close>

lemma f64_threshold_1500: "f64_threshold 1500 = 1006" "finality_threshold 1500 = 1005"
proof -
  have "bit_length 9052235251014697500 = 63" by (simp add: bit_length.simps)
  then have "round_f64 9052235251014697500 = 9052235251014697984"
    by (simp add: round_f64_eq Let_def)
  then show "f64_threshold 1500 = 1006" by (simp add: f64_threshold_def round_small)
  show "finality_threshold 1500 = 1005" by (simp add: finality_threshold_def div_ceil_def)
qed

text \<open>
  An output that the manager refuses because it was spent before is set to unspent all the same when
  its transaction is finalized: it is offered as spendable although it is not stored.
\<close>

lemma refused_output_revived:
  assumes "is_tombstoned m (outpoint tid idx)" "\<not> is_collateral_locked m (outpoint tid idx)"
    and "get_utxo ops m (outpoint tid idx) = Inl NotFound"
  shows "is_spendable now (create_final_output ops tid (idx, o') m) (outpoint tid idx) None"
    "get_utxo ops (create_final_output ops tid (idx, o') m) (outpoint tid idx) = Inl NotFound"
  using assms
  by (simp_all add: create_final_output_def add_utxo_def is_tombstoned_def finalized_output_def update_state_def
      set_state_def is_spendable_def is_collateral_locked_def get_utxo_def)

section \<open>Messages\<close>

lemma add_output_stored:
  assumes "get_state m (outpoint tid idx) = None" "\<not> is_tombstoned m (outpoint tid idx)"
  shows "get_utxo InMemoryUtxoStorage (create_output_if InMemoryUtxoStorage tid (idx, o') m) (outpoint tid idx)
      = Inr (finalized_output tid idx o')"
    "get_state (create_output_if InMemoryUtxoStorage tid (idx, o') m) (outpoint tid idx) = Some Unspent"
  using assms
  by (simp_all add: create_output_if_def add_utxo_def store_unspent_def is_tombstoned_def get_state_def mem_defs
      update_state_def set_state_def get_utxo_def)

text \<open>
  A peer mints: a finalized entry of a mempool response is applied to the outputs unvalidated, also
  when the pool refuses it because it has no inputs at all.
\<close>

lemma sync_response_mints:
  assumes "tx_inputs tx = []" "tx_outputs tx = [o']"
    and "\<not> has_transaction (en_pool (nd_engine n)) (txid X tx)" "\<not> is_tx_archived n (txid X tx)"
    and new: "get_state (en_mgr (nd_engine n)) (outpoint (txid X tx) 0) = None"
      "\<not> is_tombstoned (en_mgr (nd_engine n)) (outpoint (txid X tx) 0)"
    and n': "n' = handle_mempool_sync_response X InMemoryUtxoStorage active ck
      [\<lparr>ms_tx = tx, ms_fee = fee, ms_is_finalized = True\<rparr>] n"
  shows "get_utxo InMemoryUtxoStorage (en_mgr (nd_engine n')) (outpoint (txid X tx) 0)
      = Inr (finalized_output (txid X tx) 0 o')"
    "get_state (en_mgr (nd_engine n')) (outpoint (txid X tx) 0) = Some Unspent"
  using assms add_output_stored [OF new, of o']
  by (simp_all add: n' handle_mempool_sync_response_def sync_entry_def sync_finalized_def Let_def is_ghost_def
      enumerate_simps)

text \<open>
  A peer mints with one message: an announcement whose input the node does not know is not
  validated, and its outputs are stored as unspent. The announced identifier is never compared with
  the transaction.
\<close>

lemma announcement_mints:
  assumes "tx_inputs tx = [i]" "tx_outputs tx = [o']" "\<not> tx_version tx < 2"
    and "\<not> nd_syncing n" "nd_seen_finalized n = None" "\<not> is_tx_archived n tid" "\<not> is_finalized (en_pool (nd_engine n)) tid"
    and "get_utxo InMemoryUtxoStorage (en_mgr (nd_engine n)) (in_previous_output i) = Inl NotFound"
      "\<not> is_tombstoned (en_mgr (nd_engine n)) (in_previous_output i)"
    and new: "get_state (en_mgr (nd_engine n)) (outpoint tid 0) = None" "\<not> is_tombstoned (en_mgr (nd_engine n)) (outpoint tid 0)"
    and n': "n' = handle_transaction_finalized X InMemoryUtxoStorage ck tid tx n"
  shows "get_utxo InMemoryUtxoStorage (en_mgr (nd_engine n')) (outpoint tid 0) = Inr (finalized_output tid 0 o')"
    "get_state (en_mgr (nd_engine n')) (outpoint tid 0) = Some Unspent"
  using assms add_output_stored [OF new, of o']
  by (simp_all add: n' handle_transaction_finalized_def check_seen_def Let_def is_ghost_def apply_announced_def
      inputs_accounted_def is_tx_archived_def enumerate_simps)

text \<open>
  A peer blocks a foreign coin without a signature: inputs are locked one after the other before
  anything is validated, and the locks taken before a missing input stay.
\<close>

lemma unsigned_lock_stays:
  assumes tx: "tx_inputs tx = [i, j]"
    and n: "nd_seen_transactions n = None" "\<not> has_transaction (en_pool (nd_engine n)) (txid X tx)"
    and i: "get_state (en_mgr (nd_engine n)) (in_previous_output i) = Some Unspent"
      "\<not> is_collateral_locked (en_mgr (nd_engine n)) (in_previous_output i)"
      "\<not> is_tombstoned (en_mgr (nd_engine n)) (in_previous_output i)"
    and j: "get_state (en_mgr (nd_engine n)) (in_previous_output j) = None"
      "\<not> is_tombstoned (en_mgr (nd_engine n)) (in_previous_output j)"
  shows "get_state (en_mgr (nd_engine (handle_transaction_broadcast X ops active ck tx n))) (in_previous_output i)
    = Some (Locked (txid X tx) (ck_secs ck))"
proof -
  let ?m = "en_mgr (nd_engine n)" and ?t = "txid X tx"
  let ?m1 = "set_state (in_previous_output i) (Locked ?t (ck_secs ck)) ?m"
  have ne: "in_previous_output j \<noteq> in_previous_output i" using i(1) j(1) by auto
  have 1: "lock_utxo (ck_secs ck) (in_previous_output i) ?t ?m = (Inr (), ?m1)"
    using i by (simp add: lock_utxo_def get_state_def)
  have "dget (utxo_states ?m1) (in_previous_output j) = None" using j(1) ne by (simp add: set_state_def get_state_def)
  then have "\<exists>err. lock_utxo (ck_secs ck) (in_previous_output j) ?t ?m1 = (Inl err, ?m1)"
    by (simp add: lock_utxo_def)
  then obtain err where 2: "lock_utxo (ck_secs ck) (in_previous_output j) ?t ?m1 = (Inl err, ?m1)" by blast
  have "\<not> inputs_already_spent_by_other ?m (tx_inputs tx) ?t"
    using i j by (simp add: tx inputs_already_spent_by_other_def spent_by_other_def)
  then show ?thesis using n
    by (simp add: handle_transaction_broadcast_def check_seen_def Let_def lock_and_validate_transaction_def tx 1 2)
qed

text \<open>
  A validator signs for an identifier it did not check: a vote request is compared with the
  commitment it names itself, never with the identifier that is signed.
\<close>

lemma vote_for_any_txid:
  assumes "get_pending (en_pool (nd_engine n)) tid = None"
    and l: "lock_and_validate_transaction X ops ck tx (nd_engine n) = (Inr fee, e1)"
    and a: "add_pending X (ck_instant ck) tx fee (en_pool e1) = (Inr (), p)"
    and v: "fst (validate_transaction X ops (en_fees e1) tx (en_mgr e1)) = Inr ()"
    and "nd_identity n = Some i" "find_active active (ni_address i) = Some mn"
  shows "\<exists>vote. fst (handle_timevote_request X ops active ck tid (txid X tx) slot (Some tx) n) = Some vote
    \<and> tv_txid vote = tid \<and> tv_decision vote = Accept"
proof -
  obtain m where m: "validate_transaction X ops (en_fees e1) tx (en_mgr e1) = (Inr (), m)"
    using v by (metis prod.collapse)
  show ?thesis using assms
    by (simp add: handle_timevote_request_def requested_tx_def decide_vote_def calculate_tx_commitment_def m
        sign_timevote_def sign_finality_vote_def Let_def)
qed

end
